(* ===== verification/Xsk_Prelude.thy ===== *)
theory Xsk_Prelude
  imports Main "HOL-Library.Word"
begin

unbundle bit_operations_syntax

text \<open>
  Shared vocabulary of the development: the machine integers of the 64-bit target, the
  outcome of running a piece of Rust code, checked arithmetic in the two build profiles,
  segments of byte lists, and the automation (three collections of theorems) the component
  theories use.
\<close>

section \<open>Machine integers\<close>

text \<open>
  The crate compiles for 64-bit unix targets only (\<^verbatim>\<open>src/lib.rs\<close>), so \<open>usize\<close> and
  \<open>u64\<close> have the same width. A C \<open>int\<close> is an \<open>i32\<close>, a 32-bit word read with \<open>sint\<close>.
\<close>

type_synonym u8 = "8 word"
type_synonym u16 = "16 word"
type_synonym i16 = "16 word"
type_synonym u32 = "32 word"
type_synonym i32 = "32 word"
type_synonym u64 = "64 word"
type_synonym usize = "64 word"
type_synonym ptr = "64 word"

abbreviation (input) null :: ptr where
  "null \<equiv> 0"

abbreviation (input) is_null :: "ptr \<Rightarrow> bool" where
  "is_null p \<equiv> p = null"

text \<open>The length of a slice, as \<open>len()\<close> returns it.\<close>

definition slice_len :: "'a list \<Rightarrow> usize" where
  "slice_len xs = of_nat (length xs)"

section \<open>Outcomes\<close>

text \<open>
  A Rust function returns a value, panics, or (inside \<^verbatim>\<open>unsafe\<close>) has undefined behaviour.
  Errors the code returns as values (\<^verbatim>\<open>Result\<close>) are sums inside \<open>Ret\<close>, with \<open>Inl\<close> for
  \<^verbatim>\<open>Err\<close> and \<open>Inr\<close> for \<^verbatim>\<open>Ok\<close>.
\<close>

datatype 'a rust = Ret 'a | Panic | UB

fun rbind :: "'a rust \<Rightarrow> ('a \<Rightarrow> 'b rust) \<Rightarrow> 'b rust" where
  "rbind (Ret x) f = f x"
| "rbind Panic f = Panic"
| "rbind UB f = UB"

named_theorems rust_arith \<open>checked arithmetic that stays in range\<close>
named_theorems seg_simps \<open>segments of lists\<close>
named_theorems api_defs \<open>definitions that proofs about the public interface unfold\<close>

lemma rbind_Ret_iff: "rbind m f = Ret y \<longleftrightarrow> (\<exists>x. m = Ret x \<and> f x = Ret y)"
  by (cases m) auto

lemma rbind_Panic_iff: "rbind m f = Panic \<longleftrightarrow> m = Panic \<or> (\<exists>x. m = Ret x \<and> f x = Panic)"
  by (cases m) auto

lemma rbind_UB_iff: "rbind m f = UB \<longleftrightarrow> m = UB \<or> (\<exists>x. m = Ret x \<and> f x = UB)"
  by (cases m) auto

lemma rbind_assoc: "rbind (rbind m f) g = rbind m (\<lambda>x. rbind (f x) g)"
  by (cases m) auto

lemma rbind_cong [fundef_cong]:
  "m = m' \<Longrightarrow> (\<And>x. m' = Ret x \<Longrightarrow> f x = g x) \<Longrightarrow> rbind m f = rbind m' g"
  by (cases m') auto

section \<open>Arithmetic in the two build profiles\<close>

text \<open>
  Rust's \<open>+\<close>, \<open>-\<close> and \<open>*\<close> on integers panic on overflow when the crate is compiled with
  overflow checks (the default of debug builds) and wrap around otherwise (the default of
  release builds). The flag \<open>oc\<close> says whether the checks are on; every operation of the
  model that uses such arithmetic takes it as its first argument.
\<close>

definition add_oc :: "bool \<Rightarrow> 'a::len word \<Rightarrow> 'a word \<Rightarrow> 'a word rust" where
  "add_oc oc a b = (if oc \<and> 2 ^ LENGTH('a) \<le> unat a + unat b then Panic else Ret (a + b))"

definition sub_oc :: "bool \<Rightarrow> 'a::len word \<Rightarrow> 'a word \<Rightarrow> 'a word rust" where
  "sub_oc oc a b = (if oc \<and> a < b then Panic else Ret (a - b))"

definition mul_oc :: "bool \<Rightarrow> 'a::len word \<Rightarrow> 'a word \<Rightarrow> 'a word rust" where
  "mul_oc oc a b = (if oc \<and> 2 ^ LENGTH('a) \<le> unat a * unat b then Panic else Ret (a * b))"

text \<open>Negation of an \<open>i32\<close> overflows at the least value only.\<close>

definition neg_oc :: "bool \<Rightarrow> i32 \<Rightarrow> i32 rust" where
  "neg_oc oc a = (if oc \<and> sint a = - (2 ^ 31) then Panic else Ret (- a))"

lemma add_oc_release [simp]: "add_oc False a b = Ret (a + b)"
  by (simp add: add_oc_def)

lemma sub_oc_release [simp]: "sub_oc False a b = Ret (a - b)"
  by (simp add: sub_oc_def)

lemma mul_oc_release [simp]: "mul_oc False a b = Ret (a * b)"
  by (simp add: mul_oc_def)

lemma neg_oc_release [simp]: "neg_oc False a = Ret (- a)"
  by (simp add: neg_oc_def)

lemma add_oc_in_range [rust_arith]:
  "unat a + unat b < 2 ^ LENGTH('a) \<Longrightarrow> add_oc oc a b = Ret (a + b)" for a b :: "'a::len word"
  by (simp add: add_oc_def)

lemma sub_oc_in_range [rust_arith]: "b \<le> a \<Longrightarrow> sub_oc oc a b = Ret (a - b)"
  by (simp add: sub_oc_def linorder_not_less)

lemma mul_oc_in_range [rust_arith]:
  "unat a * unat b < 2 ^ LENGTH('a) \<Longrightarrow> mul_oc oc a b = Ret (a * b)" for a b :: "'a::len word"
  by (simp add: mul_oc_def)

lemma oc_not_UB [simp]:
  "add_oc oc a b \<noteq> UB" "sub_oc oc a b \<noteq> UB" "mul_oc oc a b \<noteq> UB" "neg_oc oc e \<noteq> UB"
  by (simp_all add: add_oc_def sub_oc_def mul_oc_def neg_oc_def)

lemma unat_add_in_range:
  "unat a + unat b < 2 ^ LENGTH('a) \<Longrightarrow> unat (a + b) = unat a + unat b" for a b :: "'a::len word"
  by (simp add: unat_add_lem [symmetric])

lemma unat_mul_in_range:
  "unat a * unat b < 2 ^ LENGTH('a) \<Longrightarrow> unat (a * b) = unat a * unat b" for a b :: "'a::len word"
  by (simp add: unat_mult_lem [symmetric])

lemma unat_u32_bound: "unat (x :: u32) < 2 ^ 32"
  using unsigned_less [where 'a = nat, of x] by simp

lemma unat_u64_bound: "unat (x :: u64) < 2 ^ 64"
  using unsigned_less [where 'a = nat, of x] by simp

lemma unat_ucast_u32_u64 [simp]: "unat (ucast (x :: u32) :: u64) = unat x"
  by (simp add: unsigned_ucast_eq take_bit_nat_eq_self_iff) (use unat_u32_bound [of x] in simp)

lemma unat_ucast_u64_u32: "unat (x :: u64) < 2 ^ 32 \<Longrightarrow> unat (ucast x :: u32) = unat x"
  by (simp add: unsigned_ucast_eq take_bit_nat_eq_self_iff)

lemma unat_of_nat_u32: "n < 2 ^ 32 \<Longrightarrow> unat (of_nat n :: u32) = n"
  by (simp add: unat_of_nat)

lemma unat_of_nat_u64: "n < 2 ^ 64 \<Longrightarrow> unat (of_nat n :: u64) = n"
  by (simp add: unat_of_nat)

text \<open>The cast \<open>len() as u32\<close> keeps the length modulo \<open>2 ^ 32\<close>.\<close>

lemma unat_slice_len_u32: "unat (ucast (slice_len xs) :: u32) = length xs mod 2 ^ 32"
  by (simp add: slice_len_def unsigned_ucast_eq unsigned_of_nat take_bit_take_bit)
    (simp add: take_bit_eq_mod)

lemma unat_slice_len: "length xs < 2 ^ 64 \<Longrightarrow> unat (slice_len xs) = length xs"
  by (simp add: slice_len_def unat_of_nat)

section \<open>Segments of lists\<close>

text \<open>
  \<open>seg xs off n\<close> reads \<open>n\<close> elements from offset \<open>off\<close>; \<open>overwrite xs off ys\<close> stores
  \<open>ys\<close> there. They are the reads and writes of a byte region through a slice.
\<close>

definition seg :: "'a list \<Rightarrow> nat \<Rightarrow> nat \<Rightarrow> 'a list" where
  "seg xs off n = take n (drop off xs)"

definition overwrite :: "'a list \<Rightarrow> nat \<Rightarrow> 'a list \<Rightarrow> 'a list" where
  "overwrite xs off ys = take off xs @ ys @ drop (off + length ys) xs"

lemma length_seg [simp]: "length (seg xs off n) = min n (length xs - off)"
  by (simp add: seg_def min.commute)

lemma length_overwrite [simp]:
  "off + length ys \<le> length xs \<Longrightarrow> length (overwrite xs off ys) = length xs"
  by (simp add: overwrite_def)

lemma length_seg_in [seg_simps]: "off + n \<le> length xs \<Longrightarrow> length (seg xs off n) = n"
  by simp

lemma take_seg [seg_simps]: "m \<le> n \<Longrightarrow> take m (seg xs off n) = seg xs off m"
  by (simp add: seg_def min_def)

lemma nth_seg: "i < n \<Longrightarrow> off + n \<le> length xs \<Longrightarrow> seg xs off n ! i = xs ! (off + i)"
  by (simp add: seg_def)

lemma nth_overwrite:
  assumes "off + length ys \<le> length xs" and "i < length xs"
  shows "overwrite xs off ys ! i
    = (if off \<le> i \<and> i < off + length ys then ys ! (i - off) else xs ! i)"
proof (cases "i < off")
  case True
  with assms show ?thesis by (simp add: overwrite_def nth_append)
next
  case False
  with assms show ?thesis by (auto simp: overwrite_def nth_append)
qed

lemma overwrite_Nil [simp]: "overwrite xs off [] = xs"
  by (simp add: overwrite_def)

lemma overwrite_append [seg_simps]:
  "off + length ys + length zs \<le> length xs \<Longrightarrow>
   overwrite (overwrite xs off ys) (off + length ys) zs = overwrite xs off (ys @ zs)"
  by (simp add: overwrite_def add.assoc add.commute add.left_commute)

lemma take_overwrite [seg_simps]:
  "off + length ys \<le> length xs \<Longrightarrow> take off (overwrite xs off ys) = take off xs"
  by (simp add: overwrite_def)

lemma drop_overwrite [seg_simps]:
  "off + length ys \<le> length xs \<Longrightarrow>
   drop (off + length ys) (overwrite xs off ys) = drop (off + length ys) xs"
  by (simp add: overwrite_def)

lemma seg_overwrite_same [seg_simps]:
  "off + length ys \<le> length xs \<Longrightarrow> n = length ys \<Longrightarrow> seg (overwrite xs off ys) off n = ys"
  by (simp add: seg_def overwrite_def)

lemma seg_overwrite_disjoint [seg_simps]:
  assumes "off + length ys \<le> length xs" and "o2 + n \<le> length xs"
    and "o2 + n \<le> off \<or> off + length ys \<le> o2"
  shows "seg (overwrite xs off ys) o2 n = seg xs o2 n"
proof (rule nth_equalityI)
  show "length (seg (overwrite xs off ys) o2 n) = length (seg xs o2 n)"
    using assms by simp
next
  fix i assume "i < length (seg (overwrite xs off ys) o2 n)"
  then have i: "i < n" by simp
  with assms show "seg (overwrite xs off ys) o2 n ! i = seg xs o2 n ! i"
    by (subst nth_seg, simp, simp, subst nth_seg, simp, simp, subst nth_overwrite) auto
qed

lemma overwrite_seg_id [seg_simps]:
  "off + n \<le> length xs \<Longrightarrow> overwrite xs off (seg xs off n) = xs"
proof -
  assume le: "off + n \<le> length xs"
  have "overwrite xs off (seg xs off n) = take off xs @ take n (drop off xs) @ drop n (drop off xs)"
    using le by (simp add: overwrite_def seg_def add.commute [of off n] del: append_take_drop_id)
  then show ?thesis by (simp only: append_take_drop_id)
qed

end
