(* ===== verification/Xsk_Foreign.thy ===== *)
theory Xsk_Foreign
  imports Xsk_Prelude
begin

text \<open>
  The code the crate calls and does not contain: the C library (crate \<^verbatim>\<open>libc\<close>), libxdp and
  the kernel behind it (crate \<^verbatim>\<open>libxdp-sys\<close>). None of it is defined here. Its structures
  are records with the fields the crate names; its functions and constants are the fields
  of the parameter records \<open>libc\<close> and \<open>libxdp\<close>, over a world \<open>'w\<close> that stands for
  everything outside the process's own Rust values: kernel objects, shared ring memory,
  \<open>errno\<close>. A C out-parameter is an argument (the value before the call) and a component
  of the result (the value after it). A function that returns a pointer into a ring, which
  the crate dereferences at once, is a read or a write of that slot.
\<close>

section \<open>C structures\<close>

text \<open>Rings: the fields are those of the literals in \<^verbatim>\<open>src/ring.rs\<close>; a pointer is an address.\<close>

record xsk_ring_cons =
  rc_cached_prod :: u32
  rc_cached_cons :: u32
  rc_mask :: u32
  rc_size :: u32
  rc_producer :: ptr
  rc_consumer :: ptr
  rc_ring :: ptr
  rc_flags :: ptr

record xsk_ring_prod =
  rp_cached_prod :: u32
  rp_cached_cons :: u32
  rp_mask :: u32
  rp_size :: u32
  rp_producer :: ptr
  rp_consumer :: ptr
  rp_ring :: ptr
  rp_flags :: ptr

record xdp_desc =
  xd_addr :: u64
  xd_len :: u32
  xd_options :: u32

record xsk_umem_config =
  uc_fill_size :: u32
  uc_comp_size :: u32
  uc_frame_size :: u32
  uc_frame_headroom :: u32
  uc_flags :: u32

record xsk_socket_config =
  sc_rx_size :: u32
  sc_tx_size :: u32
  sc_xdp_flags :: u32
  sc_bind_flags :: u16
  sc_libxdp_flags :: u32

record pollfd =
  pf_fd :: i32
  pf_events :: i16
  pf_revents :: i16

record xdp_statistics =
  st_rx_dropped :: u64
  st_rx_invalid_descs :: u64
  st_tx_invalid_descs :: u64
  st_rx_ring_full :: u64
  st_rx_fill_ring_empty_descs :: u64
  st_tx_ring_empty_descs :: u64

text \<open>
  \<^verbatim>\<open>std::io::Error\<close>: an operating-system error code, or an error made by the program with
  \<^verbatim>\<open>io::Error::other\<close> or by the standard library's \<^verbatim>\<open>Write\<close> helpers.
\<close>

datatype io_error = OsError i32 | OtherError string | WriteZero

section \<open>The C library\<close>

record 'w libc =
  mmap :: "'w \<Rightarrow> ptr \<Rightarrow> usize \<Rightarrow> i32 \<Rightarrow> i32 \<Rightarrow> i32 \<Rightarrow> u64 \<Rightarrow> ptr \<times> 'w"
  munmap :: "'w \<Rightarrow> ptr \<Rightarrow> usize \<Rightarrow> i32 \<times> 'w"
  poll :: "'w \<Rightarrow> pollfd \<Rightarrow> u64 \<Rightarrow> i32 \<Rightarrow> i32 \<times> pollfd \<times> 'w"
  sendto :: "'w \<Rightarrow> i32 \<Rightarrow> ptr \<Rightarrow> usize \<Rightarrow> i32 \<Rightarrow> ptr \<Rightarrow> u32 \<Rightarrow> u64 \<times> 'w"
  getsockopt :: "'w \<Rightarrow> i32 \<Rightarrow> i32 \<Rightarrow> i32 \<Rightarrow> xdp_statistics \<Rightarrow> u32
    \<Rightarrow> i32 \<times> xdp_statistics \<times> u32 \<times> 'w"
  errno :: "'w \<Rightarrow> i32"
  MAP_FAILED :: ptr
  MAP_ANONYMOUS :: i32
  MAP_SHARED :: i32
  MAP_POPULATE :: i32
  MAP_HUGETLB :: i32
  PROT_READ :: i32
  PROT_WRITE :: i32
  POLLIN :: i16
  POLLOUT :: i16
  MSG_DONTWAIT :: i32
  SOL_XDP :: i32
  EINTR :: i32
  ENOBUFS :: i32
  EAGAIN :: i32
  EBUSY :: i32
  ENETDOWN :: i32

section \<open>libxdp\<close>

record 'w libxdp =
  reserve :: "'w \<Rightarrow> xsk_ring_prod \<Rightarrow> u32 \<Rightarrow> u32 \<Rightarrow> u32 \<times> u32 \<times> xsk_ring_prod \<times> 'w"
  fill_addr_set :: "'w \<Rightarrow> xsk_ring_prod \<Rightarrow> u32 \<Rightarrow> u64 \<Rightarrow> 'w"
  tx_desc_get :: "'w \<Rightarrow> xsk_ring_prod \<Rightarrow> u32 \<Rightarrow> xdp_desc"
  tx_desc_set :: "'w \<Rightarrow> xsk_ring_prod \<Rightarrow> u32 \<Rightarrow> xdp_desc \<Rightarrow> 'w"
  submit :: "'w \<Rightarrow> xsk_ring_prod \<Rightarrow> u32 \<Rightarrow> xsk_ring_prod \<times> 'w"
  prod_needs_wakeup :: "'w \<Rightarrow> xsk_ring_prod \<Rightarrow> i32"
  peek :: "'w \<Rightarrow> xsk_ring_cons \<Rightarrow> u32 \<Rightarrow> u32 \<Rightarrow> u32 \<times> u32 \<times> xsk_ring_cons \<times> 'w"
  comp_addr_get :: "'w \<Rightarrow> xsk_ring_cons \<Rightarrow> u32 \<Rightarrow> u64"
  rx_desc_get :: "'w \<Rightarrow> xsk_ring_cons \<Rightarrow> u32 \<Rightarrow> xdp_desc"
  release :: "'w \<Rightarrow> xsk_ring_cons \<Rightarrow> u32 \<Rightarrow> xsk_ring_cons \<times> 'w"
  umem_create :: "'w \<Rightarrow> ptr \<Rightarrow> ptr \<Rightarrow> u64 \<Rightarrow> xsk_ring_prod \<Rightarrow> xsk_ring_cons \<Rightarrow> xsk_umem_config
    \<Rightarrow> i32 \<times> ptr \<times> xsk_ring_prod \<times> xsk_ring_cons \<times> 'w"
  umem_delete :: "'w \<Rightarrow> ptr \<Rightarrow> i32 \<times> 'w"
  socket_create_shared :: "'w \<Rightarrow> ptr \<Rightarrow> u8 list \<Rightarrow> u32 \<Rightarrow> ptr \<Rightarrow> xsk_ring_cons \<Rightarrow> xsk_ring_prod
    \<Rightarrow> xsk_ring_prod \<Rightarrow> xsk_ring_cons \<Rightarrow> xsk_socket_config
    \<Rightarrow> i32 \<times> ptr \<times> xsk_ring_cons \<times> xsk_ring_prod \<times> xsk_ring_prod \<times> xsk_ring_cons \<times> 'w"
  socket_fd :: "'w \<Rightarrow> ptr \<Rightarrow> i32"
  socket_delete :: "'w \<Rightarrow> ptr \<Rightarrow> 'w"
  XDP_PACKET_HEADROOM :: u32
  XSK_RING_CONS_DEFAULT_NUM_DESCS :: u32
  XSK_RING_PROD_DEFAULT_NUM_DESCS :: u32
  XSK_UMEM_DEFAULT_FRAME_HEADROOM :: u32
  XSK_UMEM_DEFAULT_FRAME_SIZE :: u32
  XDP_STATISTICS :: i32
  XDP_STATISTICS_SIZEOF :: u32

end
