(* ===== verification/Xsk_Util.thy ===== *)
theory Xsk_Util
  imports Xsk_Foreign
begin

text \<open>
  \<^verbatim>\<open>src/util.rs\<close>: reading \<open>errno\<close>, the power-of-two test behind queue sizes and the
  hand-rolled minimum behind the cursor.
\<close>

section \<open>Operations\<close>

definition get_errno :: "'w libc \<Rightarrow> 'w \<Rightarrow> i32" where
  "get_errno L w = errno L w"

text \<open>\<open>val - 1\<close> cannot overflow after the early return, so it is the plain subtraction.\<close>

definition is_pow_of_two :: "u32 \<Rightarrow> bool" where
  "is_pow_of_two val = (if val = 0 then False else val AND (val - 1) = 0)"

definition min_usize :: "usize \<Rightarrow> usize \<Rightarrow> usize" where
  "min_usize a b = (if a < b then a else b)"

section \<open>The bit trick recognises exactly the powers of two\<close>

lemma nat_and_pred_even: "2 * m AND (2 * m - 1) = 2 * (m AND (m - 1))" if "0 < m" for m :: nat
proof -
  from that have eq: "2 * m - 1 = 1 + 2 * (m - 1)" by simp
  show ?thesis
    unfolding eq by (subst and_rec) simp
qed

lemma nat_and_pred_odd: "Suc (2 * m) AND 2 * m = 2 * m" for m :: nat
  by (subst and_rec) simp

lemma nat_and_pred_zero_iff: "0 < n \<Longrightarrow> n AND (n - 1) = 0 \<longleftrightarrow> (\<exists>k. n = 2 ^ k)" for n :: nat
proof (induction n rule: less_induct)
  case (less n)
  show ?case
  proof (cases "even n")
    case True
    then obtain m where m: "n = 2 * m" by blast
    with less.prems have pos: "0 < m" and lt: "m < n" by simp_all
    have "n AND (n - 1) = 0 \<longleftrightarrow> m AND (m - 1) = 0"
      using nat_and_pred_even [OF pos] by (simp add: m)
    also have "\<dots> \<longleftrightarrow> (\<exists>k. m = 2 ^ k)"
      by (rule less.IH [OF lt pos])
    also have "\<dots> \<longleftrightarrow> (\<exists>k. n = 2 ^ k)"
    proof
      assume "\<exists>k. m = 2 ^ k"
      then obtain k where "m = 2 ^ k" ..
      then have "n = 2 ^ Suc k" by (simp add: m)
      then show "\<exists>k. n = 2 ^ k" ..
    next
      assume "\<exists>k. n = 2 ^ k"
      then obtain k where "n = 2 ^ k" ..
      with m show "\<exists>k. m = 2 ^ k" by (cases k) auto
    qed
    finally show ?thesis .
  next
    case False
    then obtain m where m: "n = Suc (2 * m)" using oddE by fastforce
    have "n AND (n - 1) = 0 \<longleftrightarrow> m = 0"
      by (simp add: m nat_and_pred_odd)
    also have "\<dots> \<longleftrightarrow> (\<exists>k. n = 2 ^ k)"
    proof
      assume "m = 0"
      then have "n = 2 ^ 0" by (simp add: m)
      then show "\<exists>k. n = 2 ^ k" ..
    next
      assume "\<exists>k. n = 2 ^ k"
      then obtain k where k: "n = 2 ^ k" ..
      with False have "k = 0" by (cases k) auto
      with k m show "m = 0" by simp
    qed
    finally show ?thesis .
  qed
qed

text \<open>
  A 32-bit value passes the queue-size test exactly when it is one of the 32 powers of
  two from \<open>2 ^ 0\<close> to \<open>2 ^ 31\<close>; zero fails.
\<close>

lemma is_pow_of_two_iff: "is_pow_of_two v \<longleftrightarrow> (\<exists>k<32. unat v = 2 ^ k)"
proof (cases "v = 0")
  case True
  then show ?thesis by (simp add: is_pow_of_two_def)
next
  case False
  then have pos: "0 < unat v" by (simp add: unat_gt_0)
  then have pred: "unat (v - 1) = unat v - 1"
    using False by (simp add: unat_minus_one)
  have "is_pow_of_two v \<longleftrightarrow> unat (v AND (v - 1)) = 0"
    using False by (simp add: is_pow_of_two_def unat_eq_0)
  also have "unat (v AND (v - 1)) = unat v AND (unat v - 1)"
    by (simp add: unsigned_and_eq pred)
  also have "(unat v AND (unat v - 1)) = 0 \<longleftrightarrow> (\<exists>k. unat v = 2 ^ k)"
    using pos by (rule nat_and_pred_zero_iff)
  also have "\<dots> \<longleftrightarrow> (\<exists>k<32. unat v = 2 ^ k)"
    using unat_u32_bound [of v] by (metis one_less_numeral_iff power_strict_increasing_iff semiring_norm(76))
  finally show ?thesis .
qed

lemma unat_min_usize: "unat (min_usize a b) = min (unat a) (unat b)"
  by (simp add: min_usize_def min_def word_less_nat_alt)

end
