(* ===== verification/Xsk_Cursor.thy ===== *)
theory Xsk_Cursor
  imports Xsk_Util
begin

text \<open>
  \<^verbatim>\<open>src/umem/frame/cursor.rs\<close>: the cursor that writes into a frame segment and moves the
  segment's length along. The cursor borrows the position and the buffer; here it holds
  their values, and the borrower stores them back (theory \<open>Xsk_Frame\<close>). Shown: the
  position never passes the end, a write stores exactly the prefix that fits, and the
  vectored and the complete write are equivalent to one write of all the bytes.
\<close>

section \<open>Operations\<close>

record Cursor =
  cur_pos :: usize
  cur_buf :: "u8 list"

definition Cursor_new :: "usize \<Rightarrow> u8 list \<Rightarrow> Cursor" where
  "Cursor_new p b = \<lparr>cur_pos = p, cur_buf = b\<rparr>"

definition Cursor_pos :: "Cursor \<Rightarrow> usize" where
  "Cursor_pos c = cur_pos c"

definition Cursor_set_pos :: "Cursor \<Rightarrow> usize \<Rightarrow> Cursor" where
  "Cursor_set_pos c p = c\<lparr>cur_pos := min_usize p (slice_len (cur_buf c))\<rparr>"

definition Cursor_buf_len :: "Cursor \<Rightarrow> usize" where
  "Cursor_buf_len c = slice_len (cur_buf c)"

definition Cursor_zero_out :: "Cursor \<Rightarrow> Cursor" where
  "Cursor_zero_out c = Cursor_set_pos (c\<lparr>cur_buf := replicate (length (cur_buf c)) 0\<rparr>) 0"

text \<open>
  The standard library's \<^verbatim>\<open>Write for &mut [u8]\<close>: copy as much as fits and return the
  number of bytes copied. The result here is that number and the bytes of the slice.
\<close>

definition slice_write :: "u8 list \<Rightarrow> u8 list \<Rightarrow> usize \<times> u8 list" where
  "slice_write dst data = (let amt = min (length data) (length dst)
     in (of_nat amt, take amt data @ drop amt dst))"

definition Cursor_write :: "bool \<Rightarrow> Cursor \<Rightarrow> u8 list \<Rightarrow> ((io_error + usize) \<times> Cursor) rust" where
  "Cursor_write oc c data =
    (let p = min_usize (cur_pos c) (slice_len (cur_buf c));
         (amt, rest) = slice_write (drop (unat p) (cur_buf c)) data
     in rbind (add_oc oc (cur_pos c) amt) (\<lambda>pos'.
       Ret (Inr amt, c\<lparr>cur_pos := pos', cur_buf := take (unat p) (cur_buf c) @ rest\<rparr>)))"

fun Cursor_write_vectored_loop
  :: "bool \<Rightarrow> Cursor \<Rightarrow> usize \<Rightarrow> u8 list list \<Rightarrow> ((io_error + usize) \<times> Cursor) rust" where
  "Cursor_write_vectored_loop oc c nwritten [] = Ret (Inr nwritten, c)"
| "Cursor_write_vectored_loop oc c nwritten (b # bs) =
     rbind (Cursor_write oc c b) (\<lambda>(res, c'). case res of
       Inl e \<Rightarrow> Ret (Inl e, c')
     | Inr n \<Rightarrow> rbind (add_oc oc nwritten n) (\<lambda>nwritten'.
         if n < slice_len b then Ret (Inr nwritten', c')
         else Cursor_write_vectored_loop oc c' nwritten' bs))"

definition Cursor_write_vectored
  :: "bool \<Rightarrow> Cursor \<Rightarrow> u8 list list \<Rightarrow> ((io_error + usize) \<times> Cursor) rust" where
  "Cursor_write_vectored oc c bufs = Cursor_write_vectored_loop oc c 0 bufs"

definition Cursor_flush :: "Cursor \<Rightarrow> (io_error + unit) \<times> Cursor" where
  "Cursor_flush c = (Inr (), c)"

text \<open>
  The standard library's provided method \<^verbatim>\<open>Write::write_all\<close>, through which the crate's
  users write packets: write until nothing is left, fail when a write makes no progress.
\<close>

function Cursor_write_all :: "bool \<Rightarrow> Cursor \<Rightarrow> u8 list \<Rightarrow> ((io_error + unit) \<times> Cursor) rust" where
  "Cursor_write_all oc c data =
    (if data = [] then Ret (Inr (), c)
     else rbind (Cursor_write oc c data) (\<lambda>rc.
       case fst rc of
         Inl e \<Rightarrow> Ret (Inl e, snd rc)
       | Inr n \<Rightarrow> if n = 0 then Ret (Inl WriteZero, snd rc)
           else Cursor_write_all oc (snd rc) (drop (unat n) data)))"
  by pat_completeness auto
termination
  by (relation "measure (\<lambda>(oc, c, data). length data)") (auto simp: unat_gt_0)

declare Cursor_write_all.simps [simp del]

section \<open>The invariant of a cursor\<close>

text \<open>
  A slice has at most \<open>isize::MAX\<close> bytes, and the position is at most the length of the
  buffer. \<open>set_pos\<close> establishes the second whatever the position was; every other
  operation keeps it.
\<close>

definition wf_slice :: "'a list \<Rightarrow> bool" where
  "wf_slice xs \<longleftrightarrow> length xs < 2 ^ 63"

definition wf_Cursor :: "Cursor \<Rightarrow> bool" where
  "wf_Cursor c \<longleftrightarrow> wf_slice (cur_buf c) \<and> unat (cur_pos c) \<le> length (cur_buf c)"

text \<open>The free space behind the position.\<close>

definition Cursor_space :: "Cursor \<Rightarrow> nat" where
  "Cursor_space c = length (cur_buf c) - unat (cur_pos c)"

lemma unat_slice_len_wf [simp]: "wf_slice xs \<Longrightarrow> unat (slice_len xs) = length xs"
  by (simp add: wf_slice_def unat_slice_len)

lemma wf_slice_overwrite: "wf_slice xs \<Longrightarrow> off + length ys \<le> length xs \<Longrightarrow> wf_slice (overwrite xs off ys)"
  by (simp add: wf_slice_def)

text \<open>The value of a write: the prefix that fits goes to the position.\<close>

definition Cursor_after :: "Cursor \<Rightarrow> u8 list \<Rightarrow> Cursor" where
  "Cursor_after c data = c\<lparr>cur_pos := cur_pos c + of_nat (length data),
     cur_buf := overwrite (cur_buf c) (unat (cur_pos c)) data\<rparr>"

lemma Cursor_after_pos:
  assumes "wf_Cursor c" and "length data \<le> Cursor_space c"
  shows "unat (cur_pos (Cursor_after c data)) = unat (cur_pos c) + length data"
proof -
  from assms have "unat (cur_pos c) + length data < 2 ^ 63"
    by (auto simp: wf_Cursor_def wf_slice_def Cursor_space_def)
  then show ?thesis
    by (simp add: Cursor_after_def unat_word_ariths unat_of_nat_u64)
qed

lemma Cursor_after_wf:
  assumes "wf_Cursor c" and "length data \<le> Cursor_space c"
  shows "wf_Cursor (Cursor_after c data)"
    and "Cursor_space (Cursor_after c data) = Cursor_space c - length data"
proof -
  from assms have le: "unat (cur_pos c) + length data \<le> length (cur_buf c)"
    by (auto simp: wf_Cursor_def Cursor_space_def)
  then have len: "length (cur_buf (Cursor_after c data)) = length (cur_buf c)"
    by (simp add: Cursor_after_def)
  show "wf_Cursor (Cursor_after c data)"
    using assms le len Cursor_after_pos [OF assms] by (simp add: wf_Cursor_def wf_slice_def)
  show "Cursor_space (Cursor_after c data) = Cursor_space c - length data"
    using len Cursor_after_pos [OF assms] by (simp add: Cursor_space_def)
qed

lemma Cursor_after_append:
  assumes "wf_Cursor c" and "length xs + length ys \<le> Cursor_space c"
  shows "Cursor_after (Cursor_after c xs) ys = Cursor_after c (xs @ ys)"
proof -
  from assms have le: "unat (cur_pos c) + length xs + length ys \<le> length (cur_buf c)"
    by (auto simp: wf_Cursor_def Cursor_space_def)
  have p: "unat (cur_pos (Cursor_after c xs)) = unat (cur_pos c) + length xs"
    using assms by (intro Cursor_after_pos) simp_all
  have p': "unat (cur_pos c + of_nat (length xs)) = unat (cur_pos c) + length xs"
    using p by (simp add: Cursor_after_def)
  show ?thesis
    using le by (simp add: Cursor_after_def p' overwrite_append)
qed

lemma Cursor_after_Nil [simp]: "Cursor_after c [] = c"
  by (simp add: Cursor_after_def)

text \<open>
  With the position inside the buffer, a write is the store of the prefix that fits.
\<close>

lemma Cursor_write_spec:
  assumes "wf_Cursor c" and "wf_slice data"
  shows "Cursor_write oc c data
    = Ret (Inr (of_nat (min (length data) (Cursor_space c))),
           Cursor_after c (take (Cursor_space c) data))"
proof -
  let ?amt = "min (length data) (Cursor_space c)"
  from assms have le: "unat (cur_pos c) \<le> length (cur_buf c)" and len: "wf_slice (cur_buf c)"
    by (simp_all add: wf_Cursor_def)
  have p: "unat (min_usize (cur_pos c) (slice_len (cur_buf c))) = unat (cur_pos c)"
    using le len by (simp add: unat_min_usize)
  have in_range: "unat (cur_pos c) + unat (of_nat ?amt :: usize) < 2 ^ 64"
    using le len assms(2) by (simp add: wf_slice_def Cursor_space_def unat_of_nat_u64 min_def)
  have buf: "take (unat (cur_pos c)) (cur_buf c) @ take ?amt data
      @ drop ?amt (drop (unat (cur_pos c)) (cur_buf c))
    = overwrite (cur_buf c) (unat (cur_pos c)) (take (Cursor_space c) data)"
    by (cases "length data \<le> Cursor_space c") (simp_all add: overwrite_def min_def ac_simps)
  show ?thesis
    using in_range buf
    by (simp add: Cursor_write_def slice_write_def Let_def p rust_arith Cursor_after_def
        min.commute [of "length data"] flip: Cursor_space_def)
qed

text \<open>Behind the end of the buffer nothing is written and the position stays.\<close>

lemma Cursor_write_past_end:
  assumes "wf_slice (cur_buf c)" and "length (cur_buf c) < unat (cur_pos c)"
  shows "Cursor_write oc c data = Ret (Inr 0, c)"
proof -
  have "unat (min_usize (cur_pos c) (slice_len (cur_buf c))) = length (cur_buf c)"
    using assms by (simp add: unat_min_usize)
  then show ?thesis
    using unat_u64_bound [of "cur_pos c"]
    by (simp add: Cursor_write_def slice_write_def Let_def rust_arith)
qed

text \<open>
  C38: with the position inside the buffer, a write never fails or panics, in either build
  profile: it returns the number of bytes that fit, stores exactly those at the position,
  moves the position behind them, leaves every other byte and the size of the buffer alone,
  and keeps the position inside.
\<close>

theorem Cursor_write_stores:
  assumes "wf_Cursor c" and "wf_slice data"
  shows "\<exists>n c'. Cursor_write oc c data = Ret (Inr n, c') \<and> wf_Cursor c'
    \<and> unat n = min (length data) (length (cur_buf c) - unat (cur_pos c))
    \<and> unat (cur_pos c') = unat (cur_pos c) + unat n
    \<and> length (cur_buf c') = length (cur_buf c)
    \<and> take (unat (cur_pos c)) (cur_buf c') = take (unat (cur_pos c)) (cur_buf c)
    \<and> seg (cur_buf c') (unat (cur_pos c)) (unat n) = take (unat n) data
    \<and> drop (unat (cur_pos c')) (cur_buf c') = drop (unat (cur_pos c')) (cur_buf c)"
proof -
  let ?d = "take (Cursor_space c) data"
  have fits: "length ?d \<le> Cursor_space c" by simp
  have le: "unat (cur_pos c) + length ?d \<le> length (cur_buf c)"
    using assms(1) by (auto simp: wf_Cursor_def Cursor_space_def)
  have n: "unat (of_nat (min (length data) (Cursor_space c)) :: usize) = length ?d"
    using assms(2) by (subst unat_of_nat_u64) (auto simp: wf_slice_def min_def)
  have len: "length ?d = min (length data) (length (cur_buf c) - unat (cur_pos c))"
    by (simp add: Cursor_space_def)
  have buf: "cur_buf (Cursor_after c ?d) = overwrite (cur_buf c) (unat (cur_pos c)) ?d"
    by (simp add: Cursor_after_def)
  have pos: "unat (cur_pos (Cursor_after c ?d)) = unat (cur_pos c) + length ?d"
    by (rule Cursor_after_pos [OF assms(1) fits])
  have parts: "length (cur_buf (Cursor_after c ?d)) = length (cur_buf c)"
    "take (unat (cur_pos c)) (cur_buf (Cursor_after c ?d)) = take (unat (cur_pos c)) (cur_buf c)"
    "seg (cur_buf (Cursor_after c ?d)) (unat (cur_pos c)) (length ?d) = ?d"
    "drop (unat (cur_pos c) + length ?d) (cur_buf (Cursor_after c ?d))
      = drop (unat (cur_pos c) + length ?d) (cur_buf c)"
    unfolding buf using length_overwrite [OF le] take_overwrite [OF le] drop_overwrite [OF le]
      seg_overwrite_same [OF le refl] by simp_all
  have d: "?d = take (length ?d) data" by (simp add: min_def)
  show ?thesis
  proof (intro exI conjI)
    show "Cursor_write oc c data
        = Ret (Inr (of_nat (min (length data) (Cursor_space c))), Cursor_after c ?d)"
      by (rule Cursor_write_spec [OF assms])
    show "wf_Cursor (Cursor_after c ?d)" by (rule Cursor_after_wf(1) [OF assms(1) fits])
  qed (simp_all only: n pos parts len [symmetric] d [symmetric])
qed

theorem Cursor_write_stores_witness:
  "\<exists>n c'. Cursor_write True \<lparr>cur_pos = 2, cur_buf = [1, 2, 3, 4]\<rparr> [7, 8, 9] = Ret (Inr n, c')
    \<and> unat n = 2 \<and> take 2 (cur_buf c') = [1, 2] \<and> seg (cur_buf c') 2 2 = [7, 8]"
proof -
  let ?c = "\<lparr>cur_pos = 2, cur_buf = [1, 2, 3, 4]\<rparr>"
  have wf: "wf_Cursor ?c" "wf_slice [7, 8, 9 :: u8]"
    by (simp_all add: wf_Cursor_def wf_slice_def)
  from Cursor_write_stores [OF wf, of True] obtain n c' where
    w: "Cursor_write True ?c [7, 8, 9] = Ret (Inr n, c')"
    and n: "unat n = min (length [7, 8, 9 :: u8]) (length (cur_buf ?c) - unat (cur_pos ?c))"
    and t: "take (unat (cur_pos ?c)) (cur_buf c') = take (unat (cur_pos ?c)) (cur_buf ?c)"
    and m: "seg (cur_buf c') (unat (cur_pos ?c)) (unat n) = take (unat n) [7, 8, 9]"
    by blast
  from n have "unat n = 2" by simp
  with w t m show ?thesis by (intro exI [of _ n] exI [of _ c']) simp
qed

text \<open>
  Setting the position clamps it to the length of the buffer, so it establishes the
  invariant from any state; zeroing clears every byte and rewinds.
\<close>

theorem Cursor_set_pos_clamps:
  assumes "wf_slice (cur_buf c)"
  shows "wf_Cursor (Cursor_set_pos c p)
    \<and> unat (cur_pos (Cursor_set_pos c p)) = min (unat p) (length (cur_buf c))
    \<and> wf_Cursor (Cursor_zero_out c) \<and> cur_pos (Cursor_zero_out c) = 0
    \<and> cur_buf (Cursor_zero_out c) = replicate (length (cur_buf c)) 0"
proof -
  have "min_usize 0 x = 0" for x
    by (simp add: min_usize_def word_gt_0)
  then show ?thesis
    using assms
    by (simp add: wf_Cursor_def Cursor_set_pos_def Cursor_zero_out_def unat_min_usize)
      (simp add: wf_slice_def)
qed

theorem Cursor_set_pos_clamps_witness:
  "wf_Cursor (Cursor_set_pos \<lparr>cur_pos = 9, cur_buf = [1, 2]\<rparr> 5)
    \<and> unat (cur_pos (Cursor_set_pos \<lparr>cur_pos = 9, cur_buf = [1, 2]\<rparr> 5)) = 2"
  using Cursor_set_pos_clamps [of "\<lparr>cur_pos = 9, cur_buf = [1, 2]\<rparr>" 5]
  by (simp add: wf_slice_def)

section \<open>Vectored and complete writes\<close>

lemma wf_slice_append: "wf_slice (xs @ ys) \<Longrightarrow> wf_slice xs \<and> wf_slice ys"
  by (simp add: wf_slice_def)

lemma of_nat_less_u64: "a < 2 ^ 64 \<Longrightarrow> b < 2 ^ 64 \<Longrightarrow> (of_nat a :: u64) < of_nat b \<longleftrightarrow> a < b"
  by (simp add: word_less_nat_alt unat_of_nat_u64)

text \<open>One buffer of the vectored loop: a buffer that does not fit ends it, one that fits is
  passed over.\<close>

lemma Cursor_write_vectored_loop_step:
  assumes "wf_Cursor c" and "wf_slice b" and "unat n + min (length b) (Cursor_space c) < 2 ^ 64"
  shows "Cursor_write_vectored_loop oc c n (b # bs) =
    (if Cursor_space c < length b
     then Ret (Inr (n + of_nat (Cursor_space c)), Cursor_after c (take (Cursor_space c) b))
     else Cursor_write_vectored_loop oc (Cursor_after c b) (n + of_nat (length b)) bs)"
proof -
  have len: "length b < 2 ^ 64" and sp: "min (length b) (Cursor_space c) < 2 ^ 64"
    using assms(2,3) by (simp_all add: wf_slice_def)
  have lt: "(of_nat (min (length b) (Cursor_space c)) :: u64) < slice_len b
      \<longleftrightarrow> Cursor_space c < length b"
    using of_nat_less_u64 [OF sp len] by (auto simp: slice_len_def)
  have add: "add_oc oc n (of_nat (min (length b) (Cursor_space c)))
      = Ret (n + of_nat (min (length b) (Cursor_space c)))"
    using assms(3) sp by (intro rust_arith) (simp add: unat_of_nat_u64)
  show ?thesis
    by (simp add: Cursor_write_spec [OF assms(1,2)] add lt del: of_nat_min)
qed

declare Cursor_write_vectored_loop.simps(2) [simp del]

lemma Cursor_write_vectored_loop_spec:
  assumes "wf_Cursor c" and "wf_slice (concat bs)"
    and "unat n + min (length (concat bs)) (Cursor_space c) < 2 ^ 64"
  shows "Cursor_write_vectored_loop oc c n bs
    = Ret (Inr (n + of_nat (min (length (concat bs)) (Cursor_space c))),
           Cursor_after c (take (Cursor_space c) (concat bs)))"
  using assms
proof (induction bs arbitrary: c n)
  case Nil
  then show ?case by simp
next
  case (Cons b bs)
  from Cons.prems(2) have b: "wf_slice b" and rest: "wf_slice (concat bs)"
    by (simp_all add: wf_slice_def)
  have step: "unat n + min (length b) (Cursor_space c) < 2 ^ 64"
    using Cons.prems(3) by (auto simp: min_def split: if_splits)
  show ?case
  proof (cases "Cursor_space c < length b")
    case True
    then show ?thesis
      by (simp add: Cursor_write_vectored_loop_step [OF Cons.prems(1) b step] min_def)
  next
    case False
    then have le: "length b \<le> Cursor_space c" by simp
    note after = Cursor_after_wf [OF Cons.prems(1) le]
    have n': "unat (n + of_nat (length b)) = unat n + length b"
      using step le b by (simp add: unat_word_ariths unat_of_nat_u64 wf_slice_def min_def)
    have bound: "unat (n + of_nat (length b))
        + min (length (concat bs)) (Cursor_space (Cursor_after c b)) < 2 ^ 64"
      using Cons.prems(3) le by (auto simp: n' after min_def split: if_splits)
    show ?thesis
      using False le Cons.prems(1) Cons.IH [OF after(1) rest bound]
      by (simp add: Cursor_write_vectored_loop_step [OF Cons.prems(1) b step] after
          Cursor_after_append) (auto simp: min_def)
  qed
qed

text \<open>
  A vectored write is the write of the concatenated buffers: same count, same bytes,
  same position, stopping in the first buffer that does not fit.
\<close>

theorem Cursor_write_vectored_concat:
  assumes "wf_Cursor c" and "wf_slice (concat bufs)"
  shows "Cursor_write_vectored oc c bufs = Cursor_write oc c (concat bufs)"
proof -
  have "unat (0 :: usize) + min (length (concat bufs)) (Cursor_space c) < 2 ^ 64"
    using assms(2) by (simp add: wf_slice_def)
  then show ?thesis
    using Cursor_write_vectored_loop_spec [OF assms, of 0 oc]
    by (simp add: Cursor_write_vectored_def Cursor_write_spec [OF assms])
qed

theorem Cursor_write_vectored_concat_witness:
  "Cursor_write_vectored True \<lparr>cur_pos = 1, cur_buf = [0, 0, 0, 0]\<rparr> [[1], [2, 3], [4]]
    = Cursor_write True \<lparr>cur_pos = 1, cur_buf = [0, 0, 0, 0]\<rparr> [1, 2, 3, 4]"
  by (subst Cursor_write_vectored_concat) (simp_all add: wf_Cursor_def wf_slice_def)

lemma Cursor_write_all_fits:
  assumes "wf_Cursor c" and "wf_slice data" and "length data \<le> Cursor_space c"
  shows "Cursor_write_all oc c data = Ret (Inr (), Cursor_after c data)"
proof (cases "data = []")
  case True
  then show ?thesis by (simp add: Cursor_write_all.simps)
next
  case False
  have n: "unat (of_nat (length data) :: usize) = length data"
    using assms(2) by (simp add: wf_slice_def unat_of_nat_u64)
  with False have "(of_nat (length data) :: usize) \<noteq> 0"
    by (metis length_0_conv unat_0)
  then show ?thesis
    using False assms(3)
    by (simp add: Cursor_write_all.simps [of oc c data] Cursor_write_spec [OF assms(1,2)] n
        Cursor_write_all.simps [of oc _ "[]"])
qed

lemma Cursor_write_all_eq:
  assumes "wf_Cursor c" and "wf_slice data"
  shows "Cursor_write_all oc c data =
    (if length data \<le> Cursor_space c then Ret (Inr (), Cursor_after c data)
     else Ret (Inl WriteZero, Cursor_after c (take (Cursor_space c) data)))"
proof (cases "length data \<le> Cursor_space c")
  case True
  with Cursor_write_all_fits [OF assms True] show ?thesis by simp
next
  case False
  let ?c = "Cursor_after c (take (Cursor_space c) data)" and ?sp = "Cursor_space c"
  from False have pre: "length (take ?sp data) \<le> Cursor_space c" by simp
  note after = Cursor_after_wf [OF assms(1) pre]
  have sp: "Cursor_space ?c = 0" using False after(2) by simp
  have wf: "wf_slice (drop ?sp data)" using assms(2) by (simp add: wf_slice_def)
  have stuck: "Cursor_write_all oc ?c ds = Ret (Inl WriteZero, ?c)"
    if "ds \<noteq> []" and "wf_slice ds" for ds
    using that by (simp add: Cursor_write_all.simps [of oc ?c ds] Cursor_write_spec [OF after(1)] sp)
  have n: "unat (of_nat ?sp :: usize) = ?sp"
    using assms(2) False by (simp add: wf_slice_def unat_of_nat_u64)
  show ?thesis
  proof (cases "?sp = 0")
    case True
    with False stuck [of data] assms(2) show ?thesis by auto
  next
    case nz: False
    with n have "(of_nat ?sp :: usize) \<noteq> 0" by (metis unat_0)
    then show ?thesis
      using False nz stuck [of "drop ?sp data"] wf
      by (subst Cursor_write_all.simps) (auto simp: Cursor_write_spec [OF assms] min_def n)
  qed
qed

text \<open>
  C39: a complete write succeeds exactly when all the bytes fit, and then they are stored
  contiguously; otherwise it reports \<^verbatim>\<open>WriteZero\<close> after filling the buffer to its end. It
  always returns.
\<close>

theorem Cursor_write_all_spec:
  assumes "wf_Cursor c" and "wf_slice data"
  shows "Cursor_write_all oc c data =
    (if length data \<le> Cursor_space c then Ret (Inr (), Cursor_after c data)
     else Ret (Inl WriteZero, Cursor_after c (take (Cursor_space c) data)))"
  using assms by (rule Cursor_write_all_eq)

theorem Cursor_write_all_spec_witness:
  "Cursor_write_all True \<lparr>cur_pos = 1, cur_buf = [0, 0, 0]\<rparr> [5, 6]
      = Ret (Inr (), \<lparr>cur_pos = 3, cur_buf = [0, 5, 6]\<rparr>)
    \<and> Cursor_write_all True \<lparr>cur_pos = 1, cur_buf = [0, 0, 0]\<rparr> [5, 6, 7]
      = Ret (Inl WriteZero, \<lparr>cur_pos = 3, cur_buf = [0, 5, 6]\<rparr>)"
proof
  show "Cursor_write_all True \<lparr>cur_pos = 1, cur_buf = [0, 0, 0]\<rparr> [5, 6]
      = Ret (Inr (), \<lparr>cur_pos = 3, cur_buf = [0, 5, 6]\<rparr>)"
    by (subst Cursor_write_all_spec)
      (simp_all add: wf_Cursor_def wf_slice_def Cursor_space_def Cursor_after_def overwrite_def)
  show "Cursor_write_all True \<lparr>cur_pos = 1, cur_buf = [0, 0, 0]\<rparr> [5, 6, 7]
      = Ret (Inl WriteZero, \<lparr>cur_pos = 3, cur_buf = [0, 5, 6]\<rparr>)"
    by (subst Cursor_write_all_spec)
      (simp_all add: wf_Cursor_def wf_slice_def Cursor_space_def Cursor_after_def overwrite_def)
qed

end
