(* ===== verification/Xsk_Frame.thy ===== *)
theory Xsk_Frame
  imports Xsk_Cursor
begin

text \<open>
  \<^verbatim>\<open>src/umem/frame/mod.rs\<close>: frame descriptors and the views of a frame's two segments.
  A view that borrows mutably is modelled by its value together with a function that stores
  the value back when the borrow ends (\<open>..._back\<close>). Shown: what the views return and when
  they panic, and that writing through a segment's cursor extends its contents.
\<close>

section \<open>Descriptors\<close>

record SegmentLengths =
  sl_headroom :: usize
  sl_data :: usize

definition SegmentLengths_default :: SegmentLengths where
  "SegmentLengths_default = \<lparr>sl_headroom = 0, sl_data = 0\<rparr>"

definition SegmentLengths_headroom :: "SegmentLengths \<Rightarrow> usize" where
  "SegmentLengths_headroom l = sl_headroom l"

definition SegmentLengths_data :: "SegmentLengths \<Rightarrow> usize" where
  "SegmentLengths_data l = sl_data l"

record FrameDesc =
  fd_addr :: usize
  fd_options :: u32
  fd_lengths :: SegmentLengths

definition FrameDesc_new :: "usize \<Rightarrow> FrameDesc" where
  "FrameDesc_new a = \<lparr>fd_addr = a, fd_options = 0, fd_lengths = SegmentLengths_default\<rparr>"

definition FrameDesc_addr :: "FrameDesc \<Rightarrow> usize" where
  "FrameDesc_addr d = fd_addr d"

definition FrameDesc_lengths :: "FrameDesc \<Rightarrow> SegmentLengths" where
  "FrameDesc_lengths d = fd_lengths d"

definition FrameDesc_options :: "FrameDesc \<Rightarrow> u32" where
  "FrameDesc_options d = fd_options d"

definition FrameDesc_set_options :: "FrameDesc \<Rightarrow> u32 \<Rightarrow> FrameDesc" where
  "FrameDesc_set_options d opts = d\<lparr>fd_options := opts\<rparr>"

definition FrameDesc_write_xdp_desc :: "FrameDesc \<Rightarrow> xdp_desc \<Rightarrow> xdp_desc" where
  "FrameDesc_write_xdp_desc d xd = xd\<lparr>xd_addr := fd_addr d, xd_options := fd_options d,
     xd_len := ucast (sl_data (fd_lengths d))\<rparr>"

definition FrameDesc_default :: FrameDesc where
  "FrameDesc_default = \<lparr>fd_addr = 0, fd_options = 0, fd_lengths = SegmentLengths_default\<rparr>"

section \<open>Read-only views\<close>

datatype Headroom = Headroom "u8 list"
datatype Data = Data "u8 list"

definition Headroom_new :: "u8 list \<Rightarrow> Headroom" where
  "Headroom_new bs = Headroom bs"

primrec Headroom_contents :: "Headroom \<Rightarrow> u8 list" where
  "Headroom_contents (Headroom bs) = bs"

primrec Headroom_as_ref :: "Headroom \<Rightarrow> u8 list" where
  "Headroom_as_ref (Headroom bs) = bs"

primrec Headroom_borrow :: "Headroom \<Rightarrow> u8 list" where
  "Headroom_borrow (Headroom bs) = bs"

primrec Headroom_deref :: "Headroom \<Rightarrow> u8 list" where
  "Headroom_deref (Headroom bs) = bs"

definition Data_new :: "u8 list \<Rightarrow> Data" where
  "Data_new bs = Data bs"

primrec Data_contents :: "Data \<Rightarrow> u8 list" where
  "Data_contents (Data bs) = bs"

primrec Data_as_ref :: "Data \<Rightarrow> u8 list" where
  "Data_as_ref (Data bs) = bs"

primrec Data_borrow :: "Data \<Rightarrow> u8 list" where
  "Data_borrow (Data bs) = bs"

primrec Data_deref :: "Data \<Rightarrow> u8 list" where
  "Data_deref (Data bs) = bs"

section \<open>Mutable views\<close>

text \<open>The slice \<open>&buf[..n]\<close>, and what storing through \<open>&mut buf[..n]\<close> leaves in \<open>buf\<close>.\<close>

definition slice_to :: "u8 list \<Rightarrow> usize \<Rightarrow> u8 list rust" where
  "slice_to b n = (if unat n \<le> length b then Ret (take (unat n) b) else Panic)"

definition slice_to_back :: "u8 list \<Rightarrow> u8 list \<Rightarrow> u8 list" where
  "slice_to_back b s = s @ drop (length s) b"

record HeadroomMut =
  hm_len :: usize
  hm_buf :: "u8 list"

record DataMut =
  dm_len :: usize
  dm_buf :: "u8 list"

definition HeadroomMut_new :: "usize \<Rightarrow> u8 list \<Rightarrow> HeadroomMut" where
  "HeadroomMut_new n b = \<lparr>hm_len = n, hm_buf = b\<rparr>"

definition HeadroomMut_contents :: "HeadroomMut \<Rightarrow> u8 list rust" where
  "HeadroomMut_contents h = slice_to (hm_buf h) (hm_len h)"

definition HeadroomMut_contents_mut :: "HeadroomMut \<Rightarrow> u8 list rust" where
  "HeadroomMut_contents_mut h = slice_to (hm_buf h) (hm_len h)"

definition HeadroomMut_contents_mut_back :: "HeadroomMut \<Rightarrow> u8 list \<Rightarrow> HeadroomMut" where
  "HeadroomMut_contents_mut_back h s = h\<lparr>hm_buf := slice_to_back (hm_buf h) s\<rparr>"

definition HeadroomMut_cursor :: "HeadroomMut \<Rightarrow> Cursor" where
  "HeadroomMut_cursor h = Cursor_new (hm_len h) (hm_buf h)"

definition HeadroomMut_cursor_back :: "HeadroomMut \<Rightarrow> Cursor \<Rightarrow> HeadroomMut" where
  "HeadroomMut_cursor_back h c = h\<lparr>hm_len := cur_pos c, hm_buf := cur_buf c\<rparr>"

definition HeadroomMut_as_ref :: "HeadroomMut \<Rightarrow> u8 list rust" where
  "HeadroomMut_as_ref h = HeadroomMut_contents h"

definition HeadroomMut_as_mut :: "HeadroomMut \<Rightarrow> u8 list rust" where
  "HeadroomMut_as_mut h = HeadroomMut_contents_mut h"

definition HeadroomMut_borrow :: "HeadroomMut \<Rightarrow> u8 list rust" where
  "HeadroomMut_borrow h = HeadroomMut_contents h"

definition HeadroomMut_borrow_mut :: "HeadroomMut \<Rightarrow> u8 list rust" where
  "HeadroomMut_borrow_mut h = HeadroomMut_contents_mut h"

definition HeadroomMut_deref :: "HeadroomMut \<Rightarrow> u8 list rust" where
  "HeadroomMut_deref h = HeadroomMut_contents h"

definition HeadroomMut_deref_mut :: "HeadroomMut \<Rightarrow> u8 list rust" where
  "HeadroomMut_deref_mut h = HeadroomMut_contents_mut h"

definition DataMut_new :: "usize \<Rightarrow> u8 list \<Rightarrow> DataMut" where
  "DataMut_new n b = \<lparr>dm_len = n, dm_buf = b\<rparr>"

definition DataMut_contents :: "DataMut \<Rightarrow> u8 list rust" where
  "DataMut_contents d = slice_to (dm_buf d) (dm_len d)"

definition DataMut_contents_mut :: "DataMut \<Rightarrow> u8 list rust" where
  "DataMut_contents_mut d = slice_to (dm_buf d) (dm_len d)"

definition DataMut_contents_mut_back :: "DataMut \<Rightarrow> u8 list \<Rightarrow> DataMut" where
  "DataMut_contents_mut_back d s = d\<lparr>dm_buf := slice_to_back (dm_buf d) s\<rparr>"

definition DataMut_cursor :: "DataMut \<Rightarrow> Cursor" where
  "DataMut_cursor d = Cursor_new (dm_len d) (dm_buf d)"

definition DataMut_cursor_back :: "DataMut \<Rightarrow> Cursor \<Rightarrow> DataMut" where
  "DataMut_cursor_back d c = d\<lparr>dm_len := cur_pos c, dm_buf := cur_buf c\<rparr>"

definition DataMut_as_ref :: "DataMut \<Rightarrow> u8 list rust" where
  "DataMut_as_ref d = DataMut_contents d"

definition DataMut_as_mut :: "DataMut \<Rightarrow> u8 list rust" where
  "DataMut_as_mut d = DataMut_contents_mut d"

definition DataMut_borrow :: "DataMut \<Rightarrow> u8 list rust" where
  "DataMut_borrow d = DataMut_contents d"

definition DataMut_borrow_mut :: "DataMut \<Rightarrow> u8 list rust" where
  "DataMut_borrow_mut d = DataMut_contents_mut d"

definition DataMut_deref :: "DataMut \<Rightarrow> u8 list rust" where
  "DataMut_deref d = DataMut_contents d"

definition DataMut_deref_mut :: "DataMut \<Rightarrow> u8 list rust" where
  "DataMut_deref_mut d = DataMut_contents_mut d"

section \<open>Segments as an interface\<close>

text \<open>
  The headroom and the data segment have the same operations. The interface: a length, a
  buffer, and a cursor that carries both; its laws are what the two views' proofs need.
\<close>

locale segment =
  fixes len :: "'s \<Rightarrow> usize"
    and buf :: "'s \<Rightarrow> u8 list"
    and contents :: "'s \<Rightarrow> u8 list rust"
    and contents_mut_back :: "'s \<Rightarrow> u8 list \<Rightarrow> 's"
    and cursor :: "'s \<Rightarrow> Cursor"
    and cursor_back :: "'s \<Rightarrow> Cursor \<Rightarrow> 's"
  assumes contents: "contents s = slice_to (buf s) (len s)"
    and back_len: "len (contents_mut_back s t) = len s"
    and back_buf: "buf (contents_mut_back s t) = slice_to_back (buf s) t"
    and cursor_pos: "cur_pos (cursor s) = len s"
    and cursor_buf: "cur_buf (cursor s) = buf s"
    and cursor_back_len: "len (cursor_back s c) = cur_pos c"
    and cursor_back_buf: "buf (cursor_back s c) = cur_buf c"
begin

lemma contents_no_panic: "unat (len s) \<le> length (buf s) \<longleftrightarrow> contents s = Ret (take (unat (len s)) (buf s))"
  by (simp add: contents slice_to_def)

lemma cursor_wf: "wf_Cursor (cursor s) \<longleftrightarrow> wf_slice (buf s) \<and> unat (len s) \<le> length (buf s)"
  by (simp add: wf_Cursor_def cursor_pos cursor_buf)

text \<open>Appending through the cursor: the contents grow by the bytes written.\<close>

lemma cursor_after_contents:
  assumes wf: "wf_slice (buf s)" "unat (len s) \<le> length (buf s)"
    and fits: "unat (len s) + length data \<le> length (buf s)"
  shows "contents (cursor_back s (Cursor_after (cursor s) data))
      = Ret (take (unat (len s)) (buf s) @ data)
    \<and> length (buf (cursor_back s (Cursor_after (cursor s) data))) = length (buf s)"
proof -
  have c: "wf_Cursor (cursor s)" using wf by (simp add: cursor_wf)
  have sp: "length data \<le> Cursor_space (cursor s)"
    using fits by (simp add: Cursor_space_def cursor_pos cursor_buf)
  have b: "cur_buf (Cursor_after (cursor s) data) = overwrite (buf s) (unat (len s)) data"
    by (simp add: Cursor_after_def cursor_pos cursor_buf)
  show ?thesis
    using fits Cursor_after_pos [OF c sp] b
    by (simp add: contents slice_to_def cursor_back_len cursor_back_buf cursor_pos overwrite_def)
qed

lemma write_all_contents:
  assumes "wf_slice (buf s)" "wf_slice data" "unat (len s) + length data \<le> length (buf s)"
  shows "\<exists>c. Cursor_write_all oc (cursor s) data = Ret (Inr (), c)
    \<and> contents (cursor_back s c) = Ret (take (unat (len s)) (buf s) @ data)
    \<and> length (buf (cursor_back s c)) = length (buf s)"
proof -
  have c: "wf_Cursor (cursor s)" using assms by (simp add: cursor_wf)
  have "length data \<le> Cursor_space (cursor s)"
    using assms(3) by (simp add: Cursor_space_def cursor_pos cursor_buf)
  then show ?thesis
    using Cursor_write_all_fits [OF c assms(2)] cursor_after_contents [OF assms(1) _ assms(3)] assms(3)
    by auto
qed

lemma contents_mut_roundtrip:
  assumes "unat (len s) \<le> length (buf s)" and "length t = unat (len s)"
  shows "contents (contents_mut_back s t) = Ret t
    \<and> drop (unat (len s)) (buf (contents_mut_back s t)) = drop (unat (len s)) (buf s)"
  using assms by (simp add: contents slice_to_def back_len back_buf slice_to_back_def)

end

lemmas segment_defs =
  HeadroomMut_contents_def HeadroomMut_contents_mut_back_def HeadroomMut_cursor_def
  HeadroomMut_cursor_back_def DataMut_contents_def DataMut_contents_mut_back_def
  DataMut_cursor_def DataMut_cursor_back_def Cursor_new_def

interpretation hseg: segment hm_len hm_buf HeadroomMut_contents HeadroomMut_contents_mut_back
  HeadroomMut_cursor HeadroomMut_cursor_back
  by unfold_locales (simp_all add: segment_defs)

interpretation dseg: segment dm_len dm_buf DataMut_contents DataMut_contents_mut_back
  DataMut_cursor DataMut_cursor_back
  by unfold_locales (simp_all add: segment_defs)

text \<open>
  Writing a packet through the cursor of a data segment: when the bytes fit behind the
  current length, the write succeeds, the segment's contents are the old contents followed
  by the packet, and the buffer keeps its size.
\<close>

theorem DataMut_write_all_contents:
  assumes "wf_slice (dm_buf d)" and "wf_slice data"
    and "unat (dm_len d) + length data \<le> length (dm_buf d)"
  shows "\<exists>c. Cursor_write_all oc (DataMut_cursor d) data = Ret (Inr (), c)
    \<and> DataMut_contents (DataMut_cursor_back d c) = Ret (take (unat (dm_len d)) (dm_buf d) @ data)
    \<and> length (dm_buf (DataMut_cursor_back d c)) = length (dm_buf d)"
  using assms by (rule dseg.write_all_contents)

theorem DataMut_write_all_contents_witness:
  "\<exists>c. Cursor_write_all True (DataMut_cursor \<lparr>dm_len = 1, dm_buf = [9, 0, 0, 0]\<rparr>) [5, 6] = Ret (Inr (), c)
    \<and> DataMut_contents (DataMut_cursor_back \<lparr>dm_len = 1, dm_buf = [9, 0, 0, 0]\<rparr> c) = Ret [9, 5, 6]"
  using DataMut_write_all_contents [of "\<lparr>dm_len = 1, dm_buf = [9, 0, 0, 0]\<rparr>" "[5, 6]" True]
  by (auto simp: wf_slice_def)

text \<open>
  Modifying a headroom segment in place: what is stored is what is read back, and the
  bytes behind the segment's length do not change.
\<close>

theorem HeadroomMut_contents_mut_roundtrip:
  assumes "unat (hm_len h) \<le> length (hm_buf h)" and "length t = unat (hm_len h)"
  shows "HeadroomMut_contents (HeadroomMut_contents_mut_back h t) = Ret t
    \<and> drop (unat (hm_len h)) (hm_buf (HeadroomMut_contents_mut_back h t))
      = drop (unat (hm_len h)) (hm_buf h)"
  using assms by (rule hseg.contents_mut_roundtrip)

theorem HeadroomMut_contents_mut_roundtrip_witness:
  "HeadroomMut_contents (HeadroomMut_contents_mut_back \<lparr>hm_len = 2, hm_buf = [1, 2, 3]\<rparr> [8, 9]) = Ret [8, 9]"
  using HeadroomMut_contents_mut_roundtrip [of "\<lparr>hm_len = 2, hm_buf = [1, 2, 3]\<rparr>" "[8, 9]"]
  by simp

end
