(* ===== verification/Xsk_Ring.thy ===== *)
theory Xsk_Ring
  imports Xsk_Foreign
begin

text \<open>
  \<^verbatim>\<open>src/ring.rs\<close>: the two wrappers around libxdp's ring structures. A default ring is all
  zeroes, which is how the crate recognises a ring that libxdp did not set up.

  Beside the wrappers stands the contract the queues rely on, one locale per direction:
  what the ring functions of libxdp promise, as an abstraction of a ring to the lists of
  entries that sit in it. The queues' theories prove their operations correct inside these
  locales, so their results hold for every libxdp that keeps the contract.
\<close>

section \<open>The wrappers\<close>

datatype XskRingCons = XskRingCons xsk_ring_cons
datatype XskRingProd = XskRingProd xsk_ring_prod

primrec XskRingCons_as_mut :: "XskRingCons \<Rightarrow> xsk_ring_cons" where
  "XskRingCons_as_mut (XskRingCons r) = r"

primrec XskRingProd_as_mut :: "XskRingProd \<Rightarrow> xsk_ring_prod" where
  "XskRingProd_as_mut (XskRingProd r) = r"

primrec XskRingCons_as_ref :: "XskRingCons \<Rightarrow> xsk_ring_cons" where
  "XskRingCons_as_ref (XskRingCons r) = r"

primrec XskRingProd_as_ref :: "XskRingProd \<Rightarrow> xsk_ring_prod" where
  "XskRingProd_as_ref (XskRingProd r) = r"

primrec XskRingCons_is_ring_null :: "XskRingCons \<Rightarrow> bool" where
  "XskRingCons_is_ring_null (XskRingCons r) = is_null (rc_ring r)"

primrec XskRingProd_is_ring_null :: "XskRingProd \<Rightarrow> bool" where
  "XskRingProd_is_ring_null (XskRingProd r) = is_null (rp_ring r)"

text \<open>Rust's \<^verbatim>\<open>Default\<close> is the type class \<open>default\<close> of HOL.\<close>

definition XskRingCons_default :: XskRingCons where
  "XskRingCons_default = XskRingCons \<lparr>rc_cached_prod = 0, rc_cached_cons = 0, rc_mask = 0,
     rc_size = 0, rc_producer = null, rc_consumer = null, rc_ring = null, rc_flags = null\<rparr>"

instantiation XskRingCons :: default
begin

definition default_XskRingCons_eq: "default = XskRingCons_default"

instance ..

end

definition XskRingProd_default :: XskRingProd where
  "XskRingProd_default = XskRingProd \<lparr>rp_cached_prod = 0, rp_cached_cons = 0, rp_mask = 0,
     rp_size = 0, rp_producer = null, rp_consumer = null, rp_ring = null, rp_flags = null\<rparr>"

instantiation XskRingProd :: default
begin

definition default_XskRingProd_eq: "default = XskRingProd_default"

instance ..

end

lemma default_rings_null [simp]:
  "XskRingCons_is_ring_null default" "XskRingProd_is_ring_null default"
  by (simp_all add: default_XskRingCons_eq default_XskRingProd_eq XskRingCons_default_def XskRingProd_default_def)

section \<open>Runs of slots\<close>

text \<open>
  Writing and reading consecutive slots, the index stepping modulo \<open>2 ^ 32\<close>: what the loops
  of the queues' \<open>produce\<close> and \<open>consume\<close> compute.
\<close>

fun write_run :: "('w \<Rightarrow> 'r \<Rightarrow> u32 \<Rightarrow> 'e \<Rightarrow> 'w) \<Rightarrow> 'w \<Rightarrow> 'r \<Rightarrow> u32 \<Rightarrow> 'e list \<Rightarrow> 'w" where
  "write_run put w r idx [] = w"
| "write_run put w r idx (e # es) = write_run put (put w r idx e) r (idx + 1) es"

fun read_run :: "('w \<Rightarrow> 'r \<Rightarrow> u32 \<Rightarrow> 'e) \<Rightarrow> 'w \<Rightarrow> 'r \<Rightarrow> u32 \<Rightarrow> nat \<Rightarrow> 'e list" where
  "read_run get w r idx 0 = []"
| "read_run get w r idx (Suc n) = get w r idx # read_run get w r (idx + 1) n"

lemma length_read_run [simp]: "length (read_run get w r idx n) = n"
  by (induction n arbitrary: idx) simp_all

section \<open>The contract of a producer ring\<close>

text \<open>
  A producer ring holds entries that were submitted and that the other side has not taken
  (\<open>queued\<close>) and entries in slots that are reserved and not submitted (\<open>staged\<close>, the
  first one at index \<open>base\<close>); \<open>room\<close> slots are free. Reserving is all or nothing. The
  slots of one reservation have consecutive indices, modulo \<open>2 ^ 32\<close>, and writing one
  leaves the others alone. Submitting hands the staged entries over in order.
\<close>

locale prod_ring =
  fixes reserve :: "'w \<Rightarrow> 'r \<Rightarrow> u32 \<Rightarrow> u32 \<Rightarrow> u32 \<times> u32 \<times> 'r \<times> 'w"
    and slot_set :: "'w \<Rightarrow> 'r \<Rightarrow> u32 \<Rightarrow> 'e \<Rightarrow> 'w"
    and submit :: "'w \<Rightarrow> 'r \<Rightarrow> u32 \<Rightarrow> 'r \<times> 'w"
    and invar :: "'w \<Rightarrow> 'r \<Rightarrow> bool"
    and queued :: "'w \<Rightarrow> 'r \<Rightarrow> 'e list"
    and staged :: "'w \<Rightarrow> 'r \<Rightarrow> 'e list"
    and base :: "'w \<Rightarrow> 'r \<Rightarrow> u32"
    and room :: "'w \<Rightarrow> 'r \<Rightarrow> nat"
  assumes reserve_ok:
    "invar w r \<Longrightarrow> staged w r = [] \<Longrightarrow> unat nb \<le> room w r \<Longrightarrow>
     \<exists>idx' r' w'. reserve w r nb idx = (nb, idx', r', w') \<and> invar w' r' \<and>
       queued w' r' = queued w r \<and> length (staged w' r') = unat nb \<and>
       (0 < nb \<longrightarrow> idx' = base w' r') \<and> room w' r' + unat nb = room w r"
    and reserve_full:
    "invar w r \<Longrightarrow> staged w r = [] \<Longrightarrow> room w r < unat nb \<Longrightarrow>
     \<exists>idx' r' w'. reserve w r nb idx = (0, idx', r', w') \<and> invar w' r' \<and>
       queued w' r' = queued w r \<and> staged w' r' = [] \<and> room w' r' = room w r"
    and slot_set_invar:
    "invar w r \<Longrightarrow> k < length (staged w r) \<Longrightarrow> invar (slot_set w r (base w r + of_nat k) e) r"
    and slot_set_staged:
    "invar w r \<Longrightarrow> k < length (staged w r) \<Longrightarrow>
     staged (slot_set w r (base w r + of_nat k) e) r = (staged w r)[k := e]"
    and slot_set_frame:
    "invar w r \<Longrightarrow> k < length (staged w r) \<Longrightarrow>
     queued (slot_set w r (base w r + of_nat k) e) r = queued w r \<and>
     base (slot_set w r (base w r + of_nat k) e) r = base w r \<and>
     room (slot_set w r (base w r + of_nat k) e) r = room w r"
    and submit_ok:
    "invar w r \<Longrightarrow> unat nb = length (staged w r) \<Longrightarrow> submit w r nb = (r', w') \<Longrightarrow>
     invar w' r' \<and> queued w' r' = queued w r @ staged w r \<and> staged w' r' = [] \<and>
     room w' r' = room w r"
begin

lemma write_run_from:
  assumes "invar w r" and "k + length es \<le> length (staged w r)"
  shows "invar (write_run slot_set w r (base w r + of_nat k) es) r
    \<and> staged (write_run slot_set w r (base w r + of_nat k) es) r = overwrite (staged w r) k es
    \<and> queued (write_run slot_set w r (base w r + of_nat k) es) r = queued w r
    \<and> room (write_run slot_set w r (base w r + of_nat k) es) r = room w r"
  using assms
proof (induction es arbitrary: w k)
  case Nil
  then show ?case by simp
next
  case (Cons e es)
  let ?w = "slot_set w r (base w r + of_nat k) e"
  from Cons.prems have k: "k < length (staged w r)" by simp
  note set = slot_set_invar [OF Cons.prems(1) k, of e] slot_set_staged [OF Cons.prems(1) k, of e]
    slot_set_frame [OF Cons.prems(1) k, of e]
  have idx: "base w r + of_nat k + 1 = base ?w r + of_nat (Suc k)"
    using set by (simp add: add.assoc add.commute)
  have len: "Suc k + length es \<le> length (staged ?w r)"
    using Cons.prems set by simp
  have ow: "overwrite ((staged w r)[k := e]) (Suc k) es = overwrite (staged w r) k (e # es)"
    using k Cons.prems(2)
    by (simp add: overwrite_def take_Suc_conv_app_nth take_update_cancel)
  show ?case
    using Cons.IH [OF set(1) len] set by (simp add: idx ow del: of_nat_Suc)
qed

text \<open>
  The whole of a batch: reserve, write every slot, submit. Either all of the batch is
  queued behind what was there, or nothing changes.
\<close>

lemma produce_run:
  assumes inv: "invar w r" and st: "staged w r = []" and n: "length es = unat nb"
    and fits: "unat nb \<le> room w r" and nb: "0 < nb"
    and res: "reserve w r nb idx = (cnt, idx', r', w')"
    and sub: "submit (write_run slot_set w' r' idx' es) r' cnt = (r'', w'')"
  shows "cnt = nb \<and> invar w'' r'' \<and> queued w'' r'' = queued w r @ es \<and> staged w'' r'' = []
    \<and> room w'' r'' + unat nb = room w r"
proof -
  from reserve_ok [OF inv st fits, of idx] res nb
  have cnt: "cnt = nb" and inv': "invar w' r'" and q: "queued w' r' = queued w r"
    and len: "length (staged w' r') = unat nb" and base: "idx' = base w' r'"
    and room: "room w' r' + unat nb = room w r"
    by auto
  have run: "invar (write_run slot_set w' r' idx' es) r'" "staged (write_run slot_set w' r' idx' es) r' = es"
    "queued (write_run slot_set w' r' idx' es) r' = queued w r"
    "room (write_run slot_set w' r' idx' es) r' = room w' r'"
    using write_run_from [OF inv', of 0 es] len n q
    by (simp_all add: base overwrite_def)
  with submit_ok [OF run(1) _ sub] cnt n room show ?thesis by simp
qed

lemma produce_full:
  assumes "invar w r" and "staged w r = []" and "room w r < unat nb"
    and "reserve w r nb idx = (cnt, idx', r', w')"
  shows "cnt = 0 \<and> invar w' r' \<and> queued w' r' = queued w r \<and> staged w' r' = []
    \<and> room w' r' = room w r"
  using reserve_full [OF assms(1-3), of idx] assms(4) by auto

end

section \<open>The contract of a consumer ring\<close>

text \<open>
  A consumer ring holds entries the other side has published and that were not looked at
  (\<open>avail\<close>) and entries that were peeked and not released (\<open>held\<close>, the first one at index
  \<open>base\<close>). Peeking yields the first entries, at most the number asked for, and at least one
  when there are any. Releasing gives the slots back.
\<close>

locale cons_ring =
  fixes peek :: "'w \<Rightarrow> 'r \<Rightarrow> u32 \<Rightarrow> u32 \<Rightarrow> u32 \<times> u32 \<times> 'r \<times> 'w"
    and slot_get :: "'w \<Rightarrow> 'r \<Rightarrow> u32 \<Rightarrow> 'e"
    and release :: "'w \<Rightarrow> 'r \<Rightarrow> u32 \<Rightarrow> 'r \<times> 'w"
    and invar :: "'w \<Rightarrow> 'r \<Rightarrow> bool"
    and avail :: "'w \<Rightarrow> 'r \<Rightarrow> 'e list"
    and held :: "'w \<Rightarrow> 'r \<Rightarrow> 'e list"
    and base :: "'w \<Rightarrow> 'r \<Rightarrow> u32"
  assumes peek_ok:
    "invar w r \<Longrightarrow> held w r = [] \<Longrightarrow> peek w r nb idx = (cnt, idx', r', w') \<Longrightarrow>
     invar w' r' \<and> unat cnt \<le> min (unat nb) (length (avail w r)) \<and>
     (0 < nb \<longrightarrow> avail w r \<noteq> [] \<longrightarrow> 0 < cnt) \<and>
     held w' r' = take (unat cnt) (avail w r) \<and> avail w' r' = drop (unat cnt) (avail w r) \<and>
     (0 < cnt \<longrightarrow> idx' = base w' r')"
    and slot_get_held:
    "invar w r \<Longrightarrow> k < length (held w r) \<Longrightarrow> slot_get w r (base w r + of_nat k) = held w r ! k"
    and release_ok:
    "invar w r \<Longrightarrow> unat n = length (held w r) \<Longrightarrow> release w r n = (r', w') \<Longrightarrow>
     invar w' r' \<and> avail w' r' = avail w r \<and> held w' r' = []"
begin

lemma read_run_from:
  "invar w r \<Longrightarrow> k + n \<le> length (held w r) \<Longrightarrow>
   read_run slot_get w r (base w r + of_nat k) n = seg (held w r) k n"
proof (induction n arbitrary: k)
  case 0
  then show ?case by (simp add: seg_def)
next
  case (Suc n)
  then have k: "k < length (held w r)" by simp
  have "read_run slot_get w r (base w r + of_nat k + 1) n = seg (held w r) (Suc k) n"
    using Suc.IH [of "Suc k"] Suc.prems by (simp add: ac_simps)
  then show ?case
    using slot_get_held [OF Suc.prems(1) k] k by (simp add: seg_def Cons_nth_drop_Suc [symmetric])
qed

lemma consume_run:
  assumes inv: "invar w r" and held: "held w r = []"
    and pk: "peek w r nb idx = (cnt, idx', r', w')" and pos: "0 < cnt"
    and rel: "release w' r' cnt = (r'', w'')"
  shows "unat cnt \<le> unat nb \<and> unat cnt \<le> length (avail w r)
    \<and> read_run slot_get w' r' idx' (unat cnt) = take (unat cnt) (avail w r)
    \<and> invar w'' r'' \<and> avail w'' r'' = drop (unat cnt) (avail w r) \<and> held w'' r'' = []"
proof -
  note p = peek_ok [OF inv held pk]
  then have len: "length (held w' r') = unat cnt" by simp
  have "read_run slot_get w' r' (base w' r' + of_nat 0) (unat cnt) = seg (held w' r') 0 (unat cnt)"
    using p len by (intro read_run_from) simp_all
  then have "read_run slot_get w' r' idx' (unat cnt) = take (unat cnt) (avail w r)"
    using p pos by (simp add: seg_def)
  then show ?thesis
    using p release_ok [OF _ _ rel] len by simp
qed

lemma consume_none:
  assumes "invar w r" and "held w r = []" and "peek w r nb idx = (0, idx', r', w')"
  shows "invar w' r' \<and> avail w' r' = avail w r \<and> held w' r' = [] \<and> (nb = 0 \<or> avail w r = [])"
  using peek_ok [OF assms] by (auto simp: word_gt_0)

end

end
