(* ===== verification/Xsk_Reference.thy ===== *)
theory Xsk_Reference
  imports Xsk_Ring
begin

text \<open>
  A concrete instance of the foreign interface, small enough to compute with. Its rings are
  the single-producer single-consumer rings the AF_XDP interface documents: a power-of-two
  number of slots addressed by free-running 32-bit indices under a mask, the two published
  indices in shared memory, and a cached copy of the other side's index that is refreshed
  only when it does not show enough. The rings are shown to keep the two ring contracts, so
  the results of the queue theories have an instance; the rest of the interface is a stub
  that succeeds.
\<close>

section \<open>Shared memory\<close>

record ref_world =
  rw_words :: "ptr \<Rightarrow> u32"
  rw_addrs :: "ptr \<Rightarrow> u32 \<Rightarrow> u64"
  rw_descs :: "ptr \<Rightarrow> u32 \<Rightarrow> xdp_desc"

definition ref_addr_put :: "ref_world \<Rightarrow> ptr \<Rightarrow> u32 \<Rightarrow> u64 \<Rightarrow> ref_world" where
  "ref_addr_put w p i a = w\<lparr>rw_addrs := (rw_addrs w)(p := (rw_addrs w p)(i := a))\<rparr>"

definition ref_desc_put :: "ref_world \<Rightarrow> ptr \<Rightarrow> u32 \<Rightarrow> xdp_desc \<Rightarrow> ref_world" where
  "ref_desc_put w p i d = w\<lparr>rw_descs := (rw_descs w)(p := (rw_descs w p)(i := d))\<rparr>"

definition ref_word_put :: "ref_world \<Rightarrow> ptr \<Rightarrow> u32 \<Rightarrow> ref_world" where
  "ref_word_put w p v = w\<lparr>rw_words := (rw_words w)(p := v)\<rparr>"

section \<open>The ring protocol\<close>

definition ref_reserve :: "ref_world \<Rightarrow> xsk_ring_prod \<Rightarrow> u32 \<Rightarrow> u32
    \<Rightarrow> u32 \<times> u32 \<times> xsk_ring_prod \<times> ref_world" where
  "ref_reserve w r nb idx =
    (let r1 = (if nb \<le> rp_cached_cons r - rp_cached_prod r then r
               else r\<lparr>rp_cached_cons := rw_words w (rp_consumer r) + rp_size r\<rparr>)
     in if rp_cached_cons r1 - rp_cached_prod r1 < nb then (0, idx, r1, w)
        else (nb, rp_cached_prod r1, r1\<lparr>rp_cached_prod := rp_cached_prod r1 + nb\<rparr>, w))"

definition ref_submit :: "ref_world \<Rightarrow> xsk_ring_prod \<Rightarrow> u32 \<Rightarrow> xsk_ring_prod \<times> ref_world" where
  "ref_submit w r nb = (r, ref_word_put w (rp_producer r) (rw_words w (rp_producer r) + nb))"

definition ref_peek :: "ref_world \<Rightarrow> xsk_ring_cons \<Rightarrow> u32 \<Rightarrow> u32
    \<Rightarrow> u32 \<times> u32 \<times> xsk_ring_cons \<times> ref_world" where
  "ref_peek w r nb idx =
    (let r1 = (if rc_cached_prod r = rc_cached_cons r
               then r\<lparr>rc_cached_prod := rw_words w (rc_producer r)\<rparr> else r);
         entries = min (rc_cached_prod r1 - rc_cached_cons r1) nb
     in if entries = 0 then (0, idx, r1, w)
        else (entries, rc_cached_cons r1, r1\<lparr>rc_cached_cons := rc_cached_cons r1 + entries\<rparr>, w))"

definition ref_release :: "ref_world \<Rightarrow> xsk_ring_cons \<Rightarrow> u32 \<Rightarrow> xsk_ring_cons \<times> ref_world" where
  "ref_release w r nb = (r, ref_word_put w (rc_consumer r) (rw_words w (rc_consumer r) + nb))"

text \<open>A slot of a ring: the index is cut to the size of the ring by the mask.\<close>

definition prod_slot :: "(ref_world \<Rightarrow> ptr \<Rightarrow> u32 \<Rightarrow> 'e) \<Rightarrow> ref_world \<Rightarrow> xsk_ring_prod \<Rightarrow> u32 \<Rightarrow> 'e" where
  "prod_slot get w r idx = get w (rp_ring r) (idx AND rp_mask r)"

definition prod_slot_put :: "(ref_world \<Rightarrow> ptr \<Rightarrow> u32 \<Rightarrow> 'e \<Rightarrow> ref_world) \<Rightarrow> ref_world \<Rightarrow> xsk_ring_prod
    \<Rightarrow> u32 \<Rightarrow> 'e \<Rightarrow> ref_world" where
  "prod_slot_put put w r idx e = put w (rp_ring r) (idx AND rp_mask r) e"

definition cons_slot :: "(ref_world \<Rightarrow> ptr \<Rightarrow> u32 \<Rightarrow> 'e) \<Rightarrow> ref_world \<Rightarrow> xsk_ring_cons \<Rightarrow> u32 \<Rightarrow> 'e" where
  "cons_slot get w r idx = get w (rc_ring r) (idx AND rc_mask r)"

section \<open>Masked indices\<close>

definition ring_shape :: "u32 \<Rightarrow> u32 \<Rightarrow> bool" where
  "ring_shape sz mk \<longleftrightarrow> (\<exists>k<32. unat sz = 2 ^ k \<and> mk = 2 ^ k - 1)"

lemma nth_read_run: "i < n \<Longrightarrow> read_run get w r idx n ! i = get w r (idx + of_nat i)"
proof (induction n arbitrary: i idx)
  case (Suc n)
  then show ?case by (cases i) (simp_all add: add.assoc)
qed simp

lemma read_run_append:
  "read_run get w r idx (m + n) = read_run get w r idx m @ read_run get w r (idx + of_nat m) n"
  by (induction m arbitrary: idx) (simp_all add: ac_simps)

lemma mod_add_inject_le:
  fixes i j n a :: nat
  assumes "i \<le> j" and "j < n" and "(a + i) mod n = (a + j) mod n"
  shows "i = j"
proof -
  from assms(3) have "n dvd (a + j) - (a + i)"
    using assms(1) by (metis add_le_cancel_left mod_eq_dvd_iff_nat)
  with assms show ?thesis by (auto dest: dvd_imp_le)
qed

lemma masked_inject:
  assumes "ring_shape sz mk" and "i < unat sz" and "j < unat sz"
    and eq: "(x + of_nat i) AND mk = (x + of_nat j) AND mk"
  shows "i = j"
proof -
  from assms(1) obtain k where k: "k < 32" "unat sz = 2 ^ k" and mk: "mk = 2 ^ k - 1"
    by (auto simp: ring_shape_def)
  have dvd: "(2::nat) ^ k dvd 2 ^ 32" using k by (intro le_imp_power_dvd) simp
  have unat_and: "unat (y AND mk) = unat y mod 2 ^ k" for y :: u32
  proof -
    have "y AND mk = take_bit k y" by (simp add: mk take_bit_eq_mask mask_eq_exp_minus_1)
    then show ?thesis by (simp only: unsigned_take_bit_eq) (simp add: take_bit_eq_mod)
  qed
  have "unat ((x + of_nat n) AND mk) = (unat x + n) mod 2 ^ k" for n
    unfolding unat_and using dvd
    by (simp add: unat_word_ariths unat_of_nat mod_mod_cancel mod_simps)
  with eq have "(unat x + i) mod 2 ^ k = (unat x + j) mod 2 ^ k" by metis
  with assms(2,3) k show ?thesis
    using mod_add_inject_le [of i j "2 ^ k" "unat x"] mod_add_inject_le [of j i "2 ^ k" "unat x"]
    by (cases "i \<le> j") simp_all
qed

section \<open>What a ring holds\<close>

text \<open>
  Distances between indices: on the producer's side the entries not yet taken, the staged
  ones and the free slots the cached index shows; on the consumer's side the entries held,
  those published and those the cached index shows.
\<close>

definition p_queued :: "ref_world \<Rightarrow> xsk_ring_prod \<Rightarrow> nat" where
  "p_queued w r = unat (rw_words w (rp_producer r) - rw_words w (rp_consumer r))"

definition p_staged :: "ref_world \<Rightarrow> xsk_ring_prod \<Rightarrow> nat" where
  "p_staged w r = unat (rp_cached_prod r - rw_words w (rp_producer r))"

definition p_seen :: "xsk_ring_prod \<Rightarrow> nat" where
  "p_seen r = unat (rp_cached_cons r - rp_cached_prod r)"

definition ref_prod_ok :: "ref_world \<Rightarrow> xsk_ring_prod \<Rightarrow> bool" where
  "ref_prod_ok w r \<longleftrightarrow> ring_shape (rp_size r) (rp_mask r) \<and> rp_producer r \<noteq> rp_consumer r
     \<and> p_queued w r + p_staged w r + p_seen r \<le> unat (rp_size r)"

definition ref_room :: "ref_world \<Rightarrow> xsk_ring_prod \<Rightarrow> nat" where
  "ref_room w r = unat (rp_size r) - (p_queued w r + p_staged w r)"

definition ref_base :: "ref_world \<Rightarrow> xsk_ring_prod \<Rightarrow> u32" where
  "ref_base w r = rw_words w (rp_producer r)"

definition ref_queued :: "(ref_world \<Rightarrow> ptr \<Rightarrow> u32 \<Rightarrow> 'e) \<Rightarrow> ref_world \<Rightarrow> xsk_ring_prod \<Rightarrow> 'e list" where
  "ref_queued get w r = read_run (prod_slot get) w r (rw_words w (rp_consumer r)) (p_queued w r)"

definition ref_staged :: "(ref_world \<Rightarrow> ptr \<Rightarrow> u32 \<Rightarrow> 'e) \<Rightarrow> ref_world \<Rightarrow> xsk_ring_prod \<Rightarrow> 'e list" where
  "ref_staged get w r = read_run (prod_slot get) w r (rw_words w (rp_producer r)) (p_staged w r)"

lemma shape_bound: "ring_shape sz mk \<Longrightarrow> unat sz < 2 ^ 32"
  by (rule unat_u32_bound)

lemma unat_diff_add:
  "unat (b - a) + unat (c - b) < 2 ^ 32 \<Longrightarrow> unat (c - a) = unat (b - a) + unat (c - b)" for a b c :: u32
  using unat_add_in_range [of "b - a" "c - b"] by simp

lemma read_run_prod_cong:
  "rp_ring r' = rp_ring r \<Longrightarrow> rp_mask r' = rp_mask r \<Longrightarrow>
   read_run (prod_slot get) w r' i n = read_run (prod_slot get) w r i n"
  by (induction n arbitrary: i) (simp_all add: prod_slot_def)

lemma unat_diff_step: "unat n \<le> unat (a - b) \<Longrightarrow> unat (a - (b + n)) = unat (a - b) - unat n"
  for a b n :: u32
  using unat_sub_if' [of "a - b" n] by (simp add: diff_diff_eq)

text \<open>Refreshing the cached index shows exactly the free slots.\<close>

lemma refreshed_room:
  assumes "ref_prod_ok w r"
  shows "unat (rw_words w (rp_consumer r) + rp_size r - rp_cached_prod r) = ref_room w r"
proof -
  let ?C = "rw_words w (rp_consumer r)"
  have le: "p_queued w r + p_staged w r \<le> unat (rp_size r)" using assms by (simp add: ref_prod_ok_def)
  then have d: "unat (rp_cached_prod r - ?C) = p_queued w r + p_staged w r"
    using unat_u32_bound [of "rp_size r"] unfolding p_queued_def p_staged_def
    by (intro unat_diff_add) simp
  have "unat (rp_size r - (rp_cached_prod r - ?C)) = unat (rp_size r) - unat (rp_cached_prod r - ?C)"
    using le d by (simp add: unat_sub_if')
  then show ?thesis by (simp add: ref_room_def d algebra_simps)
qed

lemma ref_reserve_cases:
  assumes ok: "ref_prod_ok w r" and st: "p_staged w r = 0"
    and res: "ref_reserve w r nb idx = (cnt, idx', r', w')"
  shows "w' = w \<and> ref_prod_ok w r' \<and> rp_ring r' = rp_ring r \<and> rp_mask r' = rp_mask r
    \<and> rp_producer r' = rp_producer r \<and> rp_consumer r' = rp_consumer r \<and> rp_size r' = rp_size r
    \<and> (if unat nb \<le> ref_room w r then cnt = nb \<and> idx' = ref_base w r \<and> p_staged w r' = unat nb
       else cnt = 0 \<and> p_staged w r' = 0)"
proof -
  define r1 where "r1 = (if nb \<le> rp_cached_cons r - rp_cached_prod r then r
    else r\<lparr>rp_cached_cons := rw_words w (rp_consumer r) + rp_size r\<rparr>)"
  have cp: "rp_cached_prod r = rw_words w (rp_producer r)" using st by (simp add: p_staged_def unat_eq_zero)
  have r1: "rp_cached_prod r1 = rp_cached_prod r" "rp_ring r1 = rp_ring r" "rp_mask r1 = rp_mask r"
    "rp_producer r1 = rp_producer r" "rp_consumer r1 = rp_consumer r" "rp_size r1 = rp_size r"
    by (simp_all add: r1_def)
  have seen: "p_seen r \<le> ref_room w r" using ok by (auto simp: ref_prod_ok_def ref_room_def)
  have seen1: "p_seen r1 \<le> ref_room w r" "unat nb \<le> ref_room w r \<Longrightarrow> unat nb \<le> p_seen r1"
    using seen refreshed_room [OF ok] by (auto simp: r1_def p_seen_def word_le_nat_alt)
  have ok1: "ref_prod_ok w r1"
    using ok seen1(1) by (auto simp: ref_prod_ok_def ref_room_def p_queued_def p_staged_def r1)
  show ?thesis
  proof (cases "unat nb \<le> p_seen r1")
    case True
    then have res': "cnt = nb" "idx' = rp_cached_prod r" "r' = r1\<lparr>rp_cached_prod := rp_cached_prod r + nb\<rparr>" "w' = w"
      using res by (auto simp: ref_reserve_def Let_def r1_def [symmetric] p_seen_def r1 word_less_nat_alt)
    have "p_seen r' = p_seen r1 - unat nb"
      using True by (simp add: res' p_seen_def r1 unat_sub_if' diff_diff_eq [symmetric])
    then show ?thesis
      using True ok1 seen1 st by (auto simp: res' ref_prod_ok_def p_queued_def p_staged_def r1 cp ref_base_def)
  next
    case False
    then have "cnt = 0" "r' = r1" "w' = w"
      using res by (auto simp: ref_reserve_def Let_def r1_def [symmetric] p_seen_def r1 word_less_nat_alt)
    with False ok1 seen1 st show ?thesis by (auto simp: r1 p_staged_def)
  qed
qed

definition c_held :: "ref_world \<Rightarrow> xsk_ring_cons \<Rightarrow> nat" where
  "c_held w r = unat (rc_cached_cons r - rw_words w (rc_consumer r))"

definition c_avail :: "ref_world \<Rightarrow> xsk_ring_cons \<Rightarrow> nat" where
  "c_avail w r = unat (rw_words w (rc_producer r) - rc_cached_cons r)"

definition c_seen :: "xsk_ring_cons \<Rightarrow> nat" where
  "c_seen r = unat (rc_cached_prod r - rc_cached_cons r)"

definition ref_cons_ok :: "ref_world \<Rightarrow> xsk_ring_cons \<Rightarrow> bool" where
  "ref_cons_ok w r \<longleftrightarrow> ring_shape (rc_size r) (rc_mask r) \<and> rc_producer r \<noteq> rc_consumer r
     \<and> c_held w r + c_avail w r \<le> unat (rc_size r) \<and> c_seen r \<le> c_avail w r"

definition ref_cons_base :: "ref_world \<Rightarrow> xsk_ring_cons \<Rightarrow> u32" where
  "ref_cons_base w r = rw_words w (rc_consumer r)"

definition ref_avail :: "(ref_world \<Rightarrow> ptr \<Rightarrow> u32 \<Rightarrow> 'e) \<Rightarrow> ref_world \<Rightarrow> xsk_ring_cons \<Rightarrow> 'e list" where
  "ref_avail get w r = read_run (cons_slot get) w r (rc_cached_cons r) (c_avail w r)"

definition ref_held :: "(ref_world \<Rightarrow> ptr \<Rightarrow> u32 \<Rightarrow> 'e) \<Rightarrow> ref_world \<Rightarrow> xsk_ring_cons \<Rightarrow> 'e list" where
  "ref_held get w r = read_run (cons_slot get) w r (rw_words w (rc_consumer r)) (c_held w r)"

lemma read_run_cons_cong:
  "rc_ring r' = rc_ring r \<Longrightarrow> rc_mask r' = rc_mask r \<Longrightarrow>
   read_run (cons_slot get) w r' i n = read_run (cons_slot get) w r i n"
  by (induction n arbitrary: i) (simp_all add: cons_slot_def)

lemma ref_peek_cases:
  assumes ok: "ref_cons_ok w r" and held: "c_held w r = 0"
    and pk: "ref_peek w r nb idx = (cnt, idx', r', w')"
  shows "w' = w \<and> ref_cons_ok w r' \<and> rc_ring r' = rc_ring r \<and> rc_mask r' = rc_mask r
    \<and> rc_consumer r' = rc_consumer r \<and> rc_cached_cons r' = rc_cached_cons r + cnt
    \<and> unat cnt \<le> unat nb \<and> unat cnt \<le> c_avail w r \<and> (0 < nb \<longrightarrow> 0 < c_avail w r \<longrightarrow> 0 < cnt)
    \<and> c_held w r' = unat cnt \<and> c_avail w r' = c_avail w r - unat cnt
    \<and> (0 < cnt \<longrightarrow> idx' = rc_cached_cons r)"
proof -
  define r1 where "r1 = (if rc_cached_prod r = rc_cached_cons r
    then r\<lparr>rc_cached_prod := rw_words w (rc_producer r)\<rparr> else r)"
  have r1: "rc_cached_cons r1 = rc_cached_cons r" "rc_ring r1 = rc_ring r" "rc_mask r1 = rc_mask r"
    "rc_producer r1 = rc_producer r" "rc_consumer r1 = rc_consumer r" "rc_size r1 = rc_size r"
    by (simp_all add: r1_def)
  have cc: "rc_cached_cons r = rw_words w (rc_consumer r)"
    using held by (simp add: c_held_def unat_eq_zero)
  have seen: "c_seen r1 \<le> c_avail w r" "0 < c_avail w r \<Longrightarrow> 0 < c_seen r1"
    using ok by (auto simp: r1_def c_seen_def c_avail_def ref_cons_ok_def unat_gt_0)
  define n where "n = min (rc_cached_prod r1 - rc_cached_cons r1) nb"
  have n: "unat n = min (c_seen r1) (unat nb)"
    by (simp add: n_def c_seen_def min_def word_le_nat_alt)
  have "ref_peek w r nb idx = (if n = 0 then (0, idx, r1, w)
      else (n, rc_cached_cons r1, r1\<lparr>rc_cached_cons := rc_cached_cons r1 + n\<rparr>, w))"
    by (simp only: ref_peek_def Let_def r1_def n_def)
  with pk have "cnt = n \<and> w' = w \<and> r' = r1\<lparr>rc_cached_cons := rc_cached_cons r1 + n\<rparr>
      \<and> (0 < n \<longrightarrow> idx' = rc_cached_cons r1)"
    by (cases "n = 0") auto
  then have res: "cnt = n" "w' = w" "rc_cached_cons r' = rc_cached_cons r + n" "rc_cached_prod r' = rc_cached_prod r1"
    "rc_ring r' = rc_ring r" "rc_mask r' = rc_mask r" "rc_producer r' = rc_producer r"
    "rc_consumer r' = rc_consumer r" "rc_size r' = rc_size r" "0 < n \<longrightarrow> idx' = rc_cached_cons r"
    by (simp_all add: r1)
  have av: "c_avail w r' = c_avail w r - unat n" "c_seen r' = c_seen r1 - unat n"
    unfolding c_avail_def c_seen_def res r1
    by (rule unat_diff_step, use seen n in \<open>simp add: c_avail_def c_seen_def r1\<close>)+
  have hl: "c_held w r' = unat n" by (simp add: c_held_def res cc)
  have "ref_cons_ok w r'"
    using ok seen n held av hl by (auto simp: ref_cons_ok_def res intro: diff_le_mono)
  moreover have "0 < nb \<longrightarrow> 0 < c_avail w r \<longrightarrow> 0 < n"
    using seen n by (simp add: word_less_nat_alt)
  ultimately show ?thesis using seen n av hl by (simp add: res)
qed

section \<open>The contracts hold\<close>

text \<open>An area of slots in the shared memory, apart from the words that hold the indices.\<close>

locale slot_area =
  fixes area_get :: "ref_world \<Rightarrow> ptr \<Rightarrow> u32 \<Rightarrow> 'e"
    and area_put :: "ref_world \<Rightarrow> ptr \<Rightarrow> u32 \<Rightarrow> 'e \<Rightarrow> ref_world"
  assumes get_put: "area_get (area_put w p i e) p j = (if j = i then e else area_get w p j)"
    and put_words: "rw_words (area_put w p i e) = rw_words w"
    and get_word_put: "area_get (ref_word_put w p v) = area_get w"
begin

lemma read_run_put:
  assumes "ring_shape (rp_size r) (rp_mask r)" and "m \<le> unat (rp_size r)" and "j < m"
  shows "read_run (prod_slot area_get) (prod_slot_put area_put w r (c + of_nat j) e) r c m = (read_run (prod_slot area_get) w r c m)[j := e]"
proof (rule nth_equalityI)
  fix i assume "i < length (read_run (prod_slot area_get) (prod_slot_put area_put w r (c + of_nat j) e) r c m)"
  with assms masked_inject [OF assms(1), of i j c]
  show "read_run (prod_slot area_get) (prod_slot_put area_put w r (c + of_nat j) e) r c m ! i
      = (read_run (prod_slot area_get) w r c m)[j := e] ! i"
    by (auto simp: nth_read_run prod_slot_def prod_slot_put_def get_put nth_list_update)
qed simp

lemma ref_slot_put:
  assumes ok: "ref_prod_ok w r" and k: "k < p_staged w r"
  shows "ref_prod_ok (prod_slot_put area_put w r (ref_base w r + of_nat k) e) r"
    and "ref_base (prod_slot_put area_put w r (ref_base w r + of_nat k) e) r = ref_base w r"
    and "ref_room (prod_slot_put area_put w r (ref_base w r + of_nat k) e) r = ref_room w r"
    and "ref_queued area_get (prod_slot_put area_put w r (ref_base w r + of_nat k) e) r
      = ref_queued area_get w r"
    and "ref_staged area_get (prod_slot_put area_put w r (ref_base w r + of_nat k) e) r
      = (ref_staged area_get w r)[k := e]"
proof -
  let ?w = "prod_slot_put area_put w r (ref_base w r + of_nat k) e"
  let ?C = "rw_words w (rp_consumer r)"
  have words: "rw_words ?w = rw_words w" by (simp add: prod_slot_put_def put_words)
  then show "ref_prod_ok ?w r" "ref_base ?w r = ref_base w r" "ref_room ?w r = ref_room w r"
    using ok by (simp_all add: ref_prod_ok_def ref_base_def ref_room_def p_queued_def p_staged_def)
  have idx: "ref_base w r + of_nat k = ?C + of_nat (p_queued w r + k)"
    by (simp add: ref_base_def p_queued_def)
  have whole: "read_run (prod_slot area_get) v r ?C (p_queued w r + p_staged w r)
      = ref_queued area_get v r @ ref_staged area_get v r" if "rw_words v = rw_words w" for v
    using that by (simp add: read_run_append ref_queued_def ref_staged_def p_queued_def p_staged_def)
  have "read_run (prod_slot area_get) ?w r ?C (p_queued w r + p_staged w r)
      = (read_run (prod_slot area_get) w r ?C (p_queued w r + p_staged w r))[p_queued w r + k := e]"
    unfolding idx using ok k by (intro read_run_put) (auto simp: ref_prod_ok_def)
  then have "ref_queued area_get ?w r @ ref_staged area_get ?w r
      = (ref_queued area_get w r @ ref_staged area_get w r)[p_queued w r + k := e]"
    by (simp add: whole words)
  moreover have "length (ref_queued area_get w r) = p_queued w r"
    "length (ref_queued area_get ?w r) = p_queued w r"
    by (simp_all add: ref_queued_def p_queued_def words)
  ultimately show "ref_queued area_get ?w r = ref_queued area_get w r"
    "ref_staged area_get ?w r = (ref_staged area_get w r)[k := e]"
    by (simp_all add: list_update_append)
qed

lemma ref_submit_outcome:
  assumes ok: "ref_prod_ok w r" and nb: "unat nb = p_staged w r"
    and sub: "ref_submit w r nb = (r', w')"
  shows "ref_prod_ok w' r' \<and> ref_queued area_get w' r' = ref_queued area_get w r @ ref_staged area_get w r
    \<and> ref_staged area_get w' r' = [] \<and> ref_room w' r' = ref_room w r"
proof -
  let ?P = "rw_words w (rp_producer r)" and ?C = "rw_words w (rp_consumer r)"
  have w': "r' = r" "w' = ref_word_put w (rp_producer r) (?P + nb)"
    using sub by (auto simp: ref_submit_def)
  have ne: "rp_producer r \<noteq> rp_consumer r" using ok by (simp add: ref_prod_ok_def)
  have "nb = rp_cached_prod r - ?P" using nb unfolding p_staged_def by (rule unsigned_word_eqI)
  then have cp: "?P + nb = rp_cached_prod r" by simp
  have words: "rw_words w' (rp_producer r) = rp_cached_prod r" "rw_words w' (rp_consumer r) = ?C"
    using ne by (simp_all add: w' ref_word_put_def cp)
  have q: "p_queued w' r = p_queued w r + p_staged w r" and s: "p_staged w' r = 0"
    using unat_diff_add [of ?P ?C "rp_cached_prod r"] ok unat_u32_bound [of "rp_size r"]
    by (simp_all add: p_queued_def p_staged_def words ref_prod_ok_def)
  have slot: "prod_slot area_get w' = prod_slot area_get w"
    by (simp add: prod_slot_def w' get_word_put fun_eq_iff)
  have run: "read_run (prod_slot area_get) w' r i n = read_run (prod_slot area_get) w r i n" for i n
    by (induction n arbitrary: i) (simp_all add: slot)
  have "?C + of_nat (p_queued w r) = ?P" by (simp add: p_queued_def)
  then show ?thesis
    using ok q s
    by (simp add: w'(1) ref_queued_def ref_staged_def read_run_append run words ref_prod_ok_def ref_room_def)
qed

end

sublocale slot_area \<subseteq> rp: prod_ring ref_reserve "prod_slot_put area_put" ref_submit ref_prod_ok
  "ref_queued area_get" "ref_staged area_get" ref_base ref_room
proof unfold_locales
  fix w r nb idx
  assume ok: "ref_prod_ok w r" and st: "ref_staged area_get w r = []"
  obtain cnt idx' r' w' where res: "ref_reserve w r nb idx = (cnt, idx', r', w')" by (rule prod_cases4)
  from st have st0: "p_staged w r = 0" by (metis ref_staged_def length_read_run list.size(3))
  note c = ref_reserve_cases [OF ok st0 res]
  then have w': "w' = w" "ref_prod_ok w r'" and ptrs: "rp_ring r' = rp_ring r" "rp_mask r' = rp_mask r"
    "rp_producer r' = rp_producer r" "rp_consumer r' = rp_consumer r" "rp_size r' = rp_size r"
    by simp_all
  have q: "p_queued w r' = p_queued w r" by (simp add: p_queued_def ptrs)
  have same: "ref_queued area_get w r' = ref_queued area_get w r"
    by (simp add: ref_queued_def q ptrs read_run_prod_cong [OF ptrs(1,2)])
  have base: "ref_base w r' = ref_base w r" by (simp add: ref_base_def ptrs)
  have len: "length (ref_staged area_get w r') = p_staged w r'" by (simp add: ref_staged_def)
  have room: "ref_room w r' = ref_room w r - p_staged w r'"
    by (simp add: ref_room_def q ptrs st0)
  show "\<exists>idx' r' w'. ref_reserve w r nb idx = (nb, idx', r', w') \<and> ref_prod_ok w' r' \<and>
      ref_queued area_get w' r' = ref_queued area_get w r \<and> length (ref_staged area_get w' r') = unat nb \<and>
      (0 < nb \<longrightarrow> idx' = ref_base w' r') \<and> ref_room w' r' + unat nb = ref_room w r"
    if "unat nb \<le> ref_room w r"
    using c that by (simp add: res w' same base len room)
  show "\<exists>idx' r' w'. ref_reserve w r nb idx = (0, idx', r', w') \<and> ref_prod_ok w' r' \<and>
      ref_queued area_get w' r' = ref_queued area_get w r \<and> ref_staged area_get w' r' = [] \<and>
      ref_room w' r' = ref_room w r"
    if "ref_room w r < unat nb"
    using c that len by (simp add: res w' same room)
qed (simp_all add: ref_slot_put ref_submit_outcome ref_staged_def [THEN arg_cong, of length])

sublocale slot_area \<subseteq> rc: cons_ring ref_peek "cons_slot area_get" ref_release ref_cons_ok
  "ref_avail area_get" "ref_held area_get" ref_cons_base
proof unfold_locales
  fix w r nb idx cnt idx' r' w'
  assume ok: "ref_cons_ok w r" and held: "ref_held area_get w r = []"
    and pk: "ref_peek w r nb idx = (cnt, idx', r', w')"
  from held have h0: "c_held w r = 0" by (metis ref_held_def length_read_run list.size(3))
  then have cc: "rw_words w (rc_consumer r) = rc_cached_cons r"
    by (simp add: c_held_def unat_eq_zero)
  note c = ref_peek_cases [OF ok h0 pk]
  then have split: "c_avail w r = unat cnt + c_avail w r'" and w': "w' = w"
    and r': "rc_ring r' = rc_ring r" "rc_mask r' = rc_mask r" "rc_consumer r' = rc_consumer r"
      "rc_cached_cons r' = rc_cached_cons r + cnt" "c_held w r' = unat cnt"
    by simp_all
  have "read_run (cons_slot area_get) w r (rc_cached_cons r) (unat cnt + c_avail w r')
      = ref_held area_get w r' @ ref_avail area_get w r'"
    unfolding read_run_append ref_avail_def ref_held_def r' cc
    by (simp add: read_run_cons_cong [OF r'(1,2)])
  then have "ref_avail area_get w r = ref_held area_get w r' @ ref_avail area_get w r'"
    by (simp only: ref_avail_def [of _ w r] split)
  moreover have "length (ref_held area_get w r') = unat cnt" "length (ref_avail area_get w r) = c_avail w r"
    by (simp_all add: ref_held_def ref_avail_def r')
  moreover have "ref_avail area_get w r \<noteq> [] \<longleftrightarrow> 0 < c_avail w r"
    by (metis calculation(3) length_greater_0_conv)
  ultimately show "ref_cons_ok w' r' \<and> unat cnt \<le> min (unat nb) (length (ref_avail area_get w r)) \<and>
      (0 < nb \<longrightarrow> ref_avail area_get w r \<noteq> [] \<longrightarrow> 0 < cnt) \<and>
      ref_held area_get w' r' = take (unat cnt) (ref_avail area_get w r) \<and>
      ref_avail area_get w' r' = drop (unat cnt) (ref_avail area_get w r) \<and>
      (0 < cnt \<longrightarrow> idx' = ref_cons_base w' r')"
    using c by (simp add: ref_cons_base_def cc)
next
  fix w r k
  assume "k < length (ref_held area_get w r)"
  then show "cons_slot area_get w r (ref_cons_base w r + of_nat k) = ref_held area_get w r ! k"
    by (simp add: ref_held_def nth_read_run ref_cons_base_def)
next
  fix w r n r' w'
  assume ok: "ref_cons_ok w r" and n: "unat n = length (ref_held area_get w r)"
    and rel: "ref_release w r n = (r', w')"
  have ne: "rc_producer r \<noteq> rc_consumer r" using ok by (simp add: ref_cons_ok_def)
  have "n = rc_cached_cons r - rw_words w (rc_consumer r)"
    using n by (intro unsigned_word_eqI) (simp add: ref_held_def c_held_def)
  then have w': "r' = r" "w' = ref_word_put w (rc_consumer r) (rc_cached_cons r)"
    using rel by (auto simp: ref_release_def)
  have a: "c_avail w' r = c_avail w r" and h: "c_held w' r = 0"
    using ne by (simp_all add: c_avail_def c_held_def w' ref_word_put_def)
  have "read_run (cons_slot area_get) w' r i m = read_run (cons_slot area_get) w r i m" for i m
    by (induction m arbitrary: i) (simp_all add: cons_slot_def w' get_word_put)
  then show "ref_cons_ok w' r' \<and> ref_avail area_get w' r' = ref_avail area_get w r \<and>
      ref_held area_get w' r' = []"
    using ok by (simp add: w'(1) ref_avail_def ref_held_def a h ref_cons_ok_def)
qed

interpretation addr_area: slot_area rw_addrs ref_addr_put
  by unfold_locales (simp_all add: ref_addr_put_def ref_word_put_def)

interpretation desc_area: slot_area rw_descs ref_desc_put
  by unfold_locales (simp_all add: ref_desc_put_def ref_word_put_def)

section \<open>The whole interface\<close>

text \<open>A fresh ring of four slots, and a memory in which every word and slot is zero.\<close>

definition ref_prod :: "ptr \<Rightarrow> xsk_ring_prod" where
  "ref_prod p = \<lparr>rp_cached_prod = 0, rp_cached_cons = 4, rp_mask = 3, rp_size = 4,
     rp_producer = p, rp_consumer = p + 4, rp_ring = p + 8, rp_flags = p + 12\<rparr>"

definition ref_cons :: "ptr \<Rightarrow> xsk_ring_cons" where
  "ref_cons p = \<lparr>rc_cached_prod = 0, rc_cached_cons = 0, rc_mask = 3, rc_size = 4,
     rc_producer = p, rc_consumer = p + 4, rc_ring = p + 8, rc_flags = p + 12\<rparr>"

definition ref_zero :: ref_world where
  "ref_zero = \<lparr>rw_words = (\<lambda>_. 0), rw_addrs = (\<lambda>_ _. 0),
     rw_descs = (\<lambda>_ _. \<lparr>xd_addr = 0, xd_len = 0, xd_options = 0\<rparr>)\<rparr>"

definition ref_libxdp :: "ref_world libxdp" where
  "ref_libxdp = \<lparr>reserve = ref_reserve, fill_addr_set = prod_slot_put ref_addr_put,
     tx_desc_get = prod_slot rw_descs, tx_desc_set = prod_slot_put ref_desc_put,
     submit = ref_submit, prod_needs_wakeup = (\<lambda>w r. 1), peek = ref_peek,
     comp_addr_get = cons_slot rw_addrs, rx_desc_get = cons_slot rw_descs, release = ref_release,
     umem_create = (\<lambda>w p a n fq cq c. (0, 4096, ref_prod 100, ref_cons 200, w)),
     umem_delete = (\<lambda>w p. (0, w)),
     socket_create_shared = (\<lambda>w p i q u rx tx fq cq c. (0, 8192, ref_cons 300, ref_prod 400, fq, cq, w)),
     socket_fd = (\<lambda>w p. 7), socket_delete = (\<lambda>w p. w),
     XDP_PACKET_HEADROOM = 256, XSK_RING_CONS_DEFAULT_NUM_DESCS = 2048,
     XSK_RING_PROD_DEFAULT_NUM_DESCS = 2048, XSK_UMEM_DEFAULT_FRAME_HEADROOM = 0,
     XSK_UMEM_DEFAULT_FRAME_SIZE = 4096, XDP_STATISTICS = 7, XDP_STATISTICS_SIZEOF = 48\<rparr>"

definition ref_libc :: "'w libc" where
  "ref_libc = \<lparr>mmap = (\<lambda>w a n p f fd off. (65536, w)), munmap = (\<lambda>w a n. (0, w)),
     poll = (\<lambda>w p n ms. (1, p\<lparr>pf_revents := pf_events p\<rparr>, w)),
     sendto = (\<lambda>w fd b n f a al. (0, w)),
     getsockopt = (\<lambda>w fd lv opt s n. (0, s, n, w)), errno = (\<lambda>w. 0),
     MAP_FAILED = - 1, MAP_ANONYMOUS = 32, MAP_SHARED = 1, MAP_POPULATE = 32768,
     MAP_HUGETLB = 262144, PROT_READ = 1, PROT_WRITE = 2, POLLIN = 1, POLLOUT = 4,
     MSG_DONTWAIT = 64, SOL_XDP = 283, EINTR = 4, ENOBUFS = 105, EAGAIN = 11, EBUSY = 16,
     ENETDOWN = 100\<rparr>"

lemma ref_libxdp_simps [simp]:
  "reserve ref_libxdp = ref_reserve" "fill_addr_set ref_libxdp = prod_slot_put ref_addr_put"
  "tx_desc_get ref_libxdp = prod_slot rw_descs" "tx_desc_set ref_libxdp = prod_slot_put ref_desc_put"
  "submit ref_libxdp = ref_submit" "peek ref_libxdp = ref_peek"
  "comp_addr_get ref_libxdp = cons_slot rw_addrs" "rx_desc_get ref_libxdp = cons_slot rw_descs"
  "release ref_libxdp = ref_release"
  by (simp_all add: ref_libxdp_def)

lemma ref_libxdp_consts [simp]:
  "XDP_PACKET_HEADROOM ref_libxdp = 256" "XSK_UMEM_DEFAULT_FRAME_SIZE ref_libxdp = 4096"
  "XSK_UMEM_DEFAULT_FRAME_HEADROOM ref_libxdp = 0"
  "umem_create ref_libxdp w p a n fq cq c = (0, 4096, ref_prod 100, ref_cons 200, w)"
  "socket_create_shared ref_libxdp w p i q u rx tx fq cq sc = (0, 8192, ref_cons 300, ref_prod 400, fq, cq, w)"
  "socket_fd ref_libxdp w p = 7"
  by (simp_all add: ref_libxdp_def)

lemma ref_libc_simps [simp]:
  "mmap ref_libc w a n prot fl fd off = (65536, w)" "MAP_FAILED ref_libc = - 1"
  by (simp_all add: ref_libc_def)

lemma ref_rings_ok [simp]:
  "ref_prod_ok ref_zero (ref_prod p)" "ref_staged get ref_zero (ref_prod p) = []"
  "ref_queued get ref_zero (ref_prod p) = []" "ref_room ref_zero (ref_prod p) = 4"
  "ref_cons_ok ref_zero (ref_cons p)" "ref_held get ref_zero (ref_cons p) = []"
  by (auto simp: ref_prod_ok_def ref_prod_def ref_zero_def p_queued_def p_staged_def p_seen_def
    ref_staged_def ref_queued_def ref_room_def ref_cons_ok_def ref_cons_def c_held_def c_avail_def
    c_seen_def ref_held_def ring_shape_def intro!: exI [of _ 2])

text \<open>The same memory after the other side of the ring at 200 has published two entries.\<close>

definition ref_loaded :: ref_world where
  "ref_loaded = ref_word_put
     (ref_desc_put (ref_desc_put (ref_addr_put (ref_addr_put ref_zero 208 0 4096) 208 1 8192)
        208 0 \<lparr>xd_addr = 4096, xd_len = 60, xd_options = 0\<rparr>)
        208 1 \<lparr>xd_addr = 8192, xd_len = 1500, xd_options = 1\<rparr>) 200 2"

lemma read_run_two: "read_run get w r i 2 = [get w r i, get w r (i + 1)]"
  by (simp add: numeral_2_eq_2)

lemma ref_loaded_ok [simp]:
  "ref_cons_ok ref_loaded (ref_cons 200)" "ref_held get ref_loaded (ref_cons 200) = []"
  "ref_avail rw_addrs ref_loaded (ref_cons 200) = [4096, 8192]"
  "ref_avail rw_descs ref_loaded (ref_cons 200) = [\<lparr>xd_addr = 4096, xd_len = 60, xd_options = 0\<rparr>,
     \<lparr>xd_addr = 8192, xd_len = 1500, xd_options = 1\<rparr>]"
  by (auto simp: ref_loaded_def ref_word_put_def ref_desc_put_def ref_addr_put_def ref_zero_def
    ref_cons_ok_def ref_cons_def c_held_def c_avail_def c_seen_def ref_held_def ref_avail_def
    cons_slot_def ring_shape_def read_run_two intro!: exI [of _ 2])

lemmas ref_fill_contract = addr_area.rp.prod_ring_axioms
lemmas ref_tx_contract = desc_area.rp.prod_ring_axioms
lemmas ref_comp_contract = addr_area.rc.cons_ring_axioms
lemmas ref_rx_contract = desc_area.rc.cons_ring_axioms

end
