(* ===== verification/Xsk_Config.thy ===== *)
theory Xsk_Config
  imports Xsk_Util Xsk_Reference
begin

text \<open>
  \<^verbatim>\<open>src/config/mod.rs\<close>, \<^verbatim>\<open>src/config/umem.rs\<close> and \<^verbatim>\<open>src/config/socket.rs\<close>: the validated
  sizes, the two configurations with their builders and the conversions to the structures
  libxdp takes. The main results: what a builder accepts, and that an accepted UMEM
  configuration has a frame layout with no arithmetic overflow; in a build without
  overflow checks the last one needs the headroom to be below the wrap-around.
\<close>

section \<open>Printing numbers\<close>

text \<open>Rust's decimal \<^verbatim>\<open>Display\<close> of an unsigned integer.\<close>

fun decimal :: "nat \<Rightarrow> string" where
  "decimal n = (if n < 10 then [char_of (48 + n)]
     else decimal (n div 10) @ [char_of (48 + n mod 10)])"

declare decimal.simps [simp del]

section \<open>Queue and frame sizes\<close>

definition XDP_UMEM_MIN_CHUNK_SIZE :: u32 where
  "XDP_UMEM_MIN_CHUNK_SIZE = 2048"

datatype QueueSize = QueueSize u32
datatype QueueSizeError = QueueSizeError u32
datatype FrameSize = FrameSize u32
datatype FrameSizeError = FrameSizeError u32

definition QueueSize_new :: "u32 \<Rightarrow> QueueSizeError + QueueSize" where
  "QueueSize_new sz = (if \<not> is_pow_of_two sz then Inl (QueueSizeError sz)
     else Inr (QueueSize sz))"

primrec QueueSize_get :: "QueueSize \<Rightarrow> u32" where
  "QueueSize_get (QueueSize n) = n"

definition QueueSize_try_from :: "u32 \<Rightarrow> QueueSizeError + QueueSize" where
  "QueueSize_try_from sz = QueueSize_new sz"

primrec QueueSizeError_fmt :: "QueueSizeError \<Rightarrow> string" where
  "QueueSizeError_fmt (QueueSizeError n)
     = ''expected a power of two as queue size, got '' @ decimal (unat n)"

definition FrameSize_new :: "u32 \<Rightarrow> FrameSizeError + FrameSize" where
  "FrameSize_new sz = (if sz < XDP_UMEM_MIN_CHUNK_SIZE then Inl (FrameSizeError sz)
     else Inr (FrameSize sz))"

primrec FrameSize_get :: "FrameSize \<Rightarrow> u32" where
  "FrameSize_get (FrameSize n) = n"

definition FrameSize_try_from :: "u32 \<Rightarrow> FrameSizeError + FrameSize" where
  "FrameSize_try_from sz = FrameSize_new sz"

primrec FrameSizeError_fmt :: "FrameSizeError \<Rightarrow> string" where
  "FrameSizeError_fmt (FrameSizeError n) = ''expected frame size >= ''
     @ decimal (unat XDP_UMEM_MIN_CHUNK_SIZE) @ '', got '' @ decimal (unat n)"

section \<open>The UMEM configuration\<close>

record UmemConfig =
  frame_size :: FrameSize
  fill_queue_size :: QueueSize
  comp_queue_size :: QueueSize
  frame_headroom :: u32

record UmemConfigBuilder =
  uconfig :: UmemConfig

record ConfigBuildError =
  err_frame_size :: u32
  err_total_headroom :: u32

definition UmemConfig_default :: "'w libxdp \<Rightarrow> UmemConfig" where
  "UmemConfig_default X = \<lparr>frame_size = FrameSize (XSK_UMEM_DEFAULT_FRAME_SIZE X),
     fill_queue_size = QueueSize (XSK_RING_PROD_DEFAULT_NUM_DESCS X),
     comp_queue_size = QueueSize (XSK_RING_CONS_DEFAULT_NUM_DESCS X),
     frame_headroom = XSK_UMEM_DEFAULT_FRAME_HEADROOM X\<rparr>"

definition UmemConfigBuilder_new :: "'w libxdp \<Rightarrow> UmemConfigBuilder" where
  "UmemConfigBuilder_new X = \<lparr>uconfig = UmemConfig_default X\<rparr>"

definition UmemConfigBuilder_frame_size
  :: "UmemConfigBuilder \<Rightarrow> FrameSize \<Rightarrow> UmemConfigBuilder" where
  "UmemConfigBuilder_frame_size b sz = b\<lparr>uconfig := (uconfig b)\<lparr>frame_size := sz\<rparr>\<rparr>"

definition UmemConfigBuilder_fill_queue_size
  :: "UmemConfigBuilder \<Rightarrow> QueueSize \<Rightarrow> UmemConfigBuilder" where
  "UmemConfigBuilder_fill_queue_size b sz
     = b\<lparr>uconfig := (uconfig b)\<lparr>fill_queue_size := sz\<rparr>\<rparr>"

definition UmemConfigBuilder_comp_queue_size
  :: "UmemConfigBuilder \<Rightarrow> QueueSize \<Rightarrow> UmemConfigBuilder" where
  "UmemConfigBuilder_comp_queue_size b sz
     = b\<lparr>uconfig := (uconfig b)\<lparr>comp_queue_size := sz\<rparr>\<rparr>"

definition UmemConfigBuilder_frame_headroom
  :: "UmemConfigBuilder \<Rightarrow> u32 \<Rightarrow> UmemConfigBuilder" where
  "UmemConfigBuilder_frame_headroom b headroom
     = b\<lparr>uconfig := (uconfig b)\<lparr>frame_headroom := headroom\<rparr>\<rparr>"

definition UmemConfigBuilder_build
  :: "bool \<Rightarrow> 'w libxdp \<Rightarrow> UmemConfigBuilder \<Rightarrow> (ConfigBuildError + UmemConfig) rust" where
  "UmemConfigBuilder_build oc X b =
    (let fs = FrameSize_get (frame_size (uconfig b))
     in rbind (add_oc oc (XDP_PACKET_HEADROOM X) (frame_headroom (uconfig b))) (\<lambda>total_headroom.
       if total_headroom > fs
       then Ret (Inl \<lparr>err_frame_size = fs, err_total_headroom = total_headroom\<rparr>)
       else Ret (Inr (uconfig b))))"

definition UmemConfig_builder :: "'w libxdp \<Rightarrow> UmemConfigBuilder" where
  "UmemConfig_builder X = UmemConfigBuilder_new X"

definition UmemConfig_xdp_headroom :: "'w libxdp \<Rightarrow> UmemConfig \<Rightarrow> u32" where
  "UmemConfig_xdp_headroom X c = XDP_PACKET_HEADROOM X"

definition UmemConfig_mtu :: "bool \<Rightarrow> 'w libxdp \<Rightarrow> UmemConfig \<Rightarrow> u32 rust" where
  "UmemConfig_mtu oc X c =
     rbind (add_oc oc (UmemConfig_xdp_headroom X c) (frame_headroom c)) (\<lambda>total.
       sub_oc oc (FrameSize_get (frame_size c)) total)"

definition UmemConfig_into_xsk :: "UmemConfig \<Rightarrow> xsk_umem_config" where
  "UmemConfig_into_xsk c = \<lparr>uc_fill_size = QueueSize_get (fill_queue_size c),
     uc_comp_size = QueueSize_get (comp_queue_size c),
     uc_frame_size = FrameSize_get (frame_size c),
     uc_frame_headroom = frame_headroom c, uc_flags = 0\<rparr>"

definition ConfigBuildError_fmt :: "ConfigBuildError \<Rightarrow> string" where
  "ConfigBuildError_fmt e = ''total headroom '' @ decimal (unat (err_total_headroom e))
     @ '' cannot be greater than frame size '' @ decimal (unat (err_frame_size e))"

section \<open>The socket configuration\<close>

text \<open>
  A flag set of the \<^verbatim>\<open>bitflags!\<close> macro is the integer of its bits; the constants are those
  the macro calls list.
\<close>

definition XSK_LIBXDP_FLAGS_INHIBIT_PROG_LOAD :: u32 where
  "XSK_LIBXDP_FLAGS_INHIBIT_PROG_LOAD = 1"
definition XDP_FLAGS_UPDATE_IF_NOEXIST :: u32 where
  "XDP_FLAGS_UPDATE_IF_NOEXIST = 1"
definition XDP_FLAGS_SKB_MODE :: u32 where
  "XDP_FLAGS_SKB_MODE = 2"
definition XDP_FLAGS_DRV_MODE :: u32 where
  "XDP_FLAGS_DRV_MODE = 4"
definition XDP_FLAGS_HW_MODE :: u32 where
  "XDP_FLAGS_HW_MODE = 8"
definition XDP_COPY :: u16 where
  "XDP_COPY = 2"
definition XDP_ZEROCOPY :: u16 where
  "XDP_ZEROCOPY = 4"
definition XDP_USE_NEED_WAKEUP :: u16 where
  "XDP_USE_NEED_WAKEUP = 8"

record SocketConfig =
  rx_queue_size :: QueueSize
  tx_queue_size :: QueueSize
  libxdp_flags :: u32
  xdp_flags :: u32
  bind_flags :: u16

record SocketConfigBuilder =
  sconfig :: SocketConfig

definition SocketConfig_default :: "'w libxdp \<Rightarrow> SocketConfig" where
  "SocketConfig_default X = \<lparr>rx_queue_size = QueueSize (XSK_RING_CONS_DEFAULT_NUM_DESCS X),
     tx_queue_size = QueueSize (XSK_RING_PROD_DEFAULT_NUM_DESCS X),
     libxdp_flags = 0, xdp_flags = 0, bind_flags = 0\<rparr>"

definition SocketConfigBuilder_new :: "'w libxdp \<Rightarrow> SocketConfigBuilder" where
  "SocketConfigBuilder_new X = \<lparr>sconfig = SocketConfig_default X\<rparr>"

definition SocketConfigBuilder_rx_queue_size
  :: "SocketConfigBuilder \<Rightarrow> QueueSize \<Rightarrow> SocketConfigBuilder" where
  "SocketConfigBuilder_rx_queue_size b sz = b\<lparr>sconfig := (sconfig b)\<lparr>rx_queue_size := sz\<rparr>\<rparr>"

definition SocketConfigBuilder_tx_queue_size
  :: "SocketConfigBuilder \<Rightarrow> QueueSize \<Rightarrow> SocketConfigBuilder" where
  "SocketConfigBuilder_tx_queue_size b sz = b\<lparr>sconfig := (sconfig b)\<lparr>tx_queue_size := sz\<rparr>\<rparr>"

definition SocketConfigBuilder_libxdp_flags
  :: "SocketConfigBuilder \<Rightarrow> u32 \<Rightarrow> SocketConfigBuilder" where
  "SocketConfigBuilder_libxdp_flags b fl = b\<lparr>sconfig := (sconfig b)\<lparr>libxdp_flags := fl\<rparr>\<rparr>"

definition SocketConfigBuilder_xdp_flags
  :: "SocketConfigBuilder \<Rightarrow> u32 \<Rightarrow> SocketConfigBuilder" where
  "SocketConfigBuilder_xdp_flags b fl = b\<lparr>sconfig := (sconfig b)\<lparr>xdp_flags := fl\<rparr>\<rparr>"

definition SocketConfigBuilder_bind_flags
  :: "SocketConfigBuilder \<Rightarrow> u16 \<Rightarrow> SocketConfigBuilder" where
  "SocketConfigBuilder_bind_flags b fl = b\<lparr>sconfig := (sconfig b)\<lparr>bind_flags := fl\<rparr>\<rparr>"

definition SocketConfigBuilder_build :: "SocketConfigBuilder \<Rightarrow> SocketConfig" where
  "SocketConfigBuilder_build b = sconfig b"

definition SocketConfig_builder :: "'w libxdp \<Rightarrow> SocketConfigBuilder" where
  "SocketConfig_builder X = SocketConfigBuilder_new X"

definition SocketConfig_into_xsk :: "SocketConfig \<Rightarrow> xsk_socket_config" where
  "SocketConfig_into_xsk c = \<lparr>sc_rx_size = QueueSize_get (rx_queue_size c),
     sc_tx_size = QueueSize_get (tx_queue_size c), sc_xdp_flags = xdp_flags c,
     sc_bind_flags = bind_flags c, sc_libxdp_flags = libxdp_flags c\<rparr>"

section \<open>Interface names\<close>

text \<open>
  A \<^verbatim>\<open>CString\<close> holds bytes none of which is zero; \<^verbatim>\<open>CString::new\<close> reports the position
  of the first zero byte otherwise and gives the bytes back. A string slice is the list of
  its UTF-8 bytes.
\<close>

datatype Interface = Interface "u8 list"
datatype NulError = NulError nat "u8 list"

definition CString_new :: "u8 list \<Rightarrow> NulError + u8 list" where
  "CString_new bs = (if 0 \<in> set bs then Inl (NulError (length (takeWhile (\<lambda>b. b \<noteq> 0) bs)) bs)
     else Inr bs)"

definition Interface_new :: "u8 list \<Rightarrow> Interface" where
  "Interface_new name = Interface name"

text \<open>The C string the name is passed as: the bytes and the terminator.\<close>

primrec Interface_as_cstr :: "Interface \<Rightarrow> u8 list" where
  "Interface_as_cstr (Interface name) = name @ [0]"

definition Interface_try_from :: "u8 list \<Rightarrow> NulError + Interface" where
  "Interface_try_from bytes = map_sum id Interface (CString_new bytes)"

definition Interface_from_str :: "u8 list \<Rightarrow> NulError + Interface" where
  "Interface_from_str s = Interface_try_from s"

section \<open>What the validated sizes guarantee\<close>

text \<open>
  Creating a queue size succeeds exactly for the 32 powers of two of a \<open>u32\<close> and returns
  the size unchanged; every other value, zero included, is returned in the error.
\<close>

theorem QueueSize_new_iff:
  "QueueSize_new n = (if \<exists>k<32. unat n = 2 ^ k then Inr (QueueSize n) else Inl (QueueSizeError n))"
  by (simp add: QueueSize_new_def is_pow_of_two_iff)

lemma FrameSize_new_ok: "FrameSize_new n = Inr s \<longleftrightarrow> s = FrameSize n \<and> 2048 \<le> unat n"
  by (auto simp: FrameSize_new_def XDP_UMEM_MIN_CHUNK_SIZE_def word_less_nat_alt)

section \<open>What the UMEM builder guarantees\<close>

text \<open>
  A configuration is well formed when both headrooms fit in a frame, as numbers and not
  modulo \<open>2 ^ 32\<close>.
\<close>

definition wf_UmemConfig :: "'w libxdp \<Rightarrow> UmemConfig \<Rightarrow> bool" where
  "wf_UmemConfig X c \<longleftrightarrow>
     unat (XDP_PACKET_HEADROOM X) + unat (frame_headroom c) \<le> unat (FrameSize_get (frame_size c))"

lemma wf_UmemConfig_no_overflow:
  "wf_UmemConfig X c \<Longrightarrow> unat (XDP_PACKET_HEADROOM X) + unat (frame_headroom c) < 2 ^ 32"
  using unat_u32_bound [of "FrameSize_get (frame_size c)"] by (simp add: wf_UmemConfig_def)

lemma unat_total_headroom:
  "wf_UmemConfig X c \<Longrightarrow> unat (XDP_PACKET_HEADROOM X + frame_headroom c)
     = unat (XDP_PACKET_HEADROOM X) + unat (frame_headroom c)"
  using wf_UmemConfig_no_overflow [of X c] by (simp add: unat_add_in_range)

text \<open>
  The MTU of a well-formed configuration is computed without overflow in either build
  profile, and headrooms and MTU add up to the frame size.
\<close>

lemma UmemConfig_mtu_eq:
  assumes "wf_UmemConfig X c"
  shows "\<exists>m. UmemConfig_mtu oc X c = Ret m \<and>
    unat (XDP_PACKET_HEADROOM X) + unat (frame_headroom c) + unat m
      = unat (FrameSize_get (frame_size c))"
proof -
  let ?t = "XDP_PACKET_HEADROOM X + frame_headroom c"
  have t: "unat ?t = unat (XDP_PACKET_HEADROOM X) + unat (frame_headroom c)"
    by (rule unat_total_headroom [OF assms])
  have le: "?t \<le> FrameSize_get (frame_size c)"
    using assms t by (simp add: word_le_nat_alt wf_UmemConfig_def)
  have "UmemConfig_mtu oc X c = Ret (FrameSize_get (frame_size c) - ?t)"
    using wf_UmemConfig_no_overflow [OF assms] le
    by (simp add: UmemConfig_mtu_def UmemConfig_xdp_headroom_def rust_arith)
  then show ?thesis
    using le t by (auto simp: unat_sub word_le_nat_alt)
qed

text \<open>
  With overflow checks on, the builder returns a configuration exactly when it is well
  formed, and then returns the values that were set; otherwise it reports the headroom and
  the frame size, or panics when the headroom does not fit in a \<open>u32\<close>.
\<close>

theorem UmemConfigBuilder_build_checked:
  "UmemConfigBuilder_build True X b =
    (let c = uconfig b; h = XDP_PACKET_HEADROOM X + frame_headroom c;
         fs = FrameSize_get (frame_size c)
     in if wf_UmemConfig X c then Ret (Inr c)
        else if unat (XDP_PACKET_HEADROOM X) + unat (frame_headroom c) < 2 ^ 32
        then Ret (Inl \<lparr>err_frame_size = fs, err_total_headroom = h\<rparr>) else Panic)"
proof (cases "wf_UmemConfig X (uconfig b)")
  case True
  then show ?thesis
    using wf_UmemConfig_no_overflow [OF True] unat_total_headroom [OF True]
    by (simp add: UmemConfigBuilder_build_def Let_def rust_arith word_less_nat_alt
        wf_UmemConfig_def)
next
  case False
  then show ?thesis
    by (auto simp: UmemConfigBuilder_build_def Let_def add_oc_def word_less_nat_alt
        wf_UmemConfig_def unat_add_in_range)
qed

text \<open>
  C36: without overflow checks the sum of the headrooms wraps: a frame headroom of
  \<open>2 ^ 32\<close> minus the XDP headroom is accepted for every frame size, although the headrooms
  do not fit in the frame (and a checked build panics on the same input).
\<close>

theorem UmemConfigBuilder_build_release_wraps:
  assumes "0 < XDP_PACKET_HEADROOM X"
  shows "let b' = UmemConfigBuilder_frame_headroom b (- XDP_PACKET_HEADROOM X)
    in UmemConfigBuilder_build False X b' = Ret (Inr (uconfig b'))
      \<and> \<not> wf_UmemConfig X (uconfig b') \<and> UmemConfigBuilder_build True X b' = Panic"
proof -
  define b' where "b' = UmemConfigBuilder_frame_headroom b (- XDP_PACKET_HEADROOM X)"
  have h: "frame_headroom (uconfig b') = - XDP_PACKET_HEADROOM X"
    by (simp add: b'_def UmemConfigBuilder_frame_headroom_def)
  have sum: "unat (XDP_PACKET_HEADROOM X) + unat (- XDP_PACKET_HEADROOM X) = 2 ^ 32"
    using assms unat_u32_bound [of "XDP_PACKET_HEADROOM X"]
      unat_sub_if' [of 0 "XDP_PACKET_HEADROOM X"]
    by (simp add: word_size word_gt_0 unat_eq_0)
  then have "\<not> wf_UmemConfig X (uconfig b')"
    using wf_UmemConfig_no_overflow [of X "uconfig b'"] by (auto simp: h)
  moreover have "UmemConfigBuilder_build False X b' = Ret (Inr (uconfig b'))"
    by (simp add: UmemConfigBuilder_build_def h)
  moreover have "UmemConfigBuilder_build True X b' = Panic"
    using sum by (simp add: UmemConfigBuilder_build_def h add_oc_def)
  ultimately show ?thesis by (simp add: b'_def Let_def)
qed

theorem UmemConfigBuilder_build_release_wraps_witness:
  "let b = UmemConfigBuilder_frame_headroom (UmemConfigBuilder_new ref_libxdp) (- 256)
   in UmemConfigBuilder_build False ref_libxdp b = Ret (Inr (uconfig b))
     \<and> \<not> wf_UmemConfig ref_libxdp (uconfig b) \<and> UmemConfigBuilder_build True ref_libxdp b = Panic"
  using UmemConfigBuilder_build_release_wraps [of ref_libxdp "UmemConfigBuilder_new ref_libxdp"]
  by (simp add: ref_libxdp_def)

section \<open>Interface names\<close>

lemma takeWhile_no_nul: "0 \<notin> set bs \<Longrightarrow> takeWhile (\<lambda>b. b \<noteq> 0) (bs @ 0 # zs) = bs" for bs :: "u8 list"
  by (induction bs) auto

text \<open>
  A name made from bytes is accepted exactly when no byte is zero, and a C reader that
  stops at the first zero byte of the string passed to libxdp reads the name back whole; a
  rejected name comes back with the position of its first zero byte.
\<close>

theorem Interface_from_str_roundtrip:
  "case Interface_from_str bs of
     Inr i \<Rightarrow> 0 \<notin> set bs \<and> takeWhile (\<lambda>b. b \<noteq> 0) (Interface_as_cstr i) = bs
   | Inl (NulError p bs') \<Rightarrow> bs' = bs \<and> p < length bs \<and> bs ! p = 0 \<and> (\<forall>j<p. bs ! j \<noteq> 0)"
proof (cases "0 \<in> set bs")
  case False
  then show ?thesis
    by (simp add: Interface_from_str_def Interface_try_from_def CString_new_def takeWhile_no_nul)
next
  case True
  let ?p = "length (takeWhile (\<lambda>b. b \<noteq> 0) bs)"
  from True have p: "?p < length bs"
    by (induction bs) auto
  moreover have "bs ! ?p = 0"
    using nth_length_takeWhile [OF p] by simp
  moreover have "\<forall>j<?p. bs ! j \<noteq> 0"
  proof (intro allI impI)
    fix j assume j: "j < ?p"
    then have "takeWhile (\<lambda>b. b \<noteq> 0) bs ! j \<in> set (takeWhile (\<lambda>b. b \<noteq> 0) bs)"
      by (rule nth_mem)
    with j show "bs ! j \<noteq> 0"
      by (auto simp: takeWhile_nth dest: set_takeWhileD)
  qed
  ultimately show ?thesis
    using True by (simp add: Interface_from_str_def Interface_try_from_def CString_new_def)
qed

theorem Interface_from_str_roundtrip_witness:
  "takeWhile (\<lambda>b. b \<noteq> 0) (Interface_as_cstr (Interface [101, 116, 104, 48])) = [101, 116, 104, 48]
    \<and> Interface_from_str [108, 0, 111] = Inl (NulError 1 [108, 0, 111])"
  using Interface_from_str_roundtrip [of "[101, 116, 104, 48]"]
  by (simp add: Interface_from_str_def Interface_try_from_def CString_new_def)

end
