(* ===== verification/Xsk_Arc.thy ===== *)
theory Xsk_Arc
  imports Xsk_Prelude
begin

text \<open>
  Reference counting: the standard library's \<^verbatim>\<open>Arc\<close>, which the crate uses to keep the
  memory map, the UMEM and the socket alive as long as something refers to them. An arena
  holds one cell per allocation, with the strong count and the value; a handle is the
  index of its cell. The \<^verbatim>\<open>Mutex\<close> inside each \<^verbatim>\<open>Arc\<close> is never contended by the crate's
  own code and is not represented.
\<close>

record 'a arena =
  next_cell :: nat
  cells :: "nat \<rightharpoonup> nat \<times> 'a"

definition arena_empty :: "'a arena" where
  "arena_empty = \<lparr>next_cell = 0, cells = Map.empty\<rparr>"

text \<open>\<^verbatim>\<open>Arc::new\<close>: a fresh cell with count one.\<close>

definition arc_new :: "'a arena \<Rightarrow> 'a \<Rightarrow> nat \<times> 'a arena" where
  "arc_new h a = (next_cell h,
     \<lparr>next_cell = Suc (next_cell h), cells = (cells h)(next_cell h \<mapsto> (1, a))\<rparr>)"

text \<open>\<^verbatim>\<open>Arc::clone\<close>: the count goes up.\<close>

definition arc_clone :: "'a arena \<Rightarrow> nat \<Rightarrow> 'a arena" where
  "arc_clone h i = (case cells h i of
     None \<Rightarrow> h
   | Some (n, a) \<Rightarrow> h\<lparr>cells := (cells h)(i \<mapsto> (Suc n, a))\<rparr>)"

text \<open>Dropping a handle: the count goes down; at zero the value comes out, to be dropped.\<close>

definition arc_drop :: "'a arena \<Rightarrow> nat \<Rightarrow> 'a option \<times> 'a arena" where
  "arc_drop h i = (case cells h i of
     None \<Rightarrow> (None, h)
   | Some (n, a) \<Rightarrow> if n \<le> 1 then (Some a, h\<lparr>cells := (cells h)(i := None)\<rparr>)
       else (None, h\<lparr>cells := (cells h)(i \<mapsto> (n - 1, a))\<rparr>))"

text \<open>Reading and replacing the value behind a handle (through the mutex).\<close>

definition arc_get :: "'a arena \<Rightarrow> nat \<Rightarrow> 'a option" where
  "arc_get h i = map_option snd (cells h i)"

definition arc_set :: "'a arena \<Rightarrow> nat \<Rightarrow> 'a \<Rightarrow> 'a arena" where
  "arc_set h i a = (case cells h i of
     None \<Rightarrow> h
   | Some (n, _) \<Rightarrow> h\<lparr>cells := (cells h)(i \<mapsto> (n, a))\<rparr>)"

definition arc_count :: "'a arena \<Rightarrow> nat \<Rightarrow> nat" where
  "arc_count h i = (case cells h i of None \<Rightarrow> 0 | Some (n, _) \<Rightarrow> n)"

text \<open>Fresh indices are not in use.\<close>

definition wf_arena :: "'a arena \<Rightarrow> bool" where
  "wf_arena h \<longleftrightarrow> (\<forall>i n a. cells h i = Some (n, a) \<longrightarrow> i < next_cell h \<and> 0 < n)"

lemmas arc_defs = arc_new_def arc_clone_def arc_drop_def arc_get_def arc_set_def arc_count_def

lemma wf_arenaI:
  "(\<And>i n a. cells h i = Some (n, a) \<Longrightarrow> i < next_cell h \<and> 0 < n) \<Longrightarrow> wf_arena h"
  by (simp add: wf_arena_def)

lemma wf_arenaD:
  assumes "wf_arena h" and "cells h i = Some (n, a)"
  shows wf_arena_lt: "i < next_cell h" and wf_arena_pos: "0 < n"
  using assms unfolding wf_arena_def by blast+

lemma wf_arena_empty [simp]: "wf_arena arena_empty"
  by (simp add: wf_arena_def arena_empty_def)

lemma wf_arena_fresh: "wf_arena h \<Longrightarrow> cells h (next_cell h) = None"
  by (cases "cells h (next_cell h)") (auto simp: wf_arena_def)

lemma wf_arc_new: "wf_arena h \<Longrightarrow> arc_new h a = (i, h') \<Longrightarrow> wf_arena h'"
  by (rule wf_arenaI) (auto simp: arc_new_def less_Suc_eq intro: wf_arenaD split: if_splits)

lemma wf_arc_clone: "wf_arena h \<Longrightarrow> wf_arena (arc_clone h i)"
  by (rule wf_arenaI) (auto simp: arc_clone_def intro: wf_arenaD split: option.splits if_splits)

lemma wf_arc_drop: "wf_arena h \<Longrightarrow> arc_drop h i = (v, h') \<Longrightarrow> wf_arena h'"
  by (rule wf_arenaI) (auto simp: arc_drop_def split: option.splits if_splits, (meson wf_arenaD)+)

lemma arc_new_get [simp]: "arc_new h a = (i, h') \<Longrightarrow> cells h' i = Some (1, a)"
  by (auto simp: arc_new_def)

lemma arc_count_clone:
  "cells h i \<noteq> None \<Longrightarrow> arc_count (arc_clone h i) j = arc_count h j + (if i = j then 1 else 0)"
  by (auto simp: arc_defs split: option.splits)

lemma arc_count_drop:
  "wf_arena h \<Longrightarrow> arc_drop h i = (v, h') \<Longrightarrow>
   arc_count h' j = arc_count h j - (if i = j then 1 else 0)"
  by (auto simp: arc_defs intro: wf_arenaD split: option.splits if_splits)

text \<open>The value comes out exactly when the last handle goes.\<close>

lemma arc_drop_last:
  "cells h i = Some (n, a) \<Longrightarrow> arc_drop h i = (v, h') \<Longrightarrow> v = (if n \<le> 1 then Some a else None)"
  by (auto simp: arc_drop_def)

end
