(* ===== verification/Xsk_Mem.thy ===== *)
theory Xsk_Mem
  imports Xsk_Frame Xsk_Config Xsk_Arc
begin

text \<open>
  \<^verbatim>\<open>src/umem/mem/mmap.rs\<close>, \<^verbatim>\<open>src/umem/mem/mod.rs\<close> and the frame layout of
  \<^verbatim>\<open>src/umem/mod.rs\<close>: the memory map under a UMEM and the pointer arithmetic that finds a
  frame's segments in it. The bytes of the map are a list; a pointer into the map is its
  offset; leaving the map, by pointer arithmetic or by a slice, is undefined behaviour.
  Shown: for the descriptors of a well-formed region no access is undefined and no
  arithmetic overflows, and a write through one frame is seen in that frame and in no other.
\<close>

section \<open>Frame layout\<close>

record FrameLayout =
  fl_xdp_headroom :: usize
  fl_frame_headroom :: usize
  fl_mtu :: usize

definition FrameLayout_frame_size :: "bool \<Rightarrow> FrameLayout \<Rightarrow> usize rust" where
  "FrameLayout_frame_size oc l =
     rbind (add_oc oc (fl_xdp_headroom l) (fl_frame_headroom l)) (\<lambda>s. add_oc oc s (fl_mtu l))"

definition FrameLayout_from :: "bool \<Rightarrow> 'w libxdp \<Rightarrow> UmemConfig \<Rightarrow> FrameLayout rust" where
  "FrameLayout_from oc X c = rbind (UmemConfig_mtu oc X c) (\<lambda>mtu.
     Ret \<lparr>fl_xdp_headroom = ucast (UmemConfig_xdp_headroom X c),
          fl_frame_headroom = ucast (frame_headroom c), fl_mtu = ucast mtu\<rparr>)"

section \<open>The memory map\<close>

record Mmap =
  mm_addr :: ptr
  mm_len :: usize

definition Mmap_new :: "'w libc \<Rightarrow> 'w \<Rightarrow> usize \<Rightarrow> bool \<Rightarrow> ((io_error + Mmap) \<times> 'w) rust" where
  "Mmap_new L w len use_huge_pages =
    (let flags = MAP_ANONYMOUS L OR MAP_SHARED L OR MAP_POPULATE L;
         flags = (if use_huge_pages then flags OR MAP_HUGETLB L else flags);
         (addr, w') = mmap L w null len (PROT_READ L OR PROT_WRITE L) flags (- 1) 0
     in if addr = MAP_FAILED L then Ret (Inl (OsError (errno L w')), w')
        else if is_null addr then Panic
        else Ret (Inr \<lparr>mm_addr = addr, mm_len = len\<rparr>, w'))"

definition Mmap_addr :: "Mmap \<Rightarrow> ptr" where
  "Mmap_addr m = mm_addr m"

text \<open>A failing \<^verbatim>\<open>munmap\<close> is logged and otherwise ignored.\<close>

definition Mmap_drop :: "'w libc \<Rightarrow> 'w \<Rightarrow> Mmap \<Rightarrow> 'w" where
  "Mmap_drop L w m = snd (munmap L w (mm_addr m) (mm_len m))"

section \<open>The region\<close>

text \<open>\<open>rg_mmap\<close> is the handle of the reference-counted map.\<close>

record UmemRegion =
  rg_layout :: FrameLayout
  rg_addr :: ptr
  rg_len :: usize
  rg_mmap :: nat

definition UmemRegion_new :: "bool \<Rightarrow> 'w libc \<Rightarrow> 'w \<Rightarrow> Mmap arena \<Rightarrow> u32 \<Rightarrow> FrameLayout \<Rightarrow> bool
    \<Rightarrow> ((io_error + UmemRegion) \<times> Mmap arena \<times> 'w) rust" where
  "UmemRegion_new oc L w maps frame_count layout use_huge_pages =
     rbind (FrameLayout_frame_size oc layout) (\<lambda>fs.
     rbind (mul_oc oc (ucast frame_count) fs) (\<lambda>len.
     rbind (Mmap_new L w len use_huge_pages) (\<lambda>(res, w').
       case res of
         Inl e \<Rightarrow> Ret (Inl e, maps, w')
       | Inr m \<Rightarrow> (let (i, maps') = arc_new maps m
           in Ret (Inr \<lparr>rg_layout = layout, rg_addr = Mmap_addr m, rg_len = len, rg_mmap = i\<rparr>,
                   maps', w')))))"

text \<open>
  Cloning a region clones the handle of the map; dropping one drops the handle, and with
  the last handle the map itself is unmapped.
\<close>

definition UmemRegion_clone :: "Mmap arena \<Rightarrow> UmemRegion \<Rightarrow> UmemRegion \<times> Mmap arena" where
  "UmemRegion_clone maps r = (r, arc_clone maps (rg_mmap r))"

definition UmemRegion_drop
  :: "'w libc \<Rightarrow> 'w \<Rightarrow> Mmap arena \<Rightarrow> UmemRegion \<Rightarrow> Mmap arena \<times> 'w" where
  "UmemRegion_drop L w maps r = (let (v, maps') = arc_drop maps (rg_mmap r)
     in (maps', case v of None \<Rightarrow> w | Some m \<Rightarrow> Mmap_drop L w m))"

definition UmemRegion_len :: "UmemRegion \<Rightarrow> usize" where
  "UmemRegion_len r = rg_len r"

definition UmemRegion_as_ptr :: "UmemRegion \<Rightarrow> ptr" where
  "UmemRegion_as_ptr r = rg_addr r"

text \<open>Pointer addition inside the map, and the slice at a pointer.\<close>

definition ptr_add :: "UmemRegion \<Rightarrow> usize \<Rightarrow> usize rust" where
  "ptr_add r off = (if unat off \<le> unat (rg_len r) then Ret off else UB)"

definition from_raw_parts :: "u8 list \<Rightarrow> usize \<Rightarrow> usize \<Rightarrow> u8 list rust" where
  "from_raw_parts mem off n = (if unat off + unat n \<le> length mem
     then Ret (seg mem (unat off) (unat n)) else UB)"

definition UmemRegion_headroom_ptr :: "bool \<Rightarrow> UmemRegion \<Rightarrow> FrameDesc \<Rightarrow> usize rust" where
  "UmemRegion_headroom_ptr oc r d =
     rbind (sub_oc oc (fd_addr d) (fl_frame_headroom (rg_layout r))) (\<lambda>addr. ptr_add r addr)"

definition UmemRegion_data_ptr :: "UmemRegion \<Rightarrow> FrameDesc \<Rightarrow> usize rust" where
  "UmemRegion_data_ptr r d = ptr_add r (fd_addr d)"

definition UmemRegion_headroom :: "bool \<Rightarrow> UmemRegion \<Rightarrow> u8 list \<Rightarrow> FrameDesc \<Rightarrow> Headroom rust" where
  "UmemRegion_headroom oc r mem d =
     rbind (UmemRegion_headroom_ptr oc r d) (\<lambda>p.
     rbind (from_raw_parts mem p (sl_headroom (fd_lengths d))) (\<lambda>s. Ret (Headroom_new s)))"

definition UmemRegion_data :: "UmemRegion \<Rightarrow> u8 list \<Rightarrow> FrameDesc \<Rightarrow> Data rust" where
  "UmemRegion_data r mem d =
     rbind (UmemRegion_data_ptr r d) (\<lambda>p.
     rbind (from_raw_parts mem p (sl_data (fd_lengths d))) (\<lambda>s. Ret (Data_new s)))"

definition UmemRegion_frame
  :: "bool \<Rightarrow> UmemRegion \<Rightarrow> u8 list \<Rightarrow> FrameDesc \<Rightarrow> (Headroom \<times> Data) rust" where
  "UmemRegion_frame oc r mem d =
     rbind (UmemRegion_headroom oc r mem d) (\<lambda>h. rbind (UmemRegion_data r mem d) (\<lambda>dt. Ret (h, dt)))"

definition UmemRegion_frame_mut
  :: "bool \<Rightarrow> UmemRegion \<Rightarrow> u8 list \<Rightarrow> FrameDesc \<Rightarrow> (HeadroomMut \<times> DataMut) rust" where
  "UmemRegion_frame_mut oc r mem d =
     rbind (UmemRegion_headroom_ptr oc r d) (\<lambda>hp.
     rbind (UmemRegion_data_ptr r d) (\<lambda>dp.
     rbind (from_raw_parts mem hp (fl_frame_headroom (rg_layout r))) (\<lambda>headroom.
     rbind (from_raw_parts mem dp (fl_mtu (rg_layout r))) (\<lambda>dt.
       Ret (HeadroomMut_new (sl_headroom (fd_lengths d)) headroom,
            DataMut_new (sl_data (fd_lengths d)) dt)))))"

definition UmemRegion_headroom_mut
  :: "bool \<Rightarrow> UmemRegion \<Rightarrow> u8 list \<Rightarrow> FrameDesc \<Rightarrow> HeadroomMut rust" where
  "UmemRegion_headroom_mut oc r mem d =
     rbind (UmemRegion_headroom_ptr oc r d) (\<lambda>hp.
     rbind (from_raw_parts mem hp (fl_frame_headroom (rg_layout r))) (\<lambda>headroom.
       Ret (HeadroomMut_new (sl_headroom (fd_lengths d)) headroom)))"

definition UmemRegion_data_mut :: "UmemRegion \<Rightarrow> u8 list \<Rightarrow> FrameDesc \<Rightarrow> DataMut rust" where
  "UmemRegion_data_mut r mem d =
     rbind (UmemRegion_data_ptr r d) (\<lambda>dp.
     rbind (from_raw_parts mem dp (fl_mtu (rg_layout r))) (\<lambda>dt.
       Ret (DataMut_new (sl_data (fd_lengths d)) dt)))"

text \<open>
  The end of a mutable borrow: the segment's bytes are in the map and its length in the
  descriptor.
\<close>

definition headroom_mut_back
  :: "UmemRegion \<Rightarrow> u8 list \<Rightarrow> FrameDesc \<Rightarrow> HeadroomMut \<Rightarrow> u8 list \<times> FrameDesc" where
  "headroom_mut_back r mem d h =
     (overwrite mem (unat (fd_addr d - fl_frame_headroom (rg_layout r))) (hm_buf h),
      d\<lparr>fd_lengths := (fd_lengths d)\<lparr>sl_headroom := hm_len h\<rparr>\<rparr>)"

definition data_mut_back :: "u8 list \<Rightarrow> FrameDesc \<Rightarrow> DataMut \<Rightarrow> u8 list \<times> FrameDesc" where
  "data_mut_back mem d dt = (overwrite mem (unat (fd_addr d)) (dm_buf dt),
      d\<lparr>fd_lengths := (fd_lengths d)\<lparr>sl_data := dm_len dt\<rparr>\<rparr>)"

definition frame_mut_back :: "UmemRegion \<Rightarrow> u8 list \<Rightarrow> FrameDesc \<Rightarrow> HeadroomMut \<Rightarrow> DataMut
    \<Rightarrow> u8 list \<times> FrameDesc" where
  "frame_mut_back r mem d h dt = (let (mem', d') = headroom_mut_back r mem d h
     in data_mut_back mem' d' dt)"

section \<open>Geometry\<close>

text \<open>
  The numbers behind the words. The layout of a well-formed configuration is below
  \<open>2 ^ 32\<close> bytes, so a region of fewer than \<open>2 ^ 32\<close> frames is below \<open>2 ^ 64\<close> bytes.
\<close>

definition frame_bytes :: "FrameLayout \<Rightarrow> nat" where
  "frame_bytes l = unat (fl_xdp_headroom l) + unat (fl_frame_headroom l) + unat (fl_mtu l)"

definition wf_layout :: "FrameLayout \<Rightarrow> bool" where
  "wf_layout l \<longleftrightarrow> frame_bytes l < 2 ^ 32"

definition data_off :: "FrameLayout \<Rightarrow> nat \<Rightarrow> nat" where
  "data_off l i = i * frame_bytes l + unat (fl_xdp_headroom l) + unat (fl_frame_headroom l)"

definition wf_region :: "UmemRegion \<Rightarrow> nat \<Rightarrow> bool" where
  "wf_region r n \<longleftrightarrow> wf_layout (rg_layout r) \<and> unat (rg_len r) = n * frame_bytes (rg_layout r)"

text \<open>
  The descriptor \<open>d\<close> describes frame \<open>i\<close> of \<open>n\<close>: its address is the start of that frame's
  data segment and its lengths are within the segments, as the documentation of
  \<^verbatim>\<open>SegmentLengths\<close> requires.
\<close>

definition desc_of :: "UmemRegion \<Rightarrow> nat \<Rightarrow> FrameDesc \<Rightarrow> nat \<Rightarrow> bool" where
  "desc_of r n d i \<longleftrightarrow> i < n \<and> unat (fd_addr d) = data_off (rg_layout r) i
     \<and> unat (sl_headroom (fd_lengths d)) \<le> unat (fl_frame_headroom (rg_layout r))
     \<and> unat (sl_data (fd_lengths d)) \<le> unat (fl_mtu (rg_layout r))"

lemma FrameLayout_frame_size_wf:
  assumes "wf_layout l"
  shows "\<exists>fs. FrameLayout_frame_size oc l = Ret fs \<and> unat fs = frame_bytes l"
proof -
  let ?s = "fl_xdp_headroom l + fl_frame_headroom l"
  have b: "unat (fl_xdp_headroom l) + unat (fl_frame_headroom l) < 2 ^ 64"
    "unat (fl_xdp_headroom l) + unat (fl_frame_headroom l) + unat (fl_mtu l) < 2 ^ 64"
    using assms by (simp_all add: wf_layout_def frame_bytes_def)
  then have s: "unat ?s = unat (fl_xdp_headroom l) + unat (fl_frame_headroom l)"
    by (simp add: unat_add_in_range)
  then have "unat (?s + fl_mtu l) = frame_bytes l"
    using b by (simp add: unat_add_in_range frame_bytes_def)
  then show ?thesis
    using b s by (simp add: FrameLayout_frame_size_def rust_arith)
qed

lemma FrameLayout_from_ok:
  assumes "wf_UmemConfig X c"
  shows "\<exists>l. FrameLayout_from oc X c = Ret l \<and> wf_layout l
    \<and> frame_bytes l = unat (FrameSize_get (frame_size c))
    \<and> fl_xdp_headroom l = ucast (XDP_PACKET_HEADROOM X)
    \<and> fl_frame_headroom l = ucast (frame_headroom c)"
proof -
  obtain m where m: "UmemConfig_mtu oc X c = Ret m"
    and sum: "unat (XDP_PACKET_HEADROOM X) + unat (frame_headroom c) + unat m
      = unat (FrameSize_get (frame_size c))"
    using UmemConfig_mtu_eq [OF assms, of oc] by blast
  let ?l = "\<lparr>fl_xdp_headroom = ucast (XDP_PACKET_HEADROOM X),
    fl_frame_headroom = ucast (frame_headroom c), fl_mtu = ucast m\<rparr>"
  have bytes: "frame_bytes ?l = unat (FrameSize_get (frame_size c))"
    by (simp add: frame_bytes_def sum)
  then have "wf_layout ?l"
    using unat_u32_bound [of "FrameSize_get (frame_size c)"] by (simp add: wf_layout_def)
  with bytes m show ?thesis
    by (auto simp: FrameLayout_from_def UmemConfig_xdp_headroom_def)
qed

text \<open>
  The layout of a well-formed configuration is computed without overflow in either
  build profile and its frame size is the configured frame size.
\<close>

theorem FrameLayout_from_frame_size:
  assumes "wf_UmemConfig X c"
  shows "\<exists>l fs. FrameLayout_from oc X c = Ret l \<and> FrameLayout_frame_size oc l = Ret fs
    \<and> unat fs = unat (FrameSize_get (frame_size c))"
  using FrameLayout_from_ok [OF assms, of oc] FrameLayout_frame_size_wf [of _ oc] by metis

theorem FrameLayout_from_frame_size_witness:
  "\<exists>l fs. FrameLayout_from True ref_libxdp (UmemConfig_default ref_libxdp) = Ret l
    \<and> FrameLayout_frame_size True l = Ret fs \<and> unat fs = 4096"
proof -
  have "wf_UmemConfig ref_libxdp (UmemConfig_default ref_libxdp)"
    by (simp add: wf_UmemConfig_def UmemConfig_default_def ref_libxdp_def)
  from FrameLayout_from_frame_size [OF this, of True] show ?thesis
    by (simp add: UmemConfig_default_def ref_libxdp_def)
qed

lemma frame_before: "i < j \<Longrightarrow> i * f + f \<le> j * f" for f :: nat
  by (metis Suc_leI add.commute mult_Suc mult_le_mono1)

section \<open>Accesses through the descriptors of a region\<close>

lemma desc_bounds:
  assumes "wf_region r n" and "desc_of r n d i"
  shows "unat (fl_frame_headroom (rg_layout r)) \<le> unat (fd_addr d)"
    and "unat (fd_addr d) + unat (fl_mtu (rg_layout r)) \<le> unat (rg_len r)"
    and "unat (fd_addr d - fl_frame_headroom (rg_layout r))
      = i * frame_bytes (rg_layout r) + unat (fl_xdp_headroom (rg_layout r))"
proof -
  let ?l = "rg_layout r"
  have a: "unat (fd_addr d) = data_off ?l i" and i: "i < n"
    using assms by (simp_all add: desc_of_def)
  show le: "unat (fl_frame_headroom ?l) \<le> unat (fd_addr d)"
    by (simp add: a data_off_def)
  show "unat (fd_addr d) + unat (fl_mtu ?l) \<le> unat (rg_len r)"
    using frame_before [OF i, of "frame_bytes ?l"] assms(1)
    by (simp add: a data_off_def wf_region_def frame_bytes_def)
  show "unat (fd_addr d - fl_frame_headroom ?l)
      = i * frame_bytes ?l + unat (fl_xdp_headroom ?l)"
    using le by (simp add: unat_sub word_le_nat_alt a data_off_def)
qed

text \<open>Where the headroom segment of frame \<open>i\<close> starts.\<close>

definition headroom_off :: "FrameLayout \<Rightarrow> nat \<Rightarrow> nat" where
  "headroom_off l i = i * frame_bytes l + unat (fl_xdp_headroom l)"

lemma headroom_off_data_off: "headroom_off l i + unat (fl_frame_headroom l) = data_off l i"
  by (simp add: headroom_off_def data_off_def)

lemma frame_separate: "i < j \<Longrightarrow> data_off l i + unat (fl_mtu l) \<le> headroom_off l j"
  using frame_before [of i j "frame_bytes l"]
  by (simp add: data_off_def headroom_off_def frame_bytes_def)

lemma data_off_end: "i < n \<Longrightarrow> data_off l i + unat (fl_mtu l) \<le> n * frame_bytes l"
  using frame_before [of i n "frame_bytes l"] by (simp add: data_off_def frame_bytes_def)

text \<open>The pointers to the two segments, and that the segments lie inside the map.\<close>

lemma desc_pointers:
  assumes "wf_region r n" and "desc_of r n d i"
  shows "UmemRegion_headroom_ptr oc r d = Ret (fd_addr d - fl_frame_headroom (rg_layout r))"
    and "UmemRegion_data_ptr r d = Ret (fd_addr d)"
    and "unat (fd_addr d - fl_frame_headroom (rg_layout r)) = headroom_off (rg_layout r) i"
    and "unat (fd_addr d) = data_off (rg_layout r) i"
    and "headroom_off (rg_layout r) i + unat (fl_frame_headroom (rg_layout r))
      \<le> data_off (rg_layout r) i"
    and "data_off (rg_layout r) i + unat (fl_mtu (rg_layout r)) \<le> unat (rg_len r)"
proof -
  note b = desc_bounds [OF assms]
  show a: "unat (fd_addr d) = data_off (rg_layout r) i"
    using assms(2) by (simp add: desc_of_def)
  show h: "unat (fd_addr d - fl_frame_headroom (rg_layout r)) = headroom_off (rg_layout r) i"
    by (simp add: b(3) headroom_off_def)
  show "headroom_off (rg_layout r) i + unat (fl_frame_headroom (rg_layout r))
      \<le> data_off (rg_layout r) i"
    by (simp add: headroom_off_data_off)
  show e: "data_off (rg_layout r) i + unat (fl_mtu (rg_layout r)) \<le> unat (rg_len r)"
    using b(2) a by simp
  show "UmemRegion_data_ptr r d = Ret (fd_addr d)"
    using a e by (simp add: UmemRegion_data_ptr_def ptr_add_def)
  show "UmemRegion_headroom_ptr oc r d = Ret (fd_addr d - fl_frame_headroom (rg_layout r))"
    using b(1) h e headroom_off_data_off [of "rg_layout r" i]
    by (simp add: UmemRegion_headroom_ptr_def sub_oc_in_range word_le_nat_alt ptr_add_def)
qed

lemmas view_defs = UmemRegion_frame_def UmemRegion_headroom_def UmemRegion_data_def
  UmemRegion_frame_mut_def UmemRegion_headroom_mut_def UmemRegion_data_mut_def
  from_raw_parts_def Headroom_new_def Data_new_def HeadroomMut_new_def DataMut_new_def

text \<open>The bytes of frame \<open>i\<close>: what its two segments hold, up to the given lengths.\<close>

definition frame_view :: "FrameLayout \<Rightarrow> u8 list \<Rightarrow> nat \<Rightarrow> SegmentLengths \<Rightarrow> Headroom \<times> Data" where
  "frame_view l mem i len = (Headroom (seg mem (headroom_off l i) (unat (sl_headroom len))),
     Data (seg mem (data_off l i) (unat (sl_data len))))"

lemma UmemRegion_frame_view:
  assumes "wf_region r n" and "desc_of r n d i" and "length mem = unat (rg_len r)"
  shows "UmemRegion_frame oc r mem d = Ret (frame_view (rg_layout r) mem i (fd_lengths d))"
  using desc_pointers [OF assms(1,2)] assms(2,3)
  by (simp add: view_defs desc_of_def frame_view_def)

lemma UmemRegion_frame_mut_view:
  assumes "wf_region r n" and "desc_of r n d i" and "length mem = unat (rg_len r)"
  shows "UmemRegion_frame_mut oc r mem d =
      Ret (\<lparr>hm_len = sl_headroom (fd_lengths d),
            hm_buf = seg mem (headroom_off (rg_layout r) i) (unat (fl_frame_headroom (rg_layout r)))\<rparr>,
           \<lparr>dm_len = sl_data (fd_lengths d),
            dm_buf = seg mem (data_off (rg_layout r) i) (unat (fl_mtu (rg_layout r)))\<rparr>)"
  using desc_pointers [OF assms(1,2)] assms(3) by (simp add: view_defs)

text \<open>
  C28: for a descriptor of the region, reading or borrowing its frame is defined and does not
  panic, in either build profile. The views are the frame's own bytes: the current lengths
  of the two segments when reading, the whole segments when borrowing mutably.
\<close>

theorem UmemRegion_frame_defined:
  assumes "wf_region r n" and "desc_of r n d i" and "length mem = unat (rg_len r)"
  shows "UmemRegion_frame oc r mem d =
      Ret (Headroom (seg mem (headroom_off (rg_layout r) i) (unat (sl_headroom (fd_lengths d)))),
           Data (seg mem (data_off (rg_layout r) i) (unat (sl_data (fd_lengths d)))))
    \<and> (\<exists>h dt. UmemRegion_frame_mut oc r mem d = Ret (h, dt)
      \<and> hm_len h = sl_headroom (fd_lengths d) \<and> dm_len dt = sl_data (fd_lengths d)
      \<and> length (hm_buf h) = unat (fl_frame_headroom (rg_layout r))
      \<and> length (dm_buf dt) = unat (fl_mtu (rg_layout r))
      \<and> HeadroomMut_contents h = Ret (seg mem (headroom_off (rg_layout r) i)
          (unat (sl_headroom (fd_lengths d))))
      \<and> DataMut_contents dt = Ret (seg mem (data_off (rg_layout r) i)
          (unat (sl_data (fd_lengths d)))))"
proof -
  let ?h = "unat (fl_frame_headroom (rg_layout r))" and ?m = "unat (fl_mtu (rg_layout r))"
  have in_map: "headroom_off (rg_layout r) i + ?h \<le> length mem" "data_off (rg_layout r) i + ?m \<le> length mem"
    using desc_pointers(5,6) [OF assms(1,2)] assms(3) by simp_all
  have len: "unat (sl_headroom (fd_lengths d)) \<le> ?h" "unat (sl_data (fd_lengths d)) \<le> ?m"
    using assms(2) by (simp_all add: desc_of_def)
  show ?thesis
    unfolding UmemRegion_frame_view [OF assms] UmemRegion_frame_mut_view [OF assms]
    using len by (simp add: frame_view_def HeadroomMut_contents_def DataMut_contents_def slice_to_def
        length_seg_in [OF in_map(1)] length_seg_in [OF in_map(2)] take_seg del: length_seg)
qed

text \<open>A region of two frames of eight bytes, and a descriptor of its second frame.\<close>

definition ref_region :: UmemRegion where
  "ref_region = \<lparr>rg_layout = \<lparr>fl_xdp_headroom = 2, fl_frame_headroom = 2, fl_mtu = 4\<rparr>,
     rg_addr = 4096, rg_len = 16, rg_mmap = 0\<rparr>"

definition ref_desc :: FrameDesc where
  "ref_desc = \<lparr>fd_addr = 12, fd_options = 0, fd_lengths = \<lparr>sl_headroom = 1, sl_data = 3\<rparr>\<rparr>"

lemma ref_region_ok [simp]: "wf_region ref_region 2" "desc_of ref_region 2 ref_desc 1"
  "unat (rg_len ref_region) = 16"
  by (simp_all add: ref_region_def ref_desc_def wf_region_def wf_layout_def frame_bytes_def desc_of_def
    data_off_def)

theorem UmemRegion_frame_defined_witness:
  "UmemRegion_frame True ref_region [0, 1, 2, 3, 4, 5, 6, 7, 8, 9, 10, 11, 12, 13, 14, 15] ref_desc
    = Ret (Headroom [10], Data [12, 13, 14])"
proof -
  let ?mem = "[0, 1, 2, 3, 4, 5, 6, 7, 8, 9, 10, 11, 12, 13, 14, 15] :: u8 list"
  have len: "length ?mem = unat (rg_len ref_region)" by simp
  have "data_off (rg_layout ref_region) 1 = 12" "headroom_off (rg_layout ref_region) 1 = 10"
    "unat (sl_headroom (fd_lengths ref_desc)) = 1" "unat (sl_data (fd_lengths ref_desc)) = 3"
    by (simp_all add: ref_region_def ref_desc_def data_off_def headroom_off_def frame_bytes_def)
  with UmemRegion_frame_defined [OF ref_region_ok(1,2) len, of True] show ?thesis
    by (simp add: seg_def)
qed

section \<open>Frames do not overlap\<close>

text \<open>Storing a frame's two segments, as one map.\<close>

lemma frame_mut_back_eq:
  assumes "wf_region r n" and "desc_of r n d i"
  shows "frame_mut_back r mem d h dt =
    (overwrite (overwrite mem (headroom_off (rg_layout r) i) (hm_buf h))
       (data_off (rg_layout r) i) (dm_buf dt),
     d\<lparr>fd_lengths := \<lparr>sl_headroom = hm_len h, sl_data = dm_len dt\<rparr>\<rparr>)"
  using desc_pointers(3,4) [OF assms]
  by (simp add: frame_mut_back_def headroom_mut_back_def data_mut_back_def)

lemma frame_view_other:
  assumes "i \<noteq> j" and "length mem = n * frame_bytes l" and "i < n" and "j < n"
    and "length hb = unat (fl_frame_headroom l)" and "length db = unat (fl_mtu l)"
    and "unat (sl_headroom len) \<le> unat (fl_frame_headroom l)"
    and "unat (sl_data len) \<le> unat (fl_mtu l)"
  shows "frame_view l (overwrite (overwrite mem (headroom_off l i) hb) (data_off l i) db) j len
    = frame_view l mem j len"
proof -
  have fit: "data_off l i + unat (fl_mtu l) \<le> length mem" "data_off l j + unat (fl_mtu l) \<le> length mem"
    using data_off_end [of _ n l] assms(2-4) by simp_all
  have sep: "data_off l j + unat (fl_mtu l) \<le> headroom_off l i
      \<or> data_off l i + unat (fl_mtu l) \<le> headroom_off l j"
    using assms(1) frame_separate [of i j l] frame_separate [of j i l] by linarith
  show ?thesis
    using fit sep assms(5-8) headroom_off_data_off [of l i] headroom_off_data_off [of l j]
    by (auto simp: frame_view_def seg_simps)
qed

lemma frame_view_same:
  assumes "length mem = n * frame_bytes l" and "i < n"
    and "length hb = unat (fl_frame_headroom l)" and "length db = unat (fl_mtu l)"
    and "unat (sl_headroom len) \<le> unat (fl_frame_headroom l)"
    and "unat (sl_data len) \<le> unat (fl_mtu l)"
  shows "frame_view l (overwrite (overwrite mem (headroom_off l i) hb) (data_off l i) db) i len
    = (Headroom (take (unat (sl_headroom len)) hb), Data (take (unat (sl_data len)) db))"
proof -
  let ?m1 = "overwrite mem (headroom_off l i) hb"
  have fit: "data_off l i + unat (fl_mtu l) \<le> length mem"
    using data_off_end [of i n l] assms(1,2) by simp
  then have m1: "length ?m1 = length mem"
    using assms(3) headroom_off_data_off [of l i] by simp
  have "seg (overwrite ?m1 (data_off l i) db) (headroom_off l i) (unat (fl_frame_headroom l)) = hb"
    using fit m1 assms(3,4) headroom_off_data_off [of l i]
    by (simp add: seg_overwrite_disjoint seg_overwrite_same)
  moreover have "seg (overwrite ?m1 (data_off l i) db) (data_off l i) (unat (fl_mtu l)) = db"
    using fit m1 assms(4) by (simp add: seg_overwrite_same)
  ultimately show ?thesis
    using assms(5,6) by (metis frame_view_def take_seg)
qed

text \<open>
  C2: frames are isolated. Whatever a program stores through the mutable views of one
  frame (buffers of the same size, lengths within them) is what the next read of that
  frame returns, the descriptor still describes the frame, the map keeps its size, and
  every other frame reads as before.
\<close>

theorem frame_mut_isolated:
  assumes "wf_region r n" and "desc_of r n d i" and "length mem = unat (rg_len r)"
    and "length (hm_buf h) = unat (fl_frame_headroom (rg_layout r))"
    and "length (dm_buf dt) = unat (fl_mtu (rg_layout r))"
    and "unat (hm_len h) \<le> length (hm_buf h)" and "unat (dm_len dt) \<le> length (dm_buf dt)"
    and "frame_mut_back r mem d h dt = (mem', d')"
  shows "length mem' = length mem \<and> desc_of r n d' i
    \<and> UmemRegion_frame oc r mem' d'
      = Ret (Headroom (take (unat (hm_len h)) (hm_buf h)), Data (take (unat (dm_len dt)) (dm_buf dt)))
    \<and> (\<forall>e j. desc_of r n e j \<and> j \<noteq> i \<longrightarrow> UmemRegion_frame oc r mem' e = UmemRegion_frame oc r mem e)"
proof -
  let ?l = "rg_layout r"
  have mem': "mem' = overwrite (overwrite mem (headroom_off ?l i) (hm_buf h)) (data_off ?l i) (dm_buf dt)"
    and d': "d' = d\<lparr>fd_lengths := \<lparr>sl_headroom = hm_len h, sl_data = dm_len dt\<rparr>\<rparr>"
    using frame_mut_back_eq [OF assms(1,2), of mem h dt] assms(8) by simp_all
  have i: "i < n" and size: "length mem = n * frame_bytes ?l"
    using assms(1-3) by (simp_all add: desc_of_def wf_region_def)
  have fit: "data_off ?l i + unat (fl_mtu ?l) \<le> length mem"
    using data_off_end [OF i] size by simp
  then have len: "length mem' = length mem"
    using assms(4,5) headroom_off_data_off [of ?l i] by (simp add: mem')
  have desc: "desc_of r n d' i"
    using assms(2,4-7) by (simp add: desc_of_def d')
  have same: "UmemRegion_frame oc r mem' d'
      = Ret (Headroom (take (unat (hm_len h)) (hm_buf h)), Data (take (unat (dm_len dt)) (dm_buf dt)))"
  proof -
    have "UmemRegion_frame oc r mem' d' = Ret (frame_view ?l mem' i (fd_lengths d'))"
      using len assms(3) by (intro UmemRegion_frame_view [OF assms(1) desc]) simp
    then show ?thesis
      using assms(4-7) frame_view_same [OF size i assms(4,5), of "fd_lengths d'"]
      by (simp add: mem' d')
  qed
  have "UmemRegion_frame oc r mem' e = UmemRegion_frame oc r mem e"
    if e: "desc_of r n e j" and "j \<noteq> i" for e j
    using that len assms(3) frame_view_other [of i j mem n ?l "hm_buf h" "dm_buf dt" "fd_lengths e"]
      size i assms(4,5)
    by (simp add: UmemRegion_frame_view [OF assms(1) e] mem' desc_of_def)
  with len desc same show ?thesis by blast
qed

theorem frame_mut_isolated_witness:
  "let (mem', d') = frame_mut_back ref_region (replicate 16 0) ref_desc
        \<lparr>hm_len = 1, hm_buf = [7, 0]\<rparr> \<lparr>dm_len = 2, dm_buf = [8, 9, 0, 0]\<rparr>
   in length mem' = 16 \<and> UmemRegion_frame True ref_region mem' d' = Ret (Headroom [7], Data [8, 9])"
proof -
  let ?h = "\<lparr>hm_len = 1, hm_buf = [7, 0]\<rparr>" and ?d = "\<lparr>dm_len = 2, dm_buf = [8, 9, 0, 0]\<rparr>"
  obtain mem' d' where b: "frame_mut_back ref_region (replicate 16 0) ref_desc ?h ?d = (mem', d')"
    by (rule prod.exhaust)
  have "length (replicate 16 0 :: u8 list) = unat (rg_len ref_region)"
    "length (hm_buf ?h) = unat (fl_frame_headroom (rg_layout ref_region))"
    "length (dm_buf ?d) = unat (fl_mtu (rg_layout ref_region))"
    "unat (hm_len ?h) \<le> length (hm_buf ?h)" "unat (dm_len ?d) \<le> length (dm_buf ?d)"
    by (simp_all add: ref_region_def)
  from frame_mut_isolated [OF ref_region_ok(1,2) this b, of True] b show ?thesis by simp
qed

end
