(* ===== verification/Xsk_Trace.thy ===== *)
theory Xsk_Trace
  imports Xsk_Foreign
begin

text \<open>
  The calls that acquire and release foreign resources, as a trace. Every operation of the
  model is polymorphic in the world, so it can run in a world paired with the list of the
  calls made so far: \<open>traced_libc L\<close> and \<open>traced_libxdp X\<close> behave as \<open>L\<close> and \<open>X\<close> and
  record each successful acquisition and each release. Statements about leaks and about the
  order of releases are statements about this list.
\<close>

text \<open>
  Creating a UMEM is recorded with the address of the memory it was given, creating a socket
  with the UMEM it was created on.
\<close>

datatype foreign_call =
    MmapCall ptr usize
  | MunmapCall ptr usize
  | UmemCreateCall ptr ptr
  | UmemDeleteCall ptr
  | SocketCreateCall ptr ptr
  | SocketDeleteCall ptr

type_synonym 'w traced = "'w \<times> foreign_call list"

definition traced_libc :: "'w libc \<Rightarrow> 'w traced libc" where
  "traced_libc L = \<lparr>
     mmap = (\<lambda>(w, t) a n p f fd off. let (r, w') = mmap L w a n p f fd off
       in (r, w', if r = MAP_FAILED L then t else t @ [MmapCall r n])),
     munmap = (\<lambda>(w, t) a n. let (r, w') = munmap L w a n in (r, w', t @ [MunmapCall a n])),
     poll = (\<lambda>(w, t) p n ms. let (r, p', w') = poll L w p n ms in (r, p', w', t)),
     sendto = (\<lambda>(w, t) fd b n f a al. let (r, w') = sendto L w fd b n f a al in (r, w', t)),
     getsockopt = (\<lambda>(w, t) fd lv opt s n. let (r, s', n', w') = getsockopt L w fd lv opt s n
       in (r, s', n', w', t)),
     errno = (\<lambda>(w, t). errno L w),
     MAP_FAILED = MAP_FAILED L, MAP_ANONYMOUS = MAP_ANONYMOUS L, MAP_SHARED = MAP_SHARED L,
     MAP_POPULATE = MAP_POPULATE L, MAP_HUGETLB = MAP_HUGETLB L, PROT_READ = PROT_READ L,
     PROT_WRITE = PROT_WRITE L, POLLIN = POLLIN L, POLLOUT = POLLOUT L,
     MSG_DONTWAIT = MSG_DONTWAIT L, SOL_XDP = SOL_XDP L, EINTR = EINTR L, ENOBUFS = ENOBUFS L,
     EAGAIN = EAGAIN L, EBUSY = EBUSY L, ENETDOWN = ENETDOWN L\<rparr>"

definition traced_libxdp :: "'w libxdp \<Rightarrow> 'w traced libxdp" where
  "traced_libxdp X = \<lparr>
     reserve = (\<lambda>(w, t) r nb i. let (c, i', r', w') = reserve X w r nb i in (c, i', r', w', t)),
     fill_addr_set = (\<lambda>(w, t) r i a. (fill_addr_set X w r i a, t)),
     tx_desc_get = (\<lambda>(w, t) r i. tx_desc_get X w r i),
     tx_desc_set = (\<lambda>(w, t) r i d. (tx_desc_set X w r i d, t)),
     submit = (\<lambda>(w, t) r nb. let (r', w') = submit X w r nb in (r', w', t)),
     prod_needs_wakeup = (\<lambda>(w, t) r. prod_needs_wakeup X w r),
     peek = (\<lambda>(w, t) r nb i. let (c, i', r', w') = peek X w r nb i in (c, i', r', w', t)),
     comp_addr_get = (\<lambda>(w, t) r i. comp_addr_get X w r i),
     rx_desc_get = (\<lambda>(w, t) r i. rx_desc_get X w r i),
     release = (\<lambda>(w, t) r nb. let (r', w') = release X w r nb in (r', w', t)),
     umem_create = (\<lambda>(w, t) p a n fq cq c. let (e, p', fq', cq', w') = umem_create X w p a n fq cq c
       in (e, p', fq', cq', w', if e = 0 \<and> p' \<noteq> 0 then t @ [UmemCreateCall p' a] else t)),
     umem_delete = (\<lambda>(w, t) p. let (e, w') = umem_delete X w p in (e, w', t @ [UmemDeleteCall p])),
     socket_create_shared = (\<lambda>(w, t) p i q u rx tx fq cq c.
       let (e, p', rx', tx', fq', cq', w') = socket_create_shared X w p i q u rx tx fq cq c
       in (e, p', rx', tx', fq', cq', w', if e = 0 \<and> p' \<noteq> 0 then t @ [SocketCreateCall p' u] else t)),
     socket_fd = (\<lambda>(w, t) p. socket_fd X w p),
     socket_delete = (\<lambda>(w, t) p. (socket_delete X w p, t @ [SocketDeleteCall p])),
     XDP_PACKET_HEADROOM = XDP_PACKET_HEADROOM X,
     XSK_RING_CONS_DEFAULT_NUM_DESCS = XSK_RING_CONS_DEFAULT_NUM_DESCS X,
     XSK_RING_PROD_DEFAULT_NUM_DESCS = XSK_RING_PROD_DEFAULT_NUM_DESCS X,
     XSK_UMEM_DEFAULT_FRAME_HEADROOM = XSK_UMEM_DEFAULT_FRAME_HEADROOM X,
     XSK_UMEM_DEFAULT_FRAME_SIZE = XSK_UMEM_DEFAULT_FRAME_SIZE X,
     XDP_STATISTICS = XDP_STATISTICS X, XDP_STATISTICS_SIZEOF = XDP_STATISTICS_SIZEOF X\<rparr>"

text \<open>What the traced interface records, call by call.\<close>

lemma traced_simps [simp]:
  "MAP_FAILED (traced_libc L) = MAP_FAILED L"
  "mmap (traced_libc L) (w, t) a n prot flags fd off = (let (r, w') = mmap L w a n prot flags fd off
     in (r, w', if r = MAP_FAILED L then t else t @ [MmapCall r n]))"
  "munmap (traced_libc L) (w, t) a n
     = (let (r, w') = munmap L w a n in (r, w', t @ [MunmapCall a n]))"
  "umem_create (traced_libxdp X) (w, t) p a n fq cq c
     = (let (e, p', fq', cq', w') = umem_create X w p a n fq cq c
        in (e, p', fq', cq', w', if e = 0 \<and> p' \<noteq> 0 then t @ [UmemCreateCall p' a] else t))"
  "umem_delete (traced_libxdp X) (w, t) p
     = (let (e, w') = umem_delete X w p in (e, w', t @ [UmemDeleteCall p]))"
  "socket_create_shared (traced_libxdp X) (w, t) p i q u rx tx fq cq sc
     = (let (e, p', rx', tx', fq', cq', w') = socket_create_shared X w p i q u rx tx fq cq sc
        in (e, p', rx', tx', fq', cq', w', if e = 0 \<and> p' \<noteq> 0 then t @ [SocketCreateCall p' u] else t))"
  "socket_fd (traced_libxdp X) (w, t) p = socket_fd X w p"
  "socket_delete (traced_libxdp X) (w, t) p = (socket_delete X w p, t @ [SocketDeleteCall p])"
  "XDP_PACKET_HEADROOM (traced_libxdp X) = XDP_PACKET_HEADROOM X"
  by (simp_all add: traced_libc_def traced_libxdp_def)

end
