(* ===== verification/Xsk_Umem.thy ===== *)
theory Xsk_Umem
  imports Xsk_Mem Xsk_Ring Xsk_Trace
begin

text \<open>
  \<^verbatim>\<open>src/umem/mod.rs\<close>: creating, cloning and dropping a UMEM, the frame accessors of the
  public interface and the queues saved for the first socket. A \<open>Umem\<close> value is a pair of
  reference-counted handles (the libxdp object with its saved queues, and the memory map);
  the store holds the world and the arenas the handles point into. The store is a record
  that the socket theory extends, so the operations here are stated for any extension.
\<close>

section \<open>State\<close>

datatype XskUmem = XskUmem ptr

definition XskUmem_new :: "ptr \<Rightarrow> XskUmem" where
  "XskUmem_new p = XskUmem p"

primrec XskUmem_as_mut_ptr :: "XskUmem \<Rightarrow> ptr" where
  "XskUmem_as_mut_ptr (XskUmem p) = p"

text \<open>A failing delete is logged and otherwise ignored.\<close>

primrec XskUmem_drop :: "'w libxdp \<Rightarrow> 'w \<Rightarrow> XskUmem \<Rightarrow> 'w" where
  "XskUmem_drop X w (XskUmem p) = snd (umem_delete X w p)"

record UmemInner =
  ui_ptr :: XskUmem
  ui_saved_fq_and_cq :: "(XskRingProd \<times> XskRingCons) option"

definition UmemInner_new :: "XskUmem \<Rightarrow> (XskRingProd \<times> XskRingCons) option \<Rightarrow> UmemInner" where
  "UmemInner_new p saved = \<lparr>ui_ptr = p, ui_saved_fq_and_cq = saved\<rparr>"

record Umem =
  um_inner :: nat
  um_mem :: UmemRegion

record UmemCreateError =
  ue_reason :: string
  ue_err :: io_error

record 'w umem_store =
  us_world :: 'w
  us_maps :: "Mmap arena"
  us_umems :: "UmemInner arena"

section \<open>Creation\<close>

text \<open>The loop that computes the descriptors: frame \<open>i\<close> and the \<open>k\<close> frames from it on.\<close>

fun frame_descs_from :: "bool \<Rightarrow> FrameLayout \<Rightarrow> usize \<Rightarrow> nat \<Rightarrow> FrameDesc list rust" where
  "frame_descs_from oc l i 0 = Ret []"
| "frame_descs_from oc l i (Suc k) =
     rbind (FrameLayout_frame_size oc l) (\<lambda>fs.
     rbind (mul_oc oc i fs) (\<lambda>a.
     rbind (add_oc oc a (fl_xdp_headroom l)) (\<lambda>b.
     rbind (add_oc oc b (fl_frame_headroom l)) (\<lambda>addr.
     rbind (frame_descs_from oc l (i + 1) k) (\<lambda>ds.
       Ret (FrameDesc_new addr # ds))))))"

text \<open>The region of a UMEM that could not be created goes out of scope.\<close>

definition drop_region :: "'w libc \<Rightarrow> ('w, 'z) umem_store_scheme \<Rightarrow> UmemRegion
    \<Rightarrow> ('w, 'z) umem_store_scheme" where
  "drop_region L st r = (let (maps', w') = UmemRegion_drop L (us_world st) (us_maps st) r
     in st\<lparr>us_world := w', us_maps := maps'\<rparr>)"

definition drop_xsk_umem :: "'w libxdp \<Rightarrow> ('w, 'z) umem_store_scheme \<Rightarrow> XskUmem
    \<Rightarrow> ('w, 'z) umem_store_scheme" where
  "drop_xsk_umem X st p = st\<lparr>us_world := XskUmem_drop X (us_world st) p\<rparr>"

text \<open>
  Every early return drops what the function holds at that point, in the reverse order of
  declaration: the libxdp object, if it exists, and then the region.
\<close>

definition Umem_new :: "bool \<Rightarrow> 'w libc \<Rightarrow> 'w libxdp \<Rightarrow> ('w, 'z) umem_store_scheme
    \<Rightarrow> UmemConfig \<Rightarrow> u32 \<Rightarrow> bool
    \<Rightarrow> ((UmemCreateError + Umem \<times> FrameDesc list) \<times> ('w, 'z) umem_store_scheme) rust" where
  "Umem_new oc L X st config frame_count use_huge_pages =
    rbind (FrameLayout_from oc X config) (\<lambda>layout.
    rbind (UmemRegion_new oc L (us_world st) (us_maps st) frame_count layout use_huge_pages)
      (\<lambda>(res, maps, w). case res of
        Inl e \<Rightarrow> Ret (Inl \<lparr>ue_reason = ''failed to create mmap'd UMEM region'', ue_err = e\<rparr>,
                   st\<lparr>us_world := w, us_maps := maps\<rparr>)
      | Inr mem \<Rightarrow>
         (let (err, umem_ptr, fq, cq, w') = umem_create X w null (UmemRegion_as_ptr mem)
                (UmemRegion_len mem) (XskRingProd_as_mut default) (XskRingCons_as_mut default)
                (UmemConfig_into_xsk config);
              fq = XskRingProd fq; cq = XskRingCons cq;
              st1 = st\<lparr>us_world := w', us_maps := maps\<rparr>
          in if err \<noteq> 0 then rbind (neg_oc oc err) (\<lambda>e.
               Ret (Inl \<lparr>ue_reason = ''non-zero error code returned when creating UMEM'',
                      ue_err = OsError e\<rparr>, drop_region L st1 mem))
             else if is_null umem_ptr then rbind (neg_oc oc err) (\<lambda>e.
               Ret (Inl \<lparr>ue_reason = ''UMEM is null'', ue_err = OsError e\<rparr>,
                    drop_region L st1 mem))
             else (let p = XskUmem_new umem_ptr in
               if XskRingProd_is_ring_null fq then rbind (neg_oc oc err) (\<lambda>e.
                 Ret (Inl \<lparr>ue_reason = ''fill queue ring is null'', ue_err = OsError e\<rparr>,
                      drop_region L (drop_xsk_umem X st1 p) mem))
               else if XskRingCons_is_ring_null cq then rbind (neg_oc oc err) (\<lambda>e.
                 Ret (Inl \<lparr>ue_reason = ''comp queue ring is null'', ue_err = OsError e\<rparr>,
                      drop_region L (drop_xsk_umem X st1 p) mem))
               else rbind (frame_descs_from oc layout 0 (unat (ucast frame_count :: usize)))
                 (\<lambda>descs.
                   let (i, umems) = arc_new (us_umems st1) (UmemInner_new p (Some (fq, cq)))
                   in Ret (Inr (\<lparr>um_inner = i, um_mem = mem\<rparr>, descs),
                           st1\<lparr>us_umems := umems\<rparr>))))))"

section \<open>Clone and drop\<close>

definition Umem_clone :: "('w, 'z) umem_store_scheme \<Rightarrow> Umem
    \<Rightarrow> Umem \<times> ('w, 'z) umem_store_scheme" where
  "Umem_clone st u = (let (r, maps) = UmemRegion_clone (us_maps st) (um_mem u)
     in (\<lparr>um_inner = um_inner u, um_mem = r\<rparr>,
         st\<lparr>us_umems := arc_clone (us_umems st) (um_inner u), us_maps := maps\<rparr>))"

text \<open>The fields are dropped in declaration order: first \<open>inner\<close>, then \<open>mem\<close>.\<close>

definition Umem_drop :: "'w libc \<Rightarrow> 'w libxdp \<Rightarrow> ('w, 'z) umem_store_scheme \<Rightarrow> Umem
    \<Rightarrow> ('w, 'z) umem_store_scheme" where
  "Umem_drop L X st u = (let (v, umems) = arc_drop (us_umems st) (um_inner u);
       st1 = st\<lparr>us_umems := umems\<rparr>;
       st2 = (case v of None \<Rightarrow> st1 | Some ui \<Rightarrow> drop_xsk_umem X st1 (ui_ptr ui))
     in drop_region L st2 (um_mem u))"

section \<open>Access\<close>

definition Umem_frame :: "bool \<Rightarrow> Umem \<Rightarrow> u8 list \<Rightarrow> FrameDesc \<Rightarrow> (Headroom \<times> Data) rust" where
  "Umem_frame oc u mem d = UmemRegion_frame oc (um_mem u) mem d"

definition Umem_headroom :: "bool \<Rightarrow> Umem \<Rightarrow> u8 list \<Rightarrow> FrameDesc \<Rightarrow> Headroom rust" where
  "Umem_headroom oc u mem d = UmemRegion_headroom oc (um_mem u) mem d"

definition Umem_data :: "Umem \<Rightarrow> u8 list \<Rightarrow> FrameDesc \<Rightarrow> Data rust" where
  "Umem_data u mem d = UmemRegion_data (um_mem u) mem d"

definition Umem_frame_mut
  :: "bool \<Rightarrow> Umem \<Rightarrow> u8 list \<Rightarrow> FrameDesc \<Rightarrow> (HeadroomMut \<times> DataMut) rust" where
  "Umem_frame_mut oc u mem d = UmemRegion_frame_mut oc (um_mem u) mem d"

definition Umem_headroom_mut :: "bool \<Rightarrow> Umem \<Rightarrow> u8 list \<Rightarrow> FrameDesc \<Rightarrow> HeadroomMut rust" where
  "Umem_headroom_mut oc u mem d = UmemRegion_headroom_mut oc (um_mem u) mem d"

definition Umem_data_mut :: "Umem \<Rightarrow> u8 list \<Rightarrow> FrameDesc \<Rightarrow> DataMut rust" where
  "Umem_data_mut u mem d = UmemRegion_data_mut (um_mem u) mem d"

text \<open>
  The closure runs with the lock held, on the pointer and the saved queues, which it may
  replace; it also runs foreign code, so it takes and returns the world.
\<close>

definition with_ptr_and_saved_queues :: "('w, 'z) umem_store_scheme \<Rightarrow> Umem
    \<Rightarrow> ('w \<Rightarrow> ptr \<Rightarrow> (XskRingProd \<times> XskRingCons) option
        \<Rightarrow> 'a \<times> (XskRingProd \<times> XskRingCons) option \<times> 'w)
    \<Rightarrow> ('a \<times> ('w, 'z) umem_store_scheme) rust" where
  "with_ptr_and_saved_queues st u f = (case arc_get (us_umems st) (um_inner u) of
     None \<Rightarrow> UB
   | Some ui \<Rightarrow> (let (a, saved, w) = f (us_world st) (XskUmem_as_mut_ptr (ui_ptr ui))
                       (ui_saved_fq_and_cq ui)
       in Ret (a, st\<lparr>us_world := w,
            us_umems := arc_set (us_umems st) (um_inner u) (ui\<lparr>ui_saved_fq_and_cq := saved\<rparr>)\<rparr>)))"

definition UmemCreateError_fmt :: "UmemCreateError \<Rightarrow> string" where
  "UmemCreateError_fmt e = ue_reason e"

definition UmemCreateError_source :: "UmemCreateError \<Rightarrow> io_error option" where
  "UmemCreateError_source e = Some (ue_err e)"

section \<open>The descriptors of a new UMEM\<close>

lemma frame_addr_computed:
  assumes "wf_layout l" and "i < 2 ^ 32"
  shows "\<exists>fs. FrameLayout_frame_size oc l = Ret fs
    \<and> mul_oc oc (of_nat i) fs = Ret (of_nat i * fs)
    \<and> add_oc oc (of_nat i * fs) (fl_xdp_headroom l) = Ret (of_nat i * fs + fl_xdp_headroom l)
    \<and> add_oc oc (of_nat i * fs + fl_xdp_headroom l) (fl_frame_headroom l)
      = Ret (of_nat i * fs + fl_xdp_headroom l + fl_frame_headroom l)
    \<and> unat (of_nat i * fs + fl_xdp_headroom l + fl_frame_headroom l) = data_off l i"
proof -
  obtain fs where fs: "FrameLayout_frame_size oc l = Ret fs" and bytes: "unat fs = frame_bytes l"
    using FrameLayout_frame_size_wf [OF assms(1)] by blast
  have i: "unat (of_nat i :: usize) = i" using assms(2) by (simp add: unat_of_nat_u64)
  have "i * frame_bytes l + frame_bytes l \<le> 2 ^ 32 * frame_bytes l"
    using frame_before [OF assms(2)] .
  also have "\<dots> < 2 ^ 64"
    using assms(1) by (simp add: wf_layout_def)
  finally have b: "i * frame_bytes l + frame_bytes l < 2 ^ 64" .
  then have m: "unat (of_nat i * fs) = i * frame_bytes l"
    using i bytes by (simp add: unat_mul_in_range)
  then have a: "unat (of_nat i * fs + fl_xdp_headroom l) = i * frame_bytes l + unat (fl_xdp_headroom l)"
    using b by (simp add: unat_add_in_range frame_bytes_def)
  then have "unat (of_nat i * fs + fl_xdp_headroom l + fl_frame_headroom l) = data_off l i"
    using b by (simp add: unat_add_in_range frame_bytes_def data_off_def)
  then show ?thesis
    using fs i bytes b m a by (simp add: rust_arith frame_bytes_def)
qed

lemma frame_descs_from_ok:
  assumes "wf_layout l" and "i + k \<le> 2 ^ 32"
  shows "\<exists>ds. frame_descs_from oc l (of_nat i) k = Ret ds \<and> length ds = k
    \<and> (\<forall>j<k. ds ! j = FrameDesc_new (of_nat (data_off l (i + j))))"
  using assms(2)
proof (induction k arbitrary: i)
  case 0
  then show ?case by simp
next
  case (Suc k)
  then have "i < 2 ^ 32" by simp
  then obtain fs where fs: "FrameLayout_frame_size oc l = Ret fs"
    "mul_oc oc (of_nat i) fs = Ret (of_nat i * fs)"
    "add_oc oc (of_nat i * fs) (fl_xdp_headroom l) = Ret (of_nat i * fs + fl_xdp_headroom l)"
    "add_oc oc (of_nat i * fs + fl_xdp_headroom l) (fl_frame_headroom l)
      = Ret (of_nat i * fs + fl_xdp_headroom l + fl_frame_headroom l)"
    and addr: "unat (of_nat i * fs + fl_xdp_headroom l + fl_frame_headroom l) = data_off l i"
    using frame_addr_computed [OF assms(1)] by blast
  have a: "of_nat i * fs + fl_xdp_headroom l + fl_frame_headroom l = of_nat (data_off l i)"
    by (simp flip: addr)
  have "Suc i + k \<le> 2 ^ 32" using Suc.prems by simp
  from Suc.IH [OF this] obtain ds where ds: "frame_descs_from oc l (of_nat (Suc i)) k = Ret ds"
    "length ds = k" "\<forall>j<k. ds ! j = FrameDesc_new (of_nat (data_off l (Suc i + j)))" by blast
  have idx: "(of_nat i + 1 :: usize) = of_nat (Suc i)" by (simp add: add.commute)
  have "frame_descs_from oc l (of_nat i) (Suc k) = Ret (FrameDesc_new (of_nat (data_off l i)) # ds)"
    by (simp only: frame_descs_from.simps fs rbind.simps a idx ds(1))
  then show ?case
    using ds(2,3) by (auto simp: nth_Cons split: nat.splits)
qed

text \<open>The region of a new UMEM: its size, and the fresh handle of its map.\<close>

lemma UmemRegion_new_ok:
  assumes "wf_layout l"
    and "UmemRegion_new oc L w maps fc l huge = Ret (Inr r, maps', w')"
  shows "wf_region r (unat fc) \<and> rg_layout r = l
    \<and> arc_new maps \<lparr>mm_addr = rg_addr r, mm_len = rg_len r\<rparr> = (rg_mmap r, maps')"
proof -
  obtain fs where fs: "FrameLayout_frame_size oc l = Ret fs" and bytes: "unat fs = frame_bytes l"
    using FrameLayout_frame_size_wf [OF assms(1)] by blast
  have "unat fc * frame_bytes l < 2 ^ 32 * 2 ^ 32"
    using assms(1) unat_u32_bound [of fc] by (intro mult_strict_mono) (simp_all add: wf_layout_def)
  then have m: "mul_oc oc (ucast fc) fs = Ret (ucast fc * fs)"
    and len: "unat (ucast fc * fs :: usize) = unat fc * frame_bytes l"
    using bytes by (simp_all add: rust_arith unat_mul_in_range)
  from assms(2) show ?thesis
    by (auto simp: UmemRegion_new_def fs m Mmap_new_def Let_def Mmap_addr_def wf_region_def assms(1)
        len rbind_Ret_iff split: prod.splits if_splits sum.splits)
qed

text \<open>What a successful creation went through.\<close>

lemma Umem_new_success:
  assumes l: "FrameLayout_from oc X c = Ret l"
    and new: "Umem_new oc L X st c fc huge = Ret (Inr (u, descs), st')"
  shows "\<exists>maps w p fq cq w'.
    UmemRegion_new oc L (us_world st) (us_maps st) fc l huge = Ret (Inr (um_mem u), maps, w)
    \<and> umem_create X w 0 (UmemRegion_as_ptr (um_mem u)) (UmemRegion_len (um_mem u))
        (XskRingProd_as_mut default) (XskRingCons_as_mut default) (UmemConfig_into_xsk c)
      = (0, p, fq, cq, w')
    \<and> p \<noteq> 0 \<and> rp_ring fq \<noteq> 0 \<and> rc_ring cq \<noteq> 0
    \<and> frame_descs_from oc l 0 (unat (ucast fc :: usize)) = Ret descs
    \<and> arc_new (us_umems st) (UmemInner_new (XskUmem p) (Some (XskRingProd fq, XskRingCons cq)))
      = (um_inner u, us_umems st')
    \<and> st' = st\<lparr>us_world := w', us_maps := maps, us_umems := us_umems st'\<rparr>"
proof -
  from new obtain res maps w
    where r: "UmemRegion_new oc L (us_world st) (us_maps st) fc l huge = Ret (res, maps, w)"
    by (auto simp: Umem_new_def l rbind_Ret_iff)
  with new obtain mem where res: "res = Inr mem"
    by (cases res) (auto simp: Umem_new_def l)
  obtain err p fq cq w' where uc: "umem_create X w 0 (UmemRegion_as_ptr mem) (UmemRegion_len mem)
      (XskRingProd_as_mut default) (XskRingCons_as_mut default) (UmemConfig_into_xsk c)
    = (err, p, fq, cq, w')" by (rule prod_cases5)
  obtain i umems where an: "arc_new (us_umems st)
      (UmemInner_new (XskUmem p) (Some (XskRingProd fq, XskRingCons cq))) = (i, umems)"
    by (rule prod.exhaust)
  from new show ?thesis
    by (auto simp: Umem_new_def l r res uc an Let_def rbind_Ret_iff XskUmem_new_def
        split: if_splits)
qed

lemma Umem_new_frames:
  assumes "wf_UmemConfig X c"
    and "Umem_new oc L X st c frame_count huge = Ret (Inr (u, descs), st')"
  shows "wf_region (um_mem u) (unat frame_count) \<and> length descs = unat frame_count
    \<and> frame_bytes (rg_layout (um_mem u)) = unat (FrameSize_get (frame_size c))
    \<and> (\<forall>i<unat frame_count. desc_of (um_mem u) (unat frame_count) (descs ! i) i
         \<and> unat (fd_addr (descs ! i)) = i * unat (FrameSize_get (frame_size c))
             + unat (XDP_PACKET_HEADROOM X) + unat (frame_headroom c))"
proof -
  obtain l where l: "FrameLayout_from oc X c = Ret l" and wf: "wf_layout l"
    and bytes: "frame_bytes l = unat (FrameSize_get (frame_size c))"
    and head: "fl_xdp_headroom l = ucast (XDP_PACKET_HEADROOM X)"
      "fl_frame_headroom l = ucast (frame_headroom c)"
    using FrameLayout_from_ok [OF assms(1), of oc] by blast
  obtain ds where ds: "frame_descs_from oc l 0 (unat frame_count) = Ret ds"
    "length ds = unat frame_count"
    "\<forall>j<unat frame_count. ds ! j = FrameDesc_new (of_nat (data_off l j))"
    using frame_descs_from_ok [OF wf, of 0 "unat frame_count" oc] unat_u32_bound [of frame_count]
    by auto
  obtain maps w where
    r: "UmemRegion_new oc L (us_world st) (us_maps st) frame_count l huge = Ret (Inr (um_mem u), maps, w)"
    and "descs = ds"
    using Umem_new_success [OF l assms(2)] ds(1) by auto
  have reg: "wf_region (um_mem u) (unat frame_count)" "rg_layout (um_mem u) = l"
    using UmemRegion_new_ok [OF wf r] by simp_all
  have off: "data_off l i < 2 ^ 64" if "i < unat frame_count" for i
    using that data_off_end [of i "unat frame_count" l] reg unat_u64_bound [of "rg_len (um_mem u)"]
    by (simp add: wf_region_def)
  have "unat (fd_addr (descs ! i)) = data_off l i \<and> fd_lengths (descs ! i) = SegmentLengths_default"
    if "i < unat frame_count" for i
    using that ds(3) off \<open>descs = ds\<close> by (simp add: FrameDesc_new_def unat_of_nat_u64)
  with reg ds(2) bytes head \<open>descs = ds\<close> show ?thesis
    by (simp add: desc_of_def SegmentLengths_default_def data_off_def)
qed

text \<open>
  C1: a UMEM created from a well-formed configuration comes with one descriptor per frame:
  descriptor \<open>i\<close> is the address of the data segment of frame \<open>i\<close>, with empty segments, and
  the region holds exactly the frames. No address overflows, in either build profile.
\<close>

theorem Umem_new_descs:
  assumes "wf_UmemConfig X c"
    and "Umem_new oc L X st c frame_count huge = Ret (Inr (u, descs), st')"
  shows "wf_region (um_mem u) (unat frame_count) \<and> length descs = unat frame_count
    \<and> frame_bytes (rg_layout (um_mem u)) = unat (FrameSize_get (frame_size c))
    \<and> (\<forall>i<unat frame_count. desc_of (um_mem u) (unat frame_count) (descs ! i) i
         \<and> unat (fd_addr (descs ! i)) = i * unat (FrameSize_get (frame_size c))
             + unat (XDP_PACKET_HEADROOM X) + unat (frame_headroom c))"
  using assms by (rule Umem_new_frames)

text \<open>A store with nothing in it.\<close>

definition ref_store :: "'w \<Rightarrow> 'w umem_store" where
  "ref_store w = \<lparr>us_world = w, us_maps = arena_empty, us_umems = arena_empty\<rparr>"

lemma ref_layout: "\<exists>l. FrameLayout_from False X (UmemConfig_default X') = Ret l"
  by (simp add: FrameLayout_from_def UmemConfig_mtu_def)

lemma ref_region_new:
  "\<exists>mem maps'. UmemRegion_new False ref_libc w maps n l huge = Ret (Inr mem, maps', w)"
  "\<exists>mem maps' t'. UmemRegion_new False (traced_libc ref_libc) (w, t) maps n l huge = Ret (Inr mem, maps', w, t')"
  by (simp_all add: UmemRegion_new_def FrameLayout_frame_size_def Mmap_new_def arc_new_def Let_def)

lemma frame_descs_release: "\<exists>ds. frame_descs_from False l i k = Ret ds"
  by (induction k arbitrary: i) (auto simp: FrameLayout_frame_size_def rbind_Ret_iff)

theorem Umem_new_descs_witness:
  "\<exists>u descs st'. Umem_new False ref_libc ref_libxdp (ref_store ref_zero)
      (UmemConfig_default ref_libxdp) 2 False = Ret (Inr (u, descs), st')
    \<and> length descs = 2 \<and> unat (fd_addr (descs ! 1)) = 4352"
proof -
  have wf: "wf_UmemConfig ref_libxdp (UmemConfig_default ref_libxdp)"
    by (simp add: wf_UmemConfig_def UmemConfig_default_def ref_libxdp_def)
  have "\<exists>u descs st'. Umem_new False ref_libc ref_libxdp (ref_store ref_zero)
      (UmemConfig_default ref_libxdp) 2 False = Ret (Inr (u, descs), st')"
  proof -
    obtain l where l: "FrameLayout_from False ref_libxdp (UmemConfig_default ref_libxdp) = Ret l"
      using ref_layout by blast
    obtain mem maps where r: "UmemRegion_new False ref_libc ref_zero arena_empty 2 l False
        = Ret (Inr mem, maps, ref_zero)" using ref_region_new(1) [of ref_zero arena_empty 2 l False] by blast
    obtain ds where "frame_descs_from False l 0 (unat (ucast (2 :: u32) :: usize)) = Ret ds"
      using frame_descs_release by blast
    then show ?thesis
      by (simp add: Umem_new_def ref_store_def l r ref_prod_def ref_cons_def Let_def arc_new_def)
  qed
  then obtain u descs st' where run: "Umem_new False ref_libc ref_libxdp (ref_store ref_zero)
      (UmemConfig_default ref_libxdp) 2 False = Ret (Inr (u, descs), st')" by blast
  have "unat (FrameSize_get (frame_size (UmemConfig_default ref_libxdp))) = 4096"
    "unat (XDP_PACKET_HEADROOM ref_libxdp) = 256" "unat (frame_headroom (UmemConfig_default ref_libxdp)) = 0"
    by (simp_all add: UmemConfig_default_def ref_libxdp_def)
  with Umem_new_descs [OF wf run] run show ?thesis by simp
qed

section \<open>Failed creations leave nothing behind\<close>

lemma UmemRegion_new_traced:
  assumes "UmemRegion_new oc (traced_libc L) (w, t) maps fc l huge = Ret (res, maps', wt)"
  shows "case res of
      Inl e \<Rightarrow> snd wt = t \<and> maps' = maps
    | Inr r \<Rightarrow> snd wt = t @ [MmapCall (rg_addr r) (rg_len r)]
        \<and> arc_new maps \<lparr>mm_addr = rg_addr r, mm_len = rg_len r\<rparr> = (rg_mmap r, maps')"
proof -
  from assms obtain len mres wt' where
    m: "Mmap_new (traced_libc L) (w, t) len huge = Ret (mres, wt')"
    and res: "(case mres of Inl e \<Rightarrow> Ret (Inl e, maps, wt')
      | Inr m \<Rightarrow> (let (i, maps') = arc_new maps m
          in Ret (Inr \<lparr>rg_layout = l, rg_addr = Mmap_addr m, rg_len = len, rg_mmap = i\<rparr>,
                  maps', wt'))) = Ret (res, maps', wt)"
    by (auto simp: UmemRegion_new_def rbind_Ret_iff)
  from m have "case mres of Inl e \<Rightarrow> snd wt' = t
      | Inr m \<Rightarrow> \<exists>a. m = \<lparr>mm_addr = a, mm_len = len\<rparr> \<and> snd wt' = t @ [MmapCall a len]"
    by (auto simp: Mmap_new_def Let_def split: prod.splits if_splits)
  with res show ?thesis
    by (cases mres) (auto simp: Mmap_addr_def split: prod.splits)
qed

lemma drop_region_traced:
  assumes "cells (us_maps st) (rg_mmap r) = Some (1, m)"
  shows "\<exists>w'. drop_region (traced_libc L) st r = st\<lparr>
    us_world := (w', snd (us_world st) @ [MunmapCall (mm_addr m) (mm_len m)]),
    us_maps := (us_maps st)\<lparr>cells := (cells (us_maps st))(rg_mmap r := None)\<rparr>\<rparr>"
  using assms
  by (cases "us_world st") (auto simp: drop_region_def UmemRegion_drop_def arc_drop_def Mmap_drop_def
      Let_def split: prod.splits)

lemma drop_xsk_umem_traced:
  "\<exists>w'. drop_xsk_umem (traced_libxdp X) st (XskUmem p)
     = st\<lparr>us_world := (w', snd (us_world st) @ [UmemDeleteCall p])\<rparr>"
  by (cases "us_world st") (auto simp: drop_xsk_umem_def Let_def split: prod.splits)

text \<open>The three ways a creation can end once the region is mapped.\<close>

lemma Umem_new_outcome:
  assumes l: "FrameLayout_from oc X c = Ret l"
    and r: "UmemRegion_new oc L (us_world st) (us_maps st) fc l huge = Ret (Inr mem, maps, w)"
    and uc: "umem_create X w 0 (UmemRegion_as_ptr mem) (UmemRegion_len mem)
        (XskRingProd_as_mut default) (XskRingCons_as_mut default) (UmemConfig_into_xsk c)
      = (err, p, fq, cq, w')"
    and au: "arc_new (us_umems st)
        (UmemInner_new (XskUmem p) (Some (XskRingProd fq, XskRingCons cq))) = (i, umems)"
    and new: "Umem_new oc L X st c fc huge = Ret (res, st')"
  shows "\<not> (err = 0 \<and> p \<noteq> 0) \<and> (\<exists>e. res = Inl e)
      \<and> st' = drop_region L (st\<lparr>us_world := w', us_maps := maps\<rparr>) mem
    \<or> (err = 0 \<and> p \<noteq> 0) \<and> (\<exists>e. res = Inl e)
      \<and> st' = drop_region L (drop_xsk_umem X (st\<lparr>us_world := w', us_maps := maps\<rparr>) (XskUmem p)) mem
    \<or> (err = 0 \<and> p \<noteq> 0) \<and> (\<exists>ds. res = Inr (\<lparr>um_inner = i, um_mem = mem\<rparr>, ds))
      \<and> st' = st\<lparr>us_world := w', us_maps := maps, us_umems := umems\<rparr>"
  using new
  by (auto simp: Umem_new_def l r uc au Let_def rbind_Ret_iff XskUmem_new_def split: if_splits)

text \<open>Acquisitions and releases that cancel out: in reverse order, nothing left.\<close>

definition balanced :: "foreign_call list \<Rightarrow> bool" where
  "balanced t \<longleftrightarrow> t = [] \<or> (\<exists>a n. t = [MmapCall a n, MunmapCall a n])
     \<or> (\<exists>a n p. t = [MmapCall a n, UmemCreateCall p a, UmemDeleteCall p, MunmapCall a n])"

lemma Umem_new_traced:
  assumes wf: "wf_arena (us_maps st)" and world: "us_world st = (w, t)"
    and run: "Umem_new oc (traced_libc L) (traced_libxdp X) st c fc huge = Ret (res, st')"
  shows "case res of
      Inl e \<Rightarrow> \<exists>w' calls maps'. st' = st\<lparr>us_world := (w', t @ calls), us_maps := maps'\<rparr>
        \<and> balanced calls \<and> cells maps' = cells (us_maps st) \<and> next_cell (us_maps st) \<le> next_cell maps'
    | Inr (u, descs) \<Rightarrow> \<exists>p saved w'. st' = st\<lparr>
          us_world := (w', t @ [MmapCall (rg_addr (um_mem u)) (rg_len (um_mem u)),
            UmemCreateCall p (rg_addr (um_mem u))]),
          us_maps := snd (arc_new (us_maps st) \<lparr>mm_addr = rg_addr (um_mem u), mm_len = rg_len (um_mem u)\<rparr>),
          us_umems := snd (arc_new (us_umems st) (UmemInner_new (XskUmem p) saved))\<rparr>
        \<and> um_inner u = next_cell (us_umems st) \<and> rg_mmap (um_mem u) = next_cell (us_maps st)"
proof -
  let ?L = "traced_libc L" and ?X = "traced_libxdp X"
  from run obtain l rres maps wt where l: "FrameLayout_from oc ?X c = Ret l"
    and r: "UmemRegion_new oc ?L (w, t) (us_maps st) fc l huge = Ret (rres, maps, wt)"
    by (auto simp: Umem_new_def rbind_Ret_iff world)
  note traced = UmemRegion_new_traced [OF r]
  show ?thesis
  proof (cases rres)
    case (Inl e)
    with traced have wt: "wt = (fst wt, t)" "maps = us_maps st" by (simp_all add: prod_eq_iff)
    have "\<exists>e'. res = Inl e' \<and> st' = st\<lparr>us_world := (fst wt, t @ []), us_maps := us_maps st\<rparr>"
      using run world wt by (auto simp: Umem_new_def l r Inl)
    moreover have "balanced []" by (simp add: balanced_def)
    ultimately show ?thesis by (elim exE conjE) (simp only: sum.case, blast)
  next
    case (Inr mem)
    obtain w1 where wt: "wt = (w1, t @ [MmapCall (rg_addr mem) (rg_len mem)])"
      using traced Inr by (cases wt) simp
    have "arc_new (us_maps st) \<lparr>mm_addr = rg_addr mem, mm_len = rg_len mem\<rparr> = (rg_mmap mem, maps)"
      using traced Inr by simp
    then have maps: "maps = \<lparr>next_cell = Suc (next_cell (us_maps st)),
        cells = (cells (us_maps st))(rg_mmap mem \<mapsto> (1, \<lparr>mm_addr = rg_addr mem, mm_len = rg_len mem\<rparr>))\<rparr>"
      and i: "rg_mmap mem = next_cell (us_maps st)"
      by (auto simp: arc_new_def)
    have gone: "(cells maps)(rg_mmap mem := None) = cells (us_maps st)"
      using wf_arena_fresh [OF wf] by (intro ext) (simp add: maps i)
    obtain err p fq cq w2 where uc: "umem_create X w1 0 (UmemRegion_as_ptr mem) (UmemRegion_len mem)
        (XskRingProd_as_mut default) (XskRingCons_as_mut default) (UmemConfig_into_xsk c)
      = (err, p, fq, cq, w2)" by (rule prod_cases5)
    obtain k umems where au: "arc_new (us_umems st)
        (UmemInner_new (XskUmem p) (Some (XskRingProd fq, XskRingCons cq))) = (k, umems)"
      by (rule prod.exhaust)
    define t1 where "t1 = t @ MmapCall (rg_addr mem) (rg_len mem)
      # (if err = 0 \<and> p \<noteq> 0 then [UmemCreateCall p (rg_addr mem)] else [])"
    define st1 where "st1 = st\<lparr>us_world := (w2, t1), us_maps := maps\<rparr>"
    have st1: "us_maps st1 = maps" "us_world st1 = (w2, t1)" "st1\<lparr>us_world := (w2, t1)\<rparr> = st1"
      by (simp_all add: st1_def)
    have uc': "umem_create ?X wt 0 (UmemRegion_as_ptr mem) (UmemRegion_len mem)
        (XskRingProd_as_mut default) (XskRingCons_as_mut default) (UmemConfig_into_xsk c)
      = (err, p, fq, cq, us_world st1)" "st\<lparr>us_world := us_world st1, us_maps := maps\<rparr> = st1"
      using uc by (simp_all add: wt st1_def t1_def UmemRegion_as_ptr_def)
    have cell: "cells maps (rg_mmap mem) = Some (1, \<lparr>mm_addr = rg_addr mem, mm_len = rg_len mem\<rparr>)"
      by (simp add: maps)
    have drop: "\<exists>w'. drop_region ?L (st1\<lparr>us_world := wt'\<rparr>) mem = st\<lparr>
        us_world := (w', snd wt' @ [MunmapCall (rg_addr mem) (rg_len mem)]),
        us_maps := maps\<lparr>cells := cells (us_maps st)\<rparr>\<rparr>" for wt'
      using drop_region_traced [of "st1\<lparr>us_world := wt'\<rparr>" mem _ L] cell
      by (simp add: st1 gone) (simp add: st1_def)
    have r': "UmemRegion_new oc ?L (us_world st) (us_maps st) fc l huge = Ret (Inr mem, maps, wt)"
      using r Inr world by simp
    from Umem_new_outcome [OF l r' uc'(1) au run, unfolded uc'(2)] consider
        (no_umem) e where "res = Inl e" "st' = drop_region ?L st1 mem" "\<not> (err = 0 \<and> p \<noteq> 0)"
      | (umem) e where "res = Inl e" "err = 0 \<and> p \<noteq> 0"
          "st' = drop_region ?L (drop_xsk_umem ?X st1 (XskUmem p)) mem"
      | (ok) ds where "res = Inr (\<lparr>um_inner = k, um_mem = mem\<rparr>, ds)" "err = 0 \<and> p \<noteq> 0"
          "st' = st1\<lparr>us_umems := umems\<rparr>"
      by blast
    then show ?thesis
    proof cases
      case no_umem
      obtain w' where "drop_region ?L st1 mem = st\<lparr>us_world := (w', t1 @ [MunmapCall (rg_addr mem) (rg_len mem)]),
          us_maps := maps\<lparr>cells := cells (us_maps st)\<rparr>\<rparr>"
        using drop [of "us_world st1"] by (auto simp: st1)
      moreover have "balanced [MmapCall (rg_addr mem) (rg_len mem), MunmapCall (rg_addr mem) (rg_len mem)]"
        by (simp add: balanced_def)
      ultimately show ?thesis
        using no_umem by (auto simp: t1_def maps intro!: exI)
    next
      case umem
      obtain w0 where w0: "drop_xsk_umem ?X st1 (XskUmem p) = st1\<lparr>us_world := (w0, t1 @ [UmemDeleteCall p])\<rparr>"
        using drop_xsk_umem_traced [of X st1 p] by (auto simp: st1)
      obtain w' where "drop_region ?L (drop_xsk_umem ?X st1 (XskUmem p)) mem = st\<lparr>
          us_world := (w', (t1 @ [UmemDeleteCall p]) @ [MunmapCall (rg_addr mem) (rg_len mem)]),
          us_maps := maps\<lparr>cells := cells (us_maps st)\<rparr>\<rparr>"
        using drop [of "(w0, t1 @ [UmemDeleteCall p])"] by (auto simp: w0)
      moreover have "balanced [MmapCall (rg_addr mem) (rg_len mem), UmemCreateCall p (rg_addr mem),
          UmemDeleteCall p, MunmapCall (rg_addr mem) (rg_len mem)]"
        by (simp add: balanced_def)
      ultimately show ?thesis
        using umem by (auto simp: t1_def maps intro!: exI)
    next
      case ok
      have "st1\<lparr>us_umems := umems\<rparr> = st\<lparr>us_world := (w2, t1), us_maps := maps, us_umems := umems\<rparr>"
        by (simp add: st1_def)
      with ok au show ?thesis
        by (auto simp: t1_def maps i arc_new_def)
    qed
  qed
qed

text \<open>
  C27: a UMEM creation that fails, at whatever step, releases what it had acquired: the
  libxdp object is deleted before the memory it uses is unmapped, nothing is released
  twice, and no cell of an arena stays behind. A creation that succeeds has mapped the
  region and created the object the handle refers to, and released nothing.
\<close>

theorem Umem_new_no_leak:
  assumes wf: "wf_arena (us_maps st)" and world: "us_world st = (w, t)"
    and run: "Umem_new oc (traced_libc L) (traced_libxdp X) st c fc huge = Ret (res, st')"
  shows "\<exists>calls. snd (us_world st') = t @ calls \<and> (case res of
      Inl e \<Rightarrow> balanced calls \<and> cells (us_maps st') = cells (us_maps st) \<and> us_umems st' = us_umems st
    | Inr (u, descs) \<Rightarrow> \<exists>p saved. arc_get (us_umems st') (um_inner u) = Some (UmemInner_new (XskUmem p) saved)
        \<and> calls = [MmapCall (rg_addr (um_mem u)) (rg_len (um_mem u)), UmemCreateCall p (rg_addr (um_mem u))])"
  using Umem_new_traced [OF wf world run]
  by (auto simp: arc_get_def arc_new_def split: sum.splits)

theorem Umem_new_no_leak_witness:
  "\<exists>res st'. Umem_new False (traced_libc ref_libc)
      (traced_libxdp (ref_libxdp\<lparr>umem_create := \<lambda>w p a n fq cq c. (0, 4096, ref_prod 100, XskRingCons_as_mut default, w)\<rparr>))
      (ref_store (ref_zero, [])) (UmemConfig_default ref_libxdp) 2 False = Ret (Inl res, st')
    \<and> balanced (snd (us_world st')) \<and> cells (us_maps st') = Map.empty"
proof -
  let ?X = "ref_libxdp\<lparr>umem_create := \<lambda>w p a n fq cq c. (0, 4096, ref_prod 100, XskRingCons_as_mut default, w)\<rparr>"
  have "\<exists>e st'. Umem_new False (traced_libc ref_libc) (traced_libxdp ?X)
      (ref_store (ref_zero, [])) (UmemConfig_default ref_libxdp) 2 False = Ret (Inl e, st')"
  proof -
    obtain l where l: "FrameLayout_from False (traced_libxdp ?X) (UmemConfig_default ref_libxdp) = Ret l"
      using ref_layout by blast
    obtain mem maps t where r: "UmemRegion_new False (traced_libc ref_libc) (ref_zero, []) arena_empty 2 l False
        = Ret (Inr mem, maps, ref_zero, t)" using ref_region_new(2) [of ref_zero "[]" arena_empty 2 l False] by blast
    have "\<not> XskRingProd_is_ring_null (XskRingProd (ref_prod 100))"
      and "XskRingCons_is_ring_null (XskRingCons (XskRingCons_as_mut default))"
      by (simp_all add: ref_prod_def default_XskRingCons_eq XskRingCons_default_def)
    then show ?thesis
      by (simp add: Umem_new_def ref_store_def l r Let_def del: XskRingProd_is_ring_null.simps
        XskRingCons_is_ring_null.simps)
  qed
  then obtain e st' where run: "Umem_new False (traced_libc ref_libc) (traced_libxdp ?X)
      (ref_store (ref_zero, [])) (UmemConfig_default ref_libxdp) 2 False = Ret (Inl e, st')" by blast
  have "wf_arena (us_maps (ref_store (ref_zero, [])))" "us_world (ref_store (ref_zero, [])) = (ref_zero, [])"
    by (simp_all add: ref_store_def arena_empty_def wf_arena_def)
  from Umem_new_no_leak [OF this run] run show ?thesis
    by (auto simp: ref_store_def arena_empty_def)
qed

end
