(* ===== verification/Xsk_Fd.thy ===== *)
theory Xsk_Fd
  imports Xsk_Util Xsk_Reference
begin

text \<open>
  \<^verbatim>\<open>src/socket/fd.rs\<close>: the pollable file descriptor of a socket and its statistics. Shown:
  an \<open>Fd\<close> polls the descriptor it was made for, for reading and writing as asked, whatever
  sequence of polls it went through; how the outcomes of \<open>poll\<close> and \<open>getsockopt\<close> become
  results.
\<close>

section \<open>Polling\<close>

datatype PollFd = PollFd pollfd

primrec PollFd_raw :: "PollFd \<Rightarrow> pollfd" where
  "PollFd_raw (PollFd p) = p"

text \<open>\<^verbatim>\<open>io::Error::last_os_error\<close> reads \<open>errno\<close> as \<^verbatim>\<open>util::get_errno\<close> does.\<close>

definition last_os_error :: "'w libc \<Rightarrow> 'w \<Rightarrow> io_error" where
  "last_os_error L w = OsError (errno L w)"

definition PollFd_poll :: "'w libc \<Rightarrow> 'w \<Rightarrow> PollFd \<Rightarrow> i32
    \<Rightarrow> (io_error + bool) \<times> PollFd \<times> 'w" where
  "PollFd_poll L w p timeout_ms =
    (let (ret, p', w') = poll L w (PollFd_raw p) 1 timeout_ms
     in (if sint ret < 0 then
           (if get_errno L w' \<noteq> EINTR L then Inl (last_os_error L w') else Inr False)
         else if ret = 0 then Inr False else Inr True,
         PollFd p', w'))"

record Fd =
  f_id :: i32
  f_pollfd_read :: PollFd
  f_pollfd_write :: PollFd

definition Fd_new :: "'w libc \<Rightarrow> i32 \<Rightarrow> Fd" where
  "Fd_new L fd = \<lparr>f_id = fd,
     f_pollfd_read = PollFd \<lparr>pf_fd = fd, pf_events = POLLIN L, pf_revents = 0\<rparr>,
     f_pollfd_write = PollFd \<lparr>pf_fd = fd, pf_events = POLLOUT L, pf_revents = 0\<rparr>\<rparr>"

definition Fd_clone :: "Fd \<Rightarrow> Fd" where
  "Fd_clone f = \<lparr>f_id = f_id f, f_pollfd_read = f_pollfd_read f,
     f_pollfd_write = f_pollfd_write f\<rparr>"

definition Fd_poll_read :: "'w libc \<Rightarrow> 'w \<Rightarrow> Fd \<Rightarrow> i32 \<Rightarrow> (io_error + bool) \<times> Fd \<times> 'w" where
  "Fd_poll_read L w f timeout_ms = (let (r, p, w') = PollFd_poll L w (f_pollfd_read f) timeout_ms
     in (r, f\<lparr>f_pollfd_read := p\<rparr>, w'))"

definition Fd_poll_write :: "'w libc \<Rightarrow> 'w \<Rightarrow> Fd \<Rightarrow> i32 \<Rightarrow> (io_error + bool) \<times> Fd \<times> 'w" where
  "Fd_poll_write L w f timeout_ms = (let (r, p, w') = PollFd_poll L w (f_pollfd_write f) timeout_ms
     in (r, f\<lparr>f_pollfd_write := p\<rparr>, w'))"

definition Fd_as_raw_fd :: "Fd \<Rightarrow> i32" where
  "Fd_as_raw_fd f = f_id f"

section \<open>Statistics\<close>

datatype XdpStatistics = XdpStatistics xdp_statistics

primrec XdpStatistics_raw :: "XdpStatistics \<Rightarrow> xdp_statistics" where
  "XdpStatistics_raw (XdpStatistics s) = s"

definition XdpStatistics_default :: XdpStatistics where
  "XdpStatistics_default = XdpStatistics \<lparr>st_rx_dropped = 0, st_rx_invalid_descs = 0,
     st_tx_invalid_descs = 0, st_rx_ring_full = 0, st_rx_fill_ring_empty_descs = 0,
     st_tx_ring_empty_descs = 0\<rparr>"

definition XdpStatistics_rx_invalid_descs :: "XdpStatistics \<Rightarrow> u64" where
  "XdpStatistics_rx_invalid_descs s = st_rx_invalid_descs (XdpStatistics_raw s)"

definition XdpStatistics_rx_ring_full :: "XdpStatistics \<Rightarrow> u64" where
  "XdpStatistics_rx_ring_full s = st_rx_ring_full (XdpStatistics_raw s)"

definition XdpStatistics_rx_dropped :: "XdpStatistics \<Rightarrow> u64" where
  "XdpStatistics_rx_dropped s = st_rx_dropped (XdpStatistics_raw s)"

definition XdpStatistics_tx_invalid_descs :: "XdpStatistics \<Rightarrow> u64" where
  "XdpStatistics_tx_invalid_descs s = st_tx_invalid_descs (XdpStatistics_raw s)"

definition XdpStatistics_rx_fill_ring_empty_descs :: "XdpStatistics \<Rightarrow> u64" where
  "XdpStatistics_rx_fill_ring_empty_descs s = st_rx_fill_ring_empty_descs (XdpStatistics_raw s)"

definition XdpStatistics_tx_ring_empty_descs :: "XdpStatistics \<Rightarrow> u64" where
  "XdpStatistics_tx_ring_empty_descs s = st_tx_ring_empty_descs (XdpStatistics_raw s)"

definition Fd_xdp_statistics :: "'w libc \<Rightarrow> 'w libxdp \<Rightarrow> 'w \<Rightarrow> Fd
    \<Rightarrow> (io_error + XdpStatistics) \<times> 'w" where
  "Fd_xdp_statistics L X w f =
    (let (err, stats, optlen, w') = getsockopt L w (Fd_as_raw_fd f) (SOL_XDP L) (XDP_STATISTICS X)
           (XdpStatistics_raw XdpStatistics_default) (XDP_STATISTICS_SIZEOF X)
     in (if err \<noteq> 0 then Inl (last_os_error L w')
         else if optlen = XDP_STATISTICS_SIZEOF X then Inr (XdpStatistics stats)
         else Inl (OtherError (''`optlen` returned from `getsockopt` does not match ''
                @ ''`xdp_statistics` struct size'')),
         w'))"

section \<open>An Fd keeps polling its own descriptor\<close>

text \<open>
  Documented behaviour of \<open>poll(2)\<close>: it changes only the \<open>revents\<close> field of the structures
  it is given.
\<close>

definition poll_keeps_request :: "'w libc \<Rightarrow> bool" where
  "poll_keeps_request L \<longleftrightarrow> (\<forall>w p n ms ret p' w'. poll L w p n ms = (ret, p', w') \<longrightarrow>
     pf_fd p' = pf_fd p \<and> pf_events p' = pf_events p)"

definition wf_Fd :: "'w libc \<Rightarrow> i32 \<Rightarrow> Fd \<Rightarrow> bool" where
  "wf_Fd L fd f \<longleftrightarrow> f_id f = fd
     \<and> pf_fd (PollFd_raw (f_pollfd_read f)) = fd \<and> pf_events (PollFd_raw (f_pollfd_read f)) = POLLIN L
     \<and> pf_fd (PollFd_raw (f_pollfd_write f)) = fd \<and> pf_events (PollFd_raw (f_pollfd_write f)) = POLLOUT L"

lemma wf_Fd_new [simp]: "wf_Fd L fd (Fd_new L fd)"
  by (simp add: wf_Fd_def Fd_new_def)

lemma wf_Fd_clone [simp]: "wf_Fd L fd (Fd_clone f) \<longleftrightarrow> wf_Fd L fd f"
  by (simp add: wf_Fd_def Fd_clone_def)

lemma poll_keeps_requestD:
  "poll_keeps_request L \<Longrightarrow> poll L w p n ms = (ret, p', w') \<Longrightarrow>
   pf_fd p' = pf_fd p \<and> pf_events p' = pf_events p"
  unfolding poll_keeps_request_def by blast

lemma PollFd_poll_request:
  "poll_keeps_request L \<Longrightarrow> PollFd_poll L w p ms = (r, p', w') \<Longrightarrow>
   pf_fd (PollFd_raw p') = pf_fd (PollFd_raw p) \<and> pf_events (PollFd_raw p') = pf_events (PollFd_raw p)"
  by (auto simp: PollFd_poll_def Let_def split: prod.splits dest: poll_keeps_requestD)

text \<open>What a caller of the public queues can do to the \<open>Fd\<close> it reaches.\<close>

datatype fd_op = PollRead i32 | PollWrite i32 | CloneFd

fun fd_run :: "'w libc \<Rightarrow> 'w \<Rightarrow> Fd \<Rightarrow> fd_op list \<Rightarrow> Fd \<times> 'w" where
  "fd_run L w f [] = (f, w)"
| "fd_run L w f (PollRead ms # ops) = (let (r, f', w') = Fd_poll_read L w f ms in fd_run L w' f' ops)"
| "fd_run L w f (PollWrite ms # ops) = (let (r, f', w') = Fd_poll_write L w f ms in fd_run L w' f' ops)"
| "fd_run L w f (CloneFd # ops) = fd_run L w (Fd_clone f) ops"

lemma wf_Fd_poll_read:
  "poll_keeps_request L \<Longrightarrow> wf_Fd L fd f \<Longrightarrow> Fd_poll_read L w f ms = (r, f', w') \<Longrightarrow> wf_Fd L fd f'"
  using PollFd_poll_request by (fastforce simp: Fd_poll_read_def wf_Fd_def split: prod.splits)

lemma wf_Fd_poll_write:
  "poll_keeps_request L \<Longrightarrow> wf_Fd L fd f \<Longrightarrow> Fd_poll_write L w f ms = (r, f', w') \<Longrightarrow> wf_Fd L fd f'"
  using PollFd_poll_request by (fastforce simp: Fd_poll_write_def wf_Fd_def split: prod.splits)

lemma wf_Fd_run: "poll_keeps_request L \<Longrightarrow> wf_Fd L fd f \<Longrightarrow> wf_Fd L fd (fst (fd_run L w f ops))"
  by (induction L w f ops rule: fd_run.induct)
    (auto split: prod.splits dest: wf_Fd_poll_read wf_Fd_poll_write)

text \<open>
  However often an \<open>Fd\<close> has been polled and cloned, its read side still asks about
  \<open>POLLIN\<close> and its write side about \<open>POLLOUT\<close> on the descriptor it was created with, which
  is the one \<open>as_raw_fd\<close> reports.
\<close>

theorem Fd_polls_own_descriptor:
  assumes "poll_keeps_request L"
  shows "wf_Fd L fd (fst (fd_run L w (Fd_new L fd) ops))
    \<and> Fd_as_raw_fd (fst (fd_run L w (Fd_new L fd) ops)) = fd"
  using wf_Fd_run [OF assms wf_Fd_new] by (simp add: wf_Fd_def Fd_as_raw_fd_def)

theorem Fd_polls_own_descriptor_witness:
  "Fd_as_raw_fd (fst (fd_run ref_libc () (Fd_new (ref_libc :: unit libc) 7) [PollRead 10, CloneFd, PollWrite 0])) = 7
    \<and> poll_keeps_request (ref_libc :: unit libc)"
proof -
  have "poll_keeps_request (ref_libc :: unit libc)"
    by (simp add: poll_keeps_request_def ref_libc_def)
  with Fd_polls_own_descriptor [OF this] show ?thesis by blast
qed

end
