(* ===== verification/Xsk_Queue.thy ===== *)
theory Xsk_Queue
  imports Xsk_Ring
begin

text \<open>
  The contract the four queues offer their callers, one locale per direction, and what
  follows from it for a caller that hands over or takes frames batch after batch. The fill
  and transmit queues are instances of the first, the completion and receive queues of the
  second (as sublocales, given the contract of the ring underneath).
\<close>

section \<open>Stepping a ring index\<close>

text \<open>
  One \<open>idx += 1\<close> in front of a loop that does \<open>n\<close> more: with overflow checks, the
  whole panics when the last of the indices would not fit 32 bits.
\<close>

lemma add_oc_step:
  "rbind (add_oc oc idx 1) (\<lambda>i. if oc \<and> 2 ^ 32 \<le> unat i + n then Panic else f i)
    = (if oc \<and> 2 ^ 32 \<le> unat idx + Suc n then Panic else f (idx + 1))" for idx :: u32
proof (cases "2 ^ 32 \<le> unat idx + 1")
  case True
  then show ?thesis by (auto simp: add_oc_def)
next
  case False
  then have "unat (idx + 1) = unat idx + 1" using unat_add_in_range [of idx 1] by simp
  with False show ?thesis by (simp add: add_oc_def)
qed

lemma rbind_if: "rbind (if c then x else y) f = (if c then rbind x f else rbind y f)"
  by simp

lemma slice_len_u32_eq_0: "(ucast (slice_len xs) :: u32) = 0 \<longleftrightarrow> length xs mod 2 ^ 32 = 0"
  by (metis unat_slice_len_u32 unat_eq_zero)

lemma slice_len_unat: "unat n = length xs \<Longrightarrow> slice_len xs = n"
  by (drule sym) (simp add: slice_len_def)

section \<open>Batches through the rings\<close>

text \<open>
  The core of \<open>produce\<close>, for a ring that keeps its contract: nothing to do, no room for
  the batch, or the whole batch queued.
\<close>

context prod_ring
begin

lemma produce_batch:
  assumes inv: "invar w r" "staged w r = []" and k: "k = length ds mod 2 ^ 32"
    and res: "reserve w r (ucast (slice_len ds)) idx = (cnt, idx', r1, w1)"
    and sub: "submit (write_run slot_set w1 r1 idx' (map entry (take (unat cnt) ds))) r1 cnt = (r2, w2)"
  shows "k = 0
    \<or> 0 < k \<and> room w r < k \<and> cnt = 0 \<and> invar w1 r1 \<and> staged w1 r1 = []
      \<and> queued w1 r1 = queued w r \<and> room w1 r1 = room w r
    \<or> 0 < k \<and> k \<le> room w r \<and> cnt \<noteq> 0 \<and> unat cnt = k \<and> invar w2 r2 \<and> staged w2 r2 = []
      \<and> queued w2 r2 = queued w r @ map entry (take k ds) \<and> room w2 r2 = room w r - k"
proof -
  let ?nb = "ucast (slice_len ds) :: u32"
  have nb: "unat ?nb = k" by (simp add: k unat_slice_len_u32)
  consider (none) "k = 0" | (full) "0 < k" "room w r < k" | (fits) "0 < k" "k \<le> room w r"
    by linarith
  then show ?thesis
  proof cases
    case none
    then show ?thesis by simp
  next
    case full
    with produce_full [OF inv _ res] nb show ?thesis by simp
  next
    case fits
    then have pos: "0 < ?nb" using nb by (auto simp: word_gt_0)
    have cnt: "cnt = ?nb" using reserve_ok [OF inv, of ?nb idx] fits nb res by auto
    have len: "length (map entry (take (unat cnt) ds)) = unat ?nb"
      using nb k by (simp add: cnt)
    have "invar w2 r2 \<and> queued w2 r2 = queued w r @ map entry (take k ds) \<and> staged w2 r2 = []
        \<and> room w2 r2 + k = room w r"
      using produce_run [OF inv len _ pos res sub] fits nb by (simp add: cnt)
    with fits cnt pos nb show ?thesis by (auto simp: word_gt_0)
  qed
qed

end

text \<open>The core of \<open>consume\<close>: nothing to do, nothing there, or a prefix of what is there.\<close>

context cons_ring
begin

lemma consume_batch:
  assumes inv: "invar w r" "held w r = []"
    and pk: "peek w r (ucast (slice_len ds)) idx = (cnt, idx', r1, w1)"
    and rel: "release w1 r1 cnt = (r2, w2)"
  shows "length ds mod 2 ^ 32 = 0
    \<or> 0 < length ds mod 2 ^ 32 \<and> cnt = 0 \<and> avail w r = [] \<and> invar w1 r1 \<and> held w1 r1 = []
      \<and> avail w1 r1 = []
    \<or> 0 < length ds mod 2 ^ 32 \<and> cnt \<noteq> 0 \<and> 0 < unat cnt \<and> unat cnt \<le> length ds mod 2 ^ 32
      \<and> unat cnt \<le> length ds \<and> unat cnt \<le> length (avail w r)
      \<and> read_run slot_get w1 r1 idx' (unat cnt) = take (unat cnt) (avail w r)
      \<and> invar w2 r2 \<and> held w2 r2 = [] \<and> avail w2 r2 = drop (unat cnt) (avail w r)"
proof -
  let ?nb = "ucast (slice_len ds) :: u32"
  have nb: "unat ?nb = length ds mod 2 ^ 32" by (simp add: unat_slice_len_u32)
  consider (none) "length ds mod 2 ^ 32 = 0" | (empty) "0 < length ds mod 2 ^ 32" "cnt = 0"
    | (some) "0 < length ds mod 2 ^ 32" "0 < cnt" by (auto simp: word_gt_0)
  then show ?thesis
  proof cases
    case none
    then show ?thesis by simp
  next
    case empty
    with consume_none [OF inv, of ?nb idx idx' r1 w1] pk nb slice_len_u32_eq_0 [of ds]
    show ?thesis by simp
  next
    case some
    note run = consume_run [OF inv pk some(2) rel]
    then have "unat cnt \<le> length ds"
      unfolding nb using mod_less_eq_dividend [of "length ds" "2 ^ 32"] by linarith
    with run some nb show ?thesis by (simp add: word_gt_0 unat_gt_0)
  qed
qed

end

section \<open>Producing queues\<close>

text \<open>A caller that offers one batch after the other and keeps the counts it is told.\<close>

fun produce_all :: "('w \<Rightarrow> 'q \<Rightarrow> 'd list \<Rightarrow> (usize \<times> 'q \<times> 'w) rust)
    \<Rightarrow> 'w \<Rightarrow> 'q \<Rightarrow> 'd list list \<Rightarrow> (usize list \<times> 'q \<times> 'w) rust" where
  "produce_all produce w q [] = Ret ([], q, w)"
| "produce_all produce w q (b # bs) =
     rbind (produce w q b) (\<lambda>(n, q', w').
     rbind (produce_all produce w' q' bs) (\<lambda>(ns, q'', w''). Ret (n # ns, q'', w'')))"

text \<open>The specification: a batch that fits goes in whole, one that does not is refused.\<close>

fun accepted :: "nat \<Rightarrow> 'd list list \<Rightarrow> 'd list list" where
  "accepted free [] = []"
| "accepted free (b # bs) = (if length b \<le> free then b # accepted (free - length b) bs
     else [] # accepted free bs)"

lemma accepted_total: "length (concat (accepted free bs)) \<le> free"
proof (induction free bs rule: accepted.induct)
  case (2 free b bs)
  then show ?case by (cases "length b \<le> free") auto
qed simp

locale batch_producer =
  fixes produce :: "'w \<Rightarrow> 'q \<Rightarrow> 'd list \<Rightarrow> (usize \<times> 'q \<times> 'w) rust"
    and entry :: "'d \<Rightarrow> 'e"
    and ready :: "'w \<Rightarrow> 'q \<Rightarrow> bool"
    and pending :: "'w \<Rightarrow> 'q \<Rightarrow> 'e list"
    and free :: "'w \<Rightarrow> 'q \<Rightarrow> nat"
  assumes produce_fits:
    "ready w q \<Longrightarrow> length ds < 2 ^ 32 \<Longrightarrow> length ds \<le> free w q \<Longrightarrow>
     \<exists>q' w'. produce w q ds = Ret (slice_len ds, q', w') \<and> ready w' q' \<and>
       pending w' q' = pending w q @ map entry ds \<and> free w' q' = free w q - length ds"
    and produce_refused:
    "ready w q \<Longrightarrow> length ds < 2 ^ 32 \<Longrightarrow> free w q < length ds \<Longrightarrow>
     \<exists>q' w'. produce w q ds = Ret (0, q', w') \<and> ready w' q' \<and>
       pending w' q' = pending w q \<and> free w' q' = free w q"
begin

lemma produce_all_accepted:
  assumes "ready w q" and "\<forall>b \<in> set bs. length b < 2 ^ 32"
  shows "\<exists>q' w'. produce_all produce w q bs
      = Ret (map slice_len (accepted (free w q) bs), q', w') \<and> ready w' q'
    \<and> pending w' q' = pending w q @ map entry (concat (accepted (free w q) bs))
    \<and> free w' q' = free w q - length (concat (accepted (free w q) bs))"
  using assms
proof (induction bs arbitrary: w q)
  case Nil
  then show ?case by simp
next
  case (Cons b bs)
  then have b: "length b < 2 ^ 32" by simp
  show ?case
  proof (cases "length b \<le> free w q")
    case True
    from produce_fits [OF Cons.prems(1) b True] obtain q1 w1 where
      "produce w q b = Ret (slice_len b, q1, w1)" "ready w1 q1"
      "pending w1 q1 = pending w q @ map entry b" "free w1 q1 = free w q - length b"
      by blast
    with Cons.IH [of w1 q1] Cons.prems(2) True show ?thesis by auto
  next
    case False
    with produce_refused [OF Cons.prems(1) b] obtain q1 w1 where
      "produce w q b = Ret (0, q1, w1)" "ready w1 q1"
      "pending w1 q1 = pending w q" "free w1 q1 = free w q"
      by fastforce
    with Cons.IH [of w1 q1] Cons.prems(2) False show ?thesis by (auto simp: slice_len_def)
  qed
qed

end

section \<open>Consuming queues\<close>

text \<open>A caller that takes frames into one buffer after the other and keeps what it got.\<close>

fun consume_all :: "('w \<Rightarrow> 'q \<Rightarrow> 'd list \<Rightarrow> (usize \<times> 'd list \<times> 'q \<times> 'w) rust)
    \<Rightarrow> 'w \<Rightarrow> 'q \<Rightarrow> 'd list list \<Rightarrow> ('d list list \<times> 'q \<times> 'w) rust" where
  "consume_all consume w q [] = Ret ([], q, w)"
| "consume_all consume w q (b # bs) =
     rbind (consume w q b) (\<lambda>(n, b', q', w').
     rbind (consume_all consume w' q' bs) (\<lambda>(got, q'', w''). Ret (take (unat n) b' # got, q'', w'')))"

locale batch_consumer =
  fixes consume :: "'w \<Rightarrow> 'q \<Rightarrow> 'd list \<Rightarrow> (usize \<times> 'd list \<times> 'q \<times> 'w) rust"
    and desc :: "'e \<Rightarrow> 'd"
    and ready :: "'w \<Rightarrow> 'q \<Rightarrow> bool"
    and pending :: "'w \<Rightarrow> 'q \<Rightarrow> 'e list"
  assumes consume_some:
    "ready w q \<Longrightarrow> length ds < 2 ^ 32 \<Longrightarrow>
     \<exists>n q' w'. consume w q ds = Ret (of_nat n, map desc (take n (pending w q)) @ drop n ds, q', w') \<and>
       ready w' q' \<and> pending w' q' = drop n (pending w q) \<and>
       n \<le> length ds \<and> n \<le> length (pending w q) \<and> (ds \<noteq> [] \<and> pending w q \<noteq> [] \<longrightarrow> 0 < n)"
begin

lemma consume_all_prefix:
  assumes "ready w q" and "\<forall>b \<in> set bs. length b < 2 ^ 32"
  shows "\<exists>got q' w'. consume_all consume w q bs = Ret (got, q', w') \<and> ready w' q'
    \<and> map desc (pending w q) = concat got @ map desc (pending w' q')"
  using assms
proof (induction bs arbitrary: w q)
  case Nil
  then show ?case by simp
next
  case (Cons b bs)
  then have b: "length b < 2 ^ 32" by simp
  from consume_some [OF Cons.prems(1) b] obtain n q1 w1 where
    c: "consume w q b = Ret (of_nat n, map desc (take n (pending w q)) @ drop n b, q1, w1)"
    and 1: "ready w1 q1" "pending w1 q1 = drop n (pending w q)"
    and n: "n \<le> length b" "n \<le> length (pending w q)"
    by blast
  have "unat (of_nat n :: usize) = n" using n b by (intro unat_of_nat_u64) simp
  then have "take (unat (of_nat n :: usize)) (map desc (take n (pending w q)) @ drop n b)
      = map desc (take n (pending w q))" using n by simp
  moreover from Cons.IH [OF 1(1)] Cons.prems(2) obtain got q' w' where
    "consume_all consume w1 q1 bs = Ret (got, q', w')" "ready w' q'"
    "map desc (drop n (pending w q)) = concat got @ map desc (pending w' q')"
    by (auto simp: 1)
  moreover have "map desc (pending w q)
      = map desc (take n (pending w q)) @ map desc (drop n (pending w q))"
    by (simp flip: map_append)
  ultimately show ?case by (auto simp: c)
qed

end

end
