(* ===== verification/Xsk_Fill_Queue.thy ===== *)
theory Xsk_Fill_Queue
  imports Xsk_Umem Xsk_Fd Xsk_Queue Xsk_Reference
begin

text \<open>
  \<^verbatim>\<open>src/umem/fill_queue.rs\<close>: the queue that hands frames to the kernel for receiving. Its
  operations are shown correct for every libxdp whose fill ring keeps the contract of a
  producer ring; the queue then keeps the contract of a producing queue.
\<close>

section \<open>Operations\<close>

record FillQueue =
  fq_ring :: XskRingProd
  fq_umem :: Umem

definition FillQueue_new :: "XskRingProd \<Rightarrow> Umem \<Rightarrow> FillQueue" where
  "FillQueue_new ring umem = \<lparr>fq_ring = ring, fq_umem = umem\<rparr>"

abbreviation fq_raw :: "FillQueue \<Rightarrow> xsk_ring_prod" where
  "fq_raw q \<equiv> XskRingProd_as_mut (fq_ring q)"

text \<open>The loop of \<open>produce\<close>; \<open>idx += 1\<close> is checked or wraps with the build profile.\<close>

fun FillQueue_produce_loop :: "bool \<Rightarrow> 'w libxdp \<Rightarrow> 'w \<Rightarrow> xsk_ring_prod \<Rightarrow> u32 \<Rightarrow> FrameDesc list
    \<Rightarrow> 'w rust" where
  "FillQueue_produce_loop oc X w r idx [] = Ret w"
| "FillQueue_produce_loop oc X w r idx (desc # descs) =
    (let w' = fill_addr_set X w r idx (fd_addr desc)
     in rbind (add_oc oc idx 1) (\<lambda>idx'. FillQueue_produce_loop oc X w' r idx' descs))"

definition FillQueue_produce :: "bool \<Rightarrow> 'w libxdp \<Rightarrow> 'w \<Rightarrow> FillQueue \<Rightarrow> FrameDesc list
    \<Rightarrow> (usize \<times> FillQueue \<times> 'w) rust" where
  "FillQueue_produce oc X w q descs =
    (let nb = ucast (slice_len descs) :: u32
     in if nb = 0 then Ret (0, q, w)
        else let (cnt, idx, r, w') = reserve X w (fq_raw q) nb 0
          in if 0 < cnt then
               rbind (FillQueue_produce_loop oc X w' r idx
                        (take (unat (ucast cnt :: usize)) descs)) (\<lambda>w''.
                 let (r', w''') = submit X w'' r cnt
                 in Ret (ucast cnt, q\<lparr>fq_ring := XskRingProd r'\<rparr>, w'''))
             else Ret (ucast cnt, q\<lparr>fq_ring := XskRingProd r\<rparr>, w'))"

definition FillQueue_produce_one :: "'w libxdp \<Rightarrow> 'w \<Rightarrow> FillQueue \<Rightarrow> FrameDesc
    \<Rightarrow> usize \<times> FillQueue \<times> 'w" where
  "FillQueue_produce_one X w q desc =
    (let (cnt, idx, r, w') = reserve X w (fq_raw q) 1 0
     in if 0 < cnt then
          let w'' = fill_addr_set X w' r idx (fd_addr desc);
              (r', w''') = submit X w'' r cnt
          in (ucast cnt, q\<lparr>fq_ring := XskRingProd r'\<rparr>, w''')
        else (ucast cnt, q\<lparr>fq_ring := XskRingProd r\<rparr>, w'))"

definition FillQueue_needs_wakeup :: "'w libxdp \<Rightarrow> 'w \<Rightarrow> FillQueue \<Rightarrow> bool" where
  "FillQueue_needs_wakeup X w q \<longleftrightarrow> prod_needs_wakeup X w (XskRingProd_as_ref (fq_ring q)) \<noteq> 0"

definition FillQueue_wakeup :: "'w libc \<Rightarrow> 'w \<Rightarrow> FillQueue \<Rightarrow> Fd \<Rightarrow> i32
    \<Rightarrow> (io_error + unit) \<times> Fd \<times> 'w" where
  "FillQueue_wakeup L w q fd poll_timeout = (case Fd_poll_read L w fd poll_timeout of
     (Inl e, fd', w') \<Rightarrow> (Inl e, fd', w')
   | (Inr _, fd', w') \<Rightarrow> (Inr (), fd', w'))"

text \<open>The common tail of the two operations that wake the kernel after a hand-over.\<close>

definition FillQueue_wakeup_after :: "'w libc \<Rightarrow> 'w libxdp \<Rightarrow> 'w \<Rightarrow> FillQueue \<Rightarrow> Fd \<Rightarrow> i32 \<Rightarrow> usize
    \<Rightarrow> (io_error + usize) \<times> FillQueue \<times> Fd \<times> 'w" where
  "FillQueue_wakeup_after L X w q fd poll_timeout cnt =
    (if 0 < cnt \<and> FillQueue_needs_wakeup X w q then
       (case FillQueue_wakeup L w q fd poll_timeout of
          (Inl e, fd', w') \<Rightarrow> (Inl e, q, fd', w')
        | (Inr _, fd', w') \<Rightarrow> (Inr cnt, q, fd', w'))
     else (Inr cnt, q, fd, w))"

definition FillQueue_produce_and_wakeup :: "bool \<Rightarrow> 'w libc \<Rightarrow> 'w libxdp \<Rightarrow> 'w \<Rightarrow> FillQueue
    \<Rightarrow> FrameDesc list \<Rightarrow> Fd \<Rightarrow> i32 \<Rightarrow> ((io_error + usize) \<times> FillQueue \<times> Fd \<times> 'w) rust" where
  "FillQueue_produce_and_wakeup oc L X w q descs fd poll_timeout =
    rbind (FillQueue_produce oc X w q descs) (\<lambda>(cnt, q', w').
      Ret (FillQueue_wakeup_after L X w' q' fd poll_timeout cnt))"

definition FillQueue_produce_one_and_wakeup :: "'w libc \<Rightarrow> 'w libxdp \<Rightarrow> 'w \<Rightarrow> FillQueue
    \<Rightarrow> FrameDesc \<Rightarrow> Fd \<Rightarrow> i32 \<Rightarrow> (io_error + usize) \<times> FillQueue \<times> Fd \<times> 'w" where
  "FillQueue_produce_one_and_wakeup L X w q desc fd poll_timeout =
    (let (cnt, q', w') = FillQueue_produce_one X w q desc
     in FillQueue_wakeup_after L X w' q' fd poll_timeout cnt)"

section \<open>The loop writes a run of slots\<close>

lemma FillQueue_produce_loop_eq:
  "FillQueue_produce_loop oc X w r idx ds =
    (if oc \<and> 2 ^ 32 \<le> unat idx + length ds then Panic
     else Ret (write_run (fill_addr_set X) w r idx (map fd_addr ds)))"
proof (induction ds arbitrary: w idx)
  case Nil
  then show ?case using unat_u32_bound [of idx] by simp
next
  case (Cons d ds)
  show ?case
    by (simp only: FillQueue_produce_loop.simps Let_def Cons.IH add_oc_step list.map
      write_run.simps list.size add_Suc_right add_0_right)
qed

text \<open>
  \<open>produce\<close> in one equation: how many descriptors are used, and when the checked index
  panics, for any libxdp.
\<close>

lemma FillQueue_produce_eq:
  assumes "reserve X w (fq_raw q) (ucast (slice_len ds)) 0 = (cnt, idx, r, w1)"
    and "submit X (write_run (fill_addr_set X) w1 r idx (map fd_addr (take (unat cnt) ds))) r cnt
      = (r', w2)"
  shows "FillQueue_produce oc X w q ds =
    (if length ds mod 2 ^ 32 = 0 then Ret (0, q, w)
     else if cnt = 0 then Ret (0, q\<lparr>fq_ring := XskRingProd r\<rparr>, w1)
     else if oc \<and> 2 ^ 32 \<le> unat idx + min (length ds) (unat cnt) then Panic
     else Ret (ucast cnt, q\<lparr>fq_ring := XskRingProd r'\<rparr>, w2))"
  using assms slice_len_u32_eq_0 [of ds]
  by (simp add: FillQueue_produce_def FillQueue_produce_loop_eq Let_def word_gt_0)

section \<open>Over a ring that keeps its contract\<close>

locale fill_ring =
  prod_ring "reserve X" "fill_addr_set X" "submit X" invar queued staged base room
  for X :: "'w libxdp" and invar queued staged base room
begin

abbreviation ready :: "'w \<Rightarrow> FillQueue \<Rightarrow> bool" where
  "ready w q \<equiv> invar w (fq_raw q) \<and> staged w (fq_raw q) = []"

text \<open>What a call hands over: the first \<open>len mod 2 ^ 32\<close> descriptors, or none of them.\<close>

lemma produce_outcome:
  assumes "ready w q" and k: "k = length ds mod 2 ^ 32"
  shows "\<exists>n q' w'. FillQueue_produce False X w q ds = Ret (n, q', w') \<and> ready w' q'
    \<and> fq_umem q' = fq_umem q
    \<and> (if k \<le> room w (fq_raw q)
       then unat n = k \<and> queued w' (fq_raw q') = queued w (fq_raw q) @ map fd_addr (take k ds)
         \<and> room w' (fq_raw q') = room w (fq_raw q) - k
       else n = 0 \<and> queued w' (fq_raw q') = queued w (fq_raw q)
         \<and> room w' (fq_raw q') = room w (fq_raw q))"
proof -
  obtain cnt idx r w1 where res: "reserve X w (fq_raw q) (ucast (slice_len ds)) 0 = (cnt, idx, r, w1)"
    by (rule prod_cases4)
  obtain r' w2 where sub: "submit X (write_run (fill_addr_set X) w1 r idx
      (map fd_addr (take (unat cnt) ds))) r cnt = (r', w2)" by (rule prod.exhaust)
  from assms have "invar w (fq_raw q)" "staged w (fq_raw q) = []" by simp_all
  from produce_batch [OF this k res, of fd_addr, OF sub] FillQueue_produce_eq [OF res sub, of False] assms
  show ?thesis by (auto split: if_splits)
qed

end

sublocale fill_ring \<subseteq> fq: batch_producer "FillQueue_produce False X" fd_addr ready
  "\<lambda>w q. queued w (fq_raw q)" "\<lambda>w q. room w (fq_raw q)"
proof unfold_locales
  fix w q and ds :: "FrameDesc list"
  assume a: "ready w q" "length ds < 2 ^ 32"
  then have k: "length ds = length ds mod 2 ^ 32" by simp
  from produce_outcome [OF a(1) k]
  show "length ds \<le> room w (fq_raw q) \<Longrightarrow>
      \<exists>q' w'. FillQueue_produce False X w q ds = Ret (slice_len ds, q', w') \<and> ready w' q' \<and>
        queued w' (fq_raw q') = queued w (fq_raw q) @ map fd_addr ds \<and>
        room w' (fq_raw q') = room w (fq_raw q) - length ds"
    by (fastforce simp: slice_len_unat)
  from produce_outcome [OF a(1) k]
  show "room w (fq_raw q) < length ds \<Longrightarrow>
      \<exists>q' w'. FillQueue_produce False X w q ds = Ret (0, q', w') \<and> ready w' q' \<and>
        queued w' (fq_raw q') = queued w (fq_raw q) \<and> room w' (fq_raw q') = room w (fq_raw q)"
    by fastforce
qed

context fill_ring
begin

lemmas batches = fq.produce_all_accepted

end

text \<open>The reference interface is such a libxdp.\<close>

interpretation ref_fill: fill_ring ref_libxdp ref_prod_ok "ref_queued rw_addrs" "ref_staged rw_addrs" ref_base ref_room
  by (rule fill_ring.intro) (simp add: ref_fill_contract)

section \<open>Properties\<close>

text \<open>
  C3: handing a batch to the fill queue is all or nothing. Over any libxdp whose ring keeps the
  contract of a producer ring, a release build queues the addresses of the whole batch, in order
  and behind what was queued before, when there is room for it, and otherwise leaves the queue
  as it was and returns 0. The batch is the first \<open>len mod 2 ^ 32\<close> descriptors, since the
  code casts the length to 32 bits.
\<close>

theorem FillQueue_produce_all_or_nothing:
  assumes ring: "prod_ring (reserve X) (fill_addr_set X) (submit X) invar queued staged base room"
    and inv: "invar w (fq_raw q)" and st: "staged w (fq_raw q) = []"
  shows "\<exists>n q' w'. FillQueue_produce False X w q ds = Ret (n, q', w')
    \<and> invar w' (fq_raw q') \<and> staged w' (fq_raw q') = [] \<and> fq_umem q' = fq_umem q
    \<and> (let k = length ds mod 2 ^ 32 in
       if k \<le> room w (fq_raw q)
       then unat n = k \<and> queued w' (fq_raw q') = queued w (fq_raw q) @ map fd_addr (take k ds)
         \<and> room w' (fq_raw q') = room w (fq_raw q) - k
       else n = 0 \<and> queued w' (fq_raw q') = queued w (fq_raw q)
         \<and> room w' (fq_raw q') = room w (fq_raw q))"
proof -
  note contract = fill_ring.intro [OF ring]
  show ?thesis
    unfolding Let_def using fill_ring.produce_outcome [OF contract conjI [OF inv st] refl] by blast
qed

theorem FillQueue_produce_all_or_nothing_witness:
  "\<forall>u. \<exists>n q' w'. FillQueue_produce False ref_libxdp ref_zero
      (FillQueue_new (XskRingProd (ref_prod 100)) u) [FrameDesc_new 4096, FrameDesc_new 8192] = Ret (n, q', w')
    \<and> unat n = 2 \<and> ref_queued rw_addrs w' (fq_raw q') = [4096, 8192]"
proof
  fix u
  show "\<exists>n q' w'. FillQueue_produce False ref_libxdp ref_zero
      (FillQueue_new (XskRingProd (ref_prod 100)) u) [FrameDesc_new 4096, FrameDesc_new 8192] = Ret (n, q', w')
    \<and> unat n = 2 \<and> ref_queued rw_addrs w' (fq_raw q') = [4096, 8192]"
    using FillQueue_produce_all_or_nothing [where X = ref_libxdp and w = ref_zero
        and q = "FillQueue_new (XskRingProd (ref_prod 100)) u"
        and ds = "[FrameDesc_new 4096, FrameDesc_new 8192]", unfolded ref_libxdp_simps, OF ref_fill_contract]
    by (fastforce simp: FillQueue_new_def FrameDesc_new_def)
qed

text \<open>
  C30: a caller that offers one batch after the other to the fill queue gets, batch by batch, the
  length of the batch if it still fits and 0 if not, and the queue holds exactly the accepted
  batches, in the order offered.
\<close>

theorem FillQueue_batches:
  assumes ring: "prod_ring (reserve X) (fill_addr_set X) (submit X) invar queued staged base room"
    and inv: "invar w (fq_raw q)" and st: "staged w (fq_raw q) = []"
    and len: "\<forall>b \<in> set bs. length b < 2 ^ 32"
  shows "\<exists>q' w'. produce_all (FillQueue_produce False X) w q bs
      = Ret (map slice_len (accepted (room w (fq_raw q)) bs), q', w')
    \<and> queued w' (fq_raw q')
      = queued w (fq_raw q) @ map fd_addr (concat (accepted (room w (fq_raw q)) bs))"
proof -
  note contract = fill_ring.intro [OF ring]
  from inv st fill_ring.batches [OF contract _ len, of w q] show ?thesis by blast
qed

theorem FillQueue_batches_witness:
  "\<forall>u. \<exists>q' w'. produce_all (FillQueue_produce False ref_libxdp) ref_zero
      (FillQueue_new (XskRingProd (ref_prod 100)) u)
      [map FrameDesc_new [1, 2, 3], map FrameDesc_new [4, 5], [FrameDesc_new 7]] = Ret ([3, 0, 1], q', w')
    \<and> ref_queued rw_addrs w' (fq_raw q') = [1, 2, 3, 7]"
proof
  fix u
  show "\<exists>q' w'. produce_all (FillQueue_produce False ref_libxdp) ref_zero
      (FillQueue_new (XskRingProd (ref_prod 100)) u)
      [map FrameDesc_new [1, 2, 3], map FrameDesc_new [4, 5], [FrameDesc_new 7]] = Ret ([3, 0, 1], q', w')
    \<and> ref_queued rw_addrs w' (fq_raw q') = [1, 2, 3, 7]"
    using FillQueue_batches [where X = ref_libxdp and w = ref_zero
        and q = "FillQueue_new (XskRingProd (ref_prod 100)) u"
        and bs = "[map FrameDesc_new [1, 2, 3], map FrameDesc_new [4, 5], [FrameDesc_new 7]]",
        unfolded ref_libxdp_simps, OF ref_fill_contract]
    by (fastforce simp: slice_len_def FillQueue_new_def FrameDesc_new_def)
qed

text \<open>
  C32: \<open>produce_one\<close> of the fill queue agrees with \<open>produce\<close> on a slice of one, for any libxdp:
  same count, same queue, same memory. The one difference is the overflow check: \<open>produce\<close>
  steps the index once more than it needs, so with checks on it panics at the last index.
\<close>

theorem FillQueue_produce_one_eq:
  "FillQueue_produce oc X w q [d] = (case reserve X w (fq_raw q) 1 0 of (cnt, idx, r, w1) \<Rightarrow>
     if oc \<and> 0 < cnt \<and> unat idx = 2 ^ 32 - 1 then Panic else Ret (FillQueue_produce_one X w q d))"
proof -
  obtain cnt idx r w1 where res: "reserve X w (fq_raw q) 1 0 = (cnt, idx, r, w1)"
    by (rule prod_cases4)
  obtain r' w2 where sub: "submit X (write_run (fill_addr_set X) w1 r idx
      (map fd_addr (take (unat cnt) [d]))) r cnt = (r', w2)" by (rule prod.exhaust)
  have one: "(ucast (slice_len [d]) :: u32) = 1" by (simp add: slice_len_def)
  note eq = FillQueue_produce_eq [where ds = "[d]", unfolded one, OF res sub, of oc]
  show ?thesis
  proof (cases "cnt = 0")
    case True
    then show ?thesis by (simp add: eq res FillQueue_produce_one_def)
  next
    case False
    then obtain m where m: "unat cnt = Suc m" by (metis unat_eq_zero not0_implies_Suc)
    have "2 ^ 32 \<le> unat idx + 1 \<longleftrightarrow> unat idx = 2 ^ 32 - 1"
      using unat_u32_bound [of idx] by auto
    with False m sub show ?thesis
      by (simp add: eq res FillQueue_produce_one_def word_gt_0)
  qed
qed

text \<open>
  C31: with overflow checks on, \<open>produce\<close> of the fill queue panics exactly when a batch was granted
  and the free-running 32-bit ring index, stepped past the last slot of the batch, does not
  fit 32 bits; it does not submit the slots it reserved. In every other case it does what the
  release build does.
\<close>

theorem FillQueue_produce_profiles:
  "FillQueue_produce True X w q ds = (case reserve X w (fq_raw q) (ucast (slice_len ds)) 0 of
     (cnt, idx, r, w1) \<Rightarrow>
       if length ds mod 2 ^ 32 \<noteq> 0 \<and> cnt \<noteq> 0 \<and> 2 ^ 32 \<le> unat idx + min (length ds) (unat cnt)
       then Panic else FillQueue_produce False X w q ds)"
proof -
  obtain cnt idx r w1 where res: "reserve X w (fq_raw q) (ucast (slice_len ds)) 0 = (cnt, idx, r, w1)"
    by (rule prod_cases4)
  obtain r' w2 where sub: "submit X (write_run (fill_addr_set X) w1 r idx
      (map fd_addr (take (unat cnt) ds))) r cnt = (r', w2)" by (rule prod.exhaust)
  show ?thesis
    by (simp add: FillQueue_produce_eq [OF res sub] res)
qed

text \<open>
  C35: an error from \<open>produce_and_wakeup\<close> of the fill queue does not mean that the frames
  were kept back: the batch had been handed over, at least one frame of it, and only waking
  the kernel failed, with an error other than an interrupted \<open>poll\<close>. The caller must not
  submit the frames again.
\<close>

theorem FillQueue_produce_and_wakeup_error:
  assumes "FillQueue_produce_and_wakeup oc L X w q ds fd ms = Ret (Inl e, q', fd', w')"
  shows "\<exists>n w1. FillQueue_produce oc X w q ds = Ret (n, q', w1) \<and> 0 < n
    \<and> FillQueue_needs_wakeup X w1 q' \<and> e = OsError (errno L w') \<and> errno L w' \<noteq> EINTR L"
  using assms
  by (auto simp: FillQueue_produce_and_wakeup_def rbind_Ret_iff FillQueue_wakeup_after_def
    FillQueue_wakeup_def Fd_poll_read_def PollFd_poll_def Let_def last_os_error_def get_errno_def
    split: prod.splits sum.splits if_splits)

theorem FillQueue_produce_and_wakeup_error_witness:
  "\<forall>u. \<exists>n q' w1. FillQueue_produce False ref_libxdp ref_zero
     (FillQueue_new (XskRingProd (ref_prod 100)) u) [FrameDesc_new 4096] = Ret (n, q', w1)
     \<and> 0 < n \<and> FillQueue_needs_wakeup ref_libxdp w1 q'"
proof
  fix u
  let ?L = "ref_libc\<lparr>poll := \<lambda>w p n ms. (- 1, p, w), errno := \<lambda>w. 9\<rparr>"
  let ?q = "FillQueue_new (XskRingProd (ref_prod 100)) u"
  have "\<exists>q' fd' w'. FillQueue_produce_and_wakeup False ?L ref_libxdp ref_zero ?q
      [FrameDesc_new 4096] (Fd_new ?L 7) 0 = Ret (Inl (OsError 9), q', fd', w')"
    by (simp add: FillQueue_produce_and_wakeup_def FillQueue_produce_def FillQueue_new_def slice_len_def
      ref_reserve_def ref_prod_def ref_submit_def FillQueue_wakeup_after_def FillQueue_needs_wakeup_def
      ref_libxdp_def FillQueue_wakeup_def Fd_poll_read_def PollFd_poll_def get_errno_def
      last_os_error_def ref_libc_def Let_def)
  then obtain q' fd' w' where run: "FillQueue_produce_and_wakeup False ?L ref_libxdp ref_zero ?q
      [FrameDesc_new 4096] (Fd_new ?L 7) 0 = Ret (Inl (OsError 9), q', fd', w')" by blast
  from FillQueue_produce_and_wakeup_error [OF run]
  show "\<exists>n q' w1. FillQueue_produce False ref_libxdp ref_zero ?q [FrameDesc_new 4096]
      = Ret (n, q', w1) \<and> 0 < n \<and> FillQueue_needs_wakeup ref_libxdp w1 q'" by blast
qed

end
