(* ===== verification/Xsk_Comp_Queue.thy ===== *)
theory Xsk_Comp_Queue
  imports Xsk_Umem Xsk_Queue Xsk_Reference
begin

text \<open>
  \<^verbatim>\<open>src/umem/comp_queue.rs\<close>: the queue that gives frames back once they have been sent. Its
  operations are shown correct for every libxdp whose completion ring keeps the contract of
  a consumer ring; the queue then keeps the contract of a consuming queue.
\<close>

section \<open>Operations\<close>

record CompQueue =
  cq_ring :: XskRingCons
  cq_umem :: Umem

definition CompQueue_new :: "XskRingCons \<Rightarrow> Umem \<Rightarrow> CompQueue" where
  "CompQueue_new ring umem = \<lparr>cq_ring = ring, cq_umem = umem\<rparr>"

abbreviation cq_raw :: "CompQueue \<Rightarrow> xsk_ring_cons" where
  "cq_raw q \<equiv> XskRingCons_as_mut (cq_ring q)"

text \<open>The assignments to one descriptor.\<close>

definition CompQueue_read_desc :: "u64 \<Rightarrow> FrameDesc \<Rightarrow> FrameDesc" where
  "CompQueue_read_desc addr desc = desc\<lparr>fd_addr := addr,
     fd_lengths := (fd_lengths desc)\<lparr>sl_data := 0, sl_headroom := 0\<rparr>, fd_options := 0\<rparr>"

fun CompQueue_consume_loop :: "bool \<Rightarrow> 'w libxdp \<Rightarrow> 'w \<Rightarrow> xsk_ring_cons \<Rightarrow> u32 \<Rightarrow> FrameDesc list
    \<Rightarrow> FrameDesc list rust" where
  "CompQueue_consume_loop oc X w r idx [] = Ret []"
| "CompQueue_consume_loop oc X w r idx (desc # descs) =
    (let desc' = CompQueue_read_desc (comp_addr_get X w r idx) desc
     in rbind (add_oc oc idx 1) (\<lambda>idx'.
        rbind (CompQueue_consume_loop oc X w r idx' descs) (\<lambda>descs'. Ret (desc' # descs'))))"

text \<open>The caller's buffer comes back with its first \<open>cnt\<close> descriptors written.\<close>

definition CompQueue_consume :: "bool \<Rightarrow> 'w libxdp \<Rightarrow> 'w \<Rightarrow> CompQueue \<Rightarrow> FrameDesc list
    \<Rightarrow> (usize \<times> FrameDesc list \<times> CompQueue \<times> 'w) rust" where
  "CompQueue_consume oc X w q descs =
    (let nb = ucast (slice_len descs) :: u32
     in if nb = 0 then Ret (0, descs, q, w)
        else let (cnt, idx, r, w') = peek X w (cq_raw q) nb 0
          in if 0 < cnt then
               (let n = unat (ucast cnt :: usize)
                in rbind (CompQueue_consume_loop oc X w' r idx (take n descs)) (\<lambda>done.
                     let (r', w'') = release X w' r cnt
                     in Ret (ucast cnt, done @ drop n descs, q\<lparr>cq_ring := XskRingCons r'\<rparr>, w'')))
             else Ret (ucast cnt, descs, q\<lparr>cq_ring := XskRingCons r\<rparr>, w'))"

definition CompQueue_consume_one :: "'w libxdp \<Rightarrow> 'w \<Rightarrow> CompQueue \<Rightarrow> FrameDesc
    \<Rightarrow> usize \<times> FrameDesc \<times> CompQueue \<times> 'w" where
  "CompQueue_consume_one X w q desc =
    (let (cnt, idx, r, w') = peek X w (cq_raw q) 1 0
     in if 0 < cnt then
          let desc' = CompQueue_read_desc (comp_addr_get X w' r idx) desc;
              (r', w'') = release X w' r cnt
          in (ucast cnt, desc', q\<lparr>cq_ring := XskRingCons r'\<rparr>, w'')
        else (ucast cnt, desc, q\<lparr>cq_ring := XskRingCons r\<rparr>, w'))"

section \<open>The loop reads a run of slots\<close>

text \<open>Every field of a descriptor is overwritten.\<close>

lemma CompQueue_read_desc_eq: "CompQueue_read_desc a d = FrameDesc_new a"
  by (simp add: CompQueue_read_desc_def FrameDesc_new_def SegmentLengths_default_def)

lemma CompQueue_consume_loop_eq:
  "CompQueue_consume_loop oc X w r idx ds =
    (if oc \<and> 2 ^ 32 \<le> unat idx + length ds then Panic
     else Ret (map FrameDesc_new (read_run (comp_addr_get X) w r idx (length ds))))"
proof (induction ds arbitrary: idx)
  case Nil
  then show ?case using unat_u32_bound [of idx] by simp
next
  case (Cons d ds)
  show ?case
    by (simp only: CompQueue_consume_loop.simps Let_def Cons.IH rbind_if rbind.simps add_oc_step
      list.map read_run.simps list.size add_Suc_right add_0_right CompQueue_read_desc_eq)
qed

lemma CompQueue_consume_eq:
  assumes "peek X w (cq_raw q) (ucast (slice_len ds)) 0 = (cnt, idx, r, w1)"
    and "release X w1 r cnt = (r', w2)"
  shows "CompQueue_consume oc X w q ds =
    (if length ds mod 2 ^ 32 = 0 then Ret (0, ds, q, w)
     else if cnt = 0 then Ret (0, ds, q\<lparr>cq_ring := XskRingCons r\<rparr>, w1)
     else if oc \<and> 2 ^ 32 \<le> unat idx + min (length ds) (unat cnt) then Panic
     else Ret (ucast cnt, map FrameDesc_new (read_run (comp_addr_get X) w1 r idx
            (min (length ds) (unat cnt))) @ drop (unat cnt) ds, q\<lparr>cq_ring := XskRingCons r'\<rparr>, w2))"
  using assms slice_len_u32_eq_0 [of ds]
  by (simp add: CompQueue_consume_def CompQueue_consume_loop_eq Let_def word_gt_0)

section \<open>Over a ring that keeps its contract\<close>

locale comp_ring =
  cons_ring "peek X" "comp_addr_get X" "release X" invar avail held base
  for X :: "'w libxdp" and invar avail held base
begin

abbreviation ready :: "'w \<Rightarrow> CompQueue \<Rightarrow> bool" where
  "ready w q \<equiv> invar w (cq_raw q) \<and> held w (cq_raw q) = []"

lemma consume_outcome:
  assumes "ready w q"
  shows "\<exists>n q' w'. CompQueue_consume False X w q ds
      = Ret (of_nat n, map FrameDesc_new (take n (avail w (cq_raw q))) @ drop n ds, q', w')
    \<and> ready w' q' \<and> cq_umem q' = cq_umem q \<and> avail w' (cq_raw q') = drop n (avail w (cq_raw q))
    \<and> n \<le> length ds mod 2 ^ 32 \<and> n \<le> length (avail w (cq_raw q))
    \<and> (0 < length ds mod 2 ^ 32 \<and> avail w (cq_raw q) \<noteq> [] \<longrightarrow> 0 < n)"
proof -
  obtain cnt idx r w1 where pk: "peek X w (cq_raw q) (ucast (slice_len ds)) 0 = (cnt, idx, r, w1)"
    by (rule prod_cases4)
  obtain r' w2 where rel: "release X w1 r cnt = (r', w2)" by (rule prod.exhaust)
  from assms have "invar w (cq_raw q)" and "held w (cq_raw q) = []" by simp_all
  from consume_batch [OF this pk rel] CompQueue_consume_eq [OF pk rel, of False] assms
  show ?thesis by (intro exI [of _ "if length ds mod 2 ^ 32 = 0 then 0 else unat cnt"]) auto
qed

end

sublocale comp_ring \<subseteq> cq: batch_consumer "CompQueue_consume False X" FrameDesc_new ready
  "\<lambda>w q. avail w (cq_raw q)"
proof unfold_locales
  fix w q and ds :: "FrameDesc list"
  assume a: "ready w q" "length ds < 2 ^ 32"
  with consume_outcome [OF a(1), of ds]
  show "\<exists>n q' w'. CompQueue_consume False X w q ds
      = Ret (of_nat n, map FrameDesc_new (take n (avail w (cq_raw q))) @ drop n ds, q', w') \<and>
      ready w' q' \<and> avail w' (cq_raw q') = drop n (avail w (cq_raw q)) \<and> n \<le> length ds \<and>
      n \<le> length (avail w (cq_raw q)) \<and> (ds \<noteq> [] \<and> avail w (cq_raw q) \<noteq> [] \<longrightarrow> 0 < n)"
    by fastforce
qed

context comp_ring
begin

lemmas batches = cq.consume_all_prefix

end

text \<open>The reference interface is such a libxdp.\<close>

interpretation ref_comp: comp_ring ref_libxdp ref_cons_ok "ref_avail rw_addrs" "ref_held rw_addrs" ref_cons_base
  by (rule comp_ring.intro) (simp add: ref_comp_contract)

section \<open>Properties\<close>

text \<open>
  C6: consuming from the completion queue yields a prefix of what is available. Over any libxdp whose
  ring keeps the contract of a consumer ring, a release build returns a count \<open>n\<close>, has
  overwritten exactly the first \<open>n\<close> descriptors of the caller's slice with the addresses of sent frames, with lengths and options reset, in
  order, has left the others alone, and has removed those \<open>n\<close> entries and no others. It
  takes at least one when the slice and the queue have any.
\<close>

theorem CompQueue_consume_prefix:
  assumes ring: "cons_ring (peek X) (comp_addr_get X) (release X) invar avail held base"
    and inv: "invar w (cq_raw q)" and held: "held w (cq_raw q) = []"
  shows "\<exists>n q' w'. CompQueue_consume False X w q ds
      = Ret (of_nat n, map FrameDesc_new (take n (avail w (cq_raw q))) @ drop n ds, q', w')
    \<and> invar w' (cq_raw q') \<and> held w' (cq_raw q') = [] \<and> cq_umem q' = cq_umem q
    \<and> avail w' (cq_raw q') = drop n (avail w (cq_raw q))
    \<and> n \<le> length ds mod 2 ^ 32 \<and> n \<le> length (avail w (cq_raw q))
    \<and> (0 < length ds mod 2 ^ 32 \<and> avail w (cq_raw q) \<noteq> [] \<longrightarrow> 0 < n)"
proof -
  note contract = comp_ring.intro [OF ring]
  show ?thesis
    using comp_ring.consume_outcome [OF contract conjI [OF inv held], of ds] by blast
qed

theorem CompQueue_consume_prefix_witness:
  "\<forall>u d1 d2 d3. \<exists>n q' w'. CompQueue_consume False ref_libxdp ref_loaded
      (CompQueue_new (XskRingCons (ref_cons 200)) u) [d1, d2, d3]
      = Ret (of_nat n, map FrameDesc_new (take n (ref_avail rw_addrs ref_loaded (ref_cons 200))) @ drop n [d1, d2, d3], q', w')
    \<and> 0 < n \<and> n \<le> 2 \<and> cq_umem q' = u"
proof (intro allI)
  fix u d1 d2 d3
  show "\<exists>n q' w'. CompQueue_consume False ref_libxdp ref_loaded
      (CompQueue_new (XskRingCons (ref_cons 200)) u) [d1, d2, d3]
      = Ret (of_nat n, map FrameDesc_new (take n (ref_avail rw_addrs ref_loaded (ref_cons 200))) @ drop n [d1, d2, d3], q', w')
    \<and> 0 < n \<and> n \<le> 2 \<and> cq_umem q' = u"
    using CompQueue_consume_prefix [where X = ref_libxdp and w = ref_loaded
        and q = "CompQueue_new (XskRingCons (ref_cons 200)) u" and ds = "[d1, d2, d3]",
        unfolded ref_libxdp_simps, OF ref_comp_contract]
    by (fastforce simp: CompQueue_new_def)
qed

text \<open>
  A caller that consumes from the completion queue into one slice after the other sees every entry
  once and in order: what it got, put together, followed by what is still available, is what
  was available at the start.
\<close>

theorem CompQueue_batches:
  assumes ring: "cons_ring (peek X) (comp_addr_get X) (release X) invar avail held base"
    and inv: "invar w (cq_raw q)" and held: "held w (cq_raw q) = []"
    and len: "\<forall>b \<in> set bs. length b < 2 ^ 32"
  shows "\<exists>got q' w'. consume_all (CompQueue_consume False X) w q bs = Ret (got, q', w')
    \<and> map FrameDesc_new (avail w (cq_raw q)) = concat got @ map FrameDesc_new (avail w' (cq_raw q'))"
proof -
  note contract = comp_ring.intro [OF ring]
  show ?thesis using comp_ring.batches [OF contract conjI [OF inv held] len] by blast
qed

theorem CompQueue_batches_witness:
  "\<forall>u d1 d2. \<exists>got q' w'. consume_all (CompQueue_consume False ref_libxdp) ref_loaded
      (CompQueue_new (XskRingCons (ref_cons 200)) u) [[d1], [], [d2]] = Ret (got, q', w')
    \<and> [FrameDesc_new 4096, FrameDesc_new 8192]
      = concat got @ map FrameDesc_new (ref_avail rw_addrs w' (cq_raw q'))"
proof (intro allI)
  fix u d1 d2
  show "\<exists>got q' w'. consume_all (CompQueue_consume False ref_libxdp) ref_loaded
      (CompQueue_new (XskRingCons (ref_cons 200)) u) [[d1], [], [d2]] = Ret (got, q', w')
    \<and> [FrameDesc_new 4096, FrameDesc_new 8192]
      = concat got @ map FrameDesc_new (ref_avail rw_addrs w' (cq_raw q'))"
    using CompQueue_batches [where X = ref_libxdp and w = ref_loaded
        and q = "CompQueue_new (XskRingCons (ref_cons 200)) u" and bs = "[[d1], [], [d2]]",
        unfolded ref_libxdp_simps, OF ref_comp_contract]
    by (simp add: CompQueue_new_def)
qed

text \<open>
  \<open>consume_one\<close> of the completion queue agrees with \<open>consume\<close> on a slice of one, for any libxdp.
  The one difference is the overflow check: \<open>consume\<close> steps the index once more than it
  needs, so with checks on it panics at the last index.
\<close>

theorem CompQueue_consume_one_eq:
  "CompQueue_consume oc X w q [d] = (case peek X w (cq_raw q) 1 0 of (cnt, idx, r, w1) \<Rightarrow>
     if oc \<and> 0 < cnt \<and> unat idx = 2 ^ 32 - 1 then Panic
     else (case CompQueue_consume_one X w q d of (n, d', q', w') \<Rightarrow> Ret (n, [d'], q', w')))"
proof -
  obtain cnt idx r w1 where pk: "peek X w (cq_raw q) 1 0 = (cnt, idx, r, w1)"
    by (rule prod_cases4)
  obtain r' w2 where rel: "release X w1 r cnt = (r', w2)" by (rule prod.exhaust)
  have one: "(ucast (slice_len [d]) :: u32) = 1" by (simp add: slice_len_def)
  note eq = CompQueue_consume_eq [where ds = "[d]", unfolded one, OF pk rel, of oc]
  show ?thesis
  proof (cases "cnt = 0")
    case True
    then show ?thesis by (simp add: eq pk CompQueue_consume_one_def)
  next
    case False
    then obtain m where m: "unat cnt = Suc m" by (metis unat_eq_zero not0_implies_Suc)
    have "2 ^ 32 \<le> unat idx + 1 \<longleftrightarrow> unat idx = 2 ^ 32 - 1"
      using unat_u32_bound [of idx] by auto
    with False m rel show ?thesis
      by (simp add: eq pk CompQueue_consume_one_def word_gt_0 CompQueue_read_desc_eq)
  qed
qed

end
