(* ===== verification/Xsk_Socket_Handle.thy ===== *)
theory Xsk_Socket_Handle
  imports Xsk_Umem Xsk_Fd
begin

text \<open>
  \<^verbatim>\<open>src/socket/mod.rs\<close>, the types: the wrapper that deletes a libxdp socket, the
  reference-counted inner part that keeps the UMEM alive for it, and the handle. Both the
  transmit and the receive queue hold such a handle. The store of the UMEM theory gains the
  arena of the inner parts.
\<close>

datatype XskSocket = XskSocket ptr

definition XskSocket_new :: "ptr \<Rightarrow> XskSocket" where
  "XskSocket_new p = XskSocket p"

primrec XskSocket_drop :: "'w libxdp \<Rightarrow> 'w \<Rightarrow> XskSocket \<Rightarrow> 'w" where
  "XskSocket_drop X w (XskSocket p) = socket_delete X w p"

record SocketInner =
  si_ptr :: XskSocket
  si_umem :: Umem

definition SocketInner_new :: "XskSocket \<Rightarrow> Umem \<Rightarrow> SocketInner" where
  "SocketInner_new p umem = \<lparr>si_ptr = p, si_umem = umem\<rparr>"

record Socket =
  so_fd :: Fd
  so_inner :: nat

record 'w socket_store = "'w umem_store" +
  ss_sockets :: "SocketInner arena"

definition Socket_clone :: "('w, 'z) socket_store_scheme \<Rightarrow> Socket
    \<Rightarrow> Socket \<times> ('w, 'z) socket_store_scheme" where
  "Socket_clone st s = (\<lparr>so_fd = Fd_clone (so_fd s), so_inner = so_inner s\<rparr>,
     st\<lparr>ss_sockets := arc_clone (ss_sockets st) (so_inner s)\<rparr>)"

text \<open>Fields drop in declaration order: the libxdp socket first, then the UMEM handle.\<close>

definition SocketInner_drop :: "'w libc \<Rightarrow> 'w libxdp \<Rightarrow> ('w, 'z) socket_store_scheme \<Rightarrow> SocketInner
    \<Rightarrow> ('w, 'z) socket_store_scheme" where
  "SocketInner_drop L X st si =
     Umem_drop L X (st\<lparr>us_world := XskSocket_drop X (us_world st) (si_ptr si)\<rparr>) (si_umem si)"

definition Socket_drop :: "'w libc \<Rightarrow> 'w libxdp \<Rightarrow> ('w, 'z) socket_store_scheme \<Rightarrow> Socket
    \<Rightarrow> ('w, 'z) socket_store_scheme" where
  "Socket_drop L X st s = (let (v, sockets) = arc_drop (ss_sockets st) (so_inner s);
       st1 = st\<lparr>ss_sockets := sockets\<rparr>
     in case v of None \<Rightarrow> st1 | Some si \<Rightarrow> SocketInner_drop L X st1 si)"

end
