(* ===== verification/Xsk_Tx_Queue.thy ===== *)
theory Xsk_Tx_Queue
  imports Xsk_Socket_Handle Xsk_Queue Xsk_Reference
begin

text \<open>
  \<^verbatim>\<open>src/socket/tx_queue.rs\<close>: the queue that submits frames for transmission. As for the
  fill queue, the operations are shown correct for every libxdp whose transmit ring keeps
  the contract of a producer ring.
\<close>

section \<open>Operations\<close>

record TxQueue =
  tx_ring :: XskRingProd
  tx_socket :: Socket

definition TxQueue_new :: "XskRingProd \<Rightarrow> Socket \<Rightarrow> TxQueue" where
  "TxQueue_new ring socket = \<lparr>tx_ring = ring, tx_socket = socket\<rparr>"

abbreviation tx_raw :: "TxQueue \<Rightarrow> xsk_ring_prod" where
  "tx_raw q \<equiv> XskRingProd_as_mut (tx_ring q)"

fun TxQueue_produce_loop :: "bool \<Rightarrow> 'w libxdp \<Rightarrow> 'w \<Rightarrow> xsk_ring_prod \<Rightarrow> u32 \<Rightarrow> FrameDesc list
    \<Rightarrow> 'w rust" where
  "TxQueue_produce_loop oc X w r idx [] = Ret w"
| "TxQueue_produce_loop oc X w r idx (desc # descs) =
    (let w' = tx_desc_set X w r idx (FrameDesc_write_xdp_desc desc (tx_desc_get X w r idx))
     in rbind (add_oc oc idx 1) (\<lambda>idx'. TxQueue_produce_loop oc X w' r idx' descs))"

definition TxQueue_produce :: "bool \<Rightarrow> 'w libxdp \<Rightarrow> 'w \<Rightarrow> TxQueue \<Rightarrow> FrameDesc list
    \<Rightarrow> (usize \<times> TxQueue \<times> 'w) rust" where
  "TxQueue_produce oc X w q descs =
    (let nb = ucast (slice_len descs) :: u32
     in if nb = 0 then Ret (0, q, w)
        else let (cnt, idx, r, w') = reserve X w (tx_raw q) nb 0
          in if 0 < cnt then
               rbind (TxQueue_produce_loop oc X w' r idx
                        (take (unat (ucast cnt :: usize)) descs)) (\<lambda>w''.
                 let (r', w''') = submit X w'' r cnt
                 in Ret (ucast cnt, q\<lparr>tx_ring := XskRingProd r'\<rparr>, w'''))
             else Ret (ucast cnt, q\<lparr>tx_ring := XskRingProd r\<rparr>, w'))"

definition TxQueue_produce_one :: "'w libxdp \<Rightarrow> 'w \<Rightarrow> TxQueue \<Rightarrow> FrameDesc
    \<Rightarrow> usize \<times> TxQueue \<times> 'w" where
  "TxQueue_produce_one X w q desc =
    (let (cnt, idx, r, w') = reserve X w (tx_raw q) 1 0
     in if 0 < cnt then
          let w'' = tx_desc_set X w' r idx (FrameDesc_write_xdp_desc desc (tx_desc_get X w' r idx));
              (r', w''') = submit X w'' r cnt
          in (ucast cnt, q\<lparr>tx_ring := XskRingProd r'\<rparr>, w''')
        else (ucast cnt, q\<lparr>tx_ring := XskRingProd r\<rparr>, w'))"

definition TxQueue_needs_wakeup :: "'w libxdp \<Rightarrow> 'w \<Rightarrow> TxQueue \<Rightarrow> bool" where
  "TxQueue_needs_wakeup X w q \<longleftrightarrow> prod_needs_wakeup X w (XskRingProd_as_ref (tx_ring q)) \<noteq> 0"

definition TxQueue_wakeup :: "'w libc \<Rightarrow> 'w \<Rightarrow> TxQueue \<Rightarrow> (io_error + unit) \<times> 'w" where
  "TxQueue_wakeup L w q =
    (let (ret, w') = sendto L w (Fd_as_raw_fd (so_fd (tx_socket q))) null 0 (MSG_DONTWAIT L) null 0
     in (if sint ret < 0 then
           (if get_errno L w' \<in> {ENOBUFS L, EAGAIN L, EBUSY L, ENETDOWN L} then Inr ()
            else Inl (last_os_error L w'))
         else Inr (), w'))"

text \<open>The common tail of the two operations that wake the kernel.\<close>

definition TxQueue_wakeup_after :: "'w libc \<Rightarrow> 'w libxdp \<Rightarrow> 'w \<Rightarrow> TxQueue \<Rightarrow> usize
    \<Rightarrow> (io_error + usize) \<times> TxQueue \<times> 'w" where
  "TxQueue_wakeup_after L X w q cnt =
    (if TxQueue_needs_wakeup X w q then
       (case TxQueue_wakeup L w q of
          (Inl e, w') \<Rightarrow> (Inl e, q, w')
        | (Inr _, w') \<Rightarrow> (Inr cnt, q, w'))
     else (Inr cnt, q, w))"

definition TxQueue_produce_and_wakeup :: "bool \<Rightarrow> 'w libc \<Rightarrow> 'w libxdp \<Rightarrow> 'w \<Rightarrow> TxQueue
    \<Rightarrow> FrameDesc list \<Rightarrow> ((io_error + usize) \<times> TxQueue \<times> 'w) rust" where
  "TxQueue_produce_and_wakeup oc L X w q descs =
    rbind (TxQueue_produce oc X w q descs) (\<lambda>(cnt, q', w').
      Ret (TxQueue_wakeup_after L X w' q' cnt))"

definition TxQueue_produce_one_and_wakeup :: "'w libc \<Rightarrow> 'w libxdp \<Rightarrow> 'w \<Rightarrow> TxQueue
    \<Rightarrow> FrameDesc \<Rightarrow> (io_error + usize) \<times> TxQueue \<times> 'w" where
  "TxQueue_produce_one_and_wakeup L X w q desc =
    (let (cnt, q', w') = TxQueue_produce_one X w q desc in TxQueue_wakeup_after L X w' q' cnt)"

definition TxQueue_fd :: "TxQueue \<Rightarrow> Fd" where
  "TxQueue_fd q = so_fd (tx_socket q)"

text \<open>A mutable borrow of the descriptor: the value, and storing it back.\<close>

definition TxQueue_fd_mut :: "TxQueue \<Rightarrow> Fd" where
  "TxQueue_fd_mut q = so_fd (tx_socket q)"

definition TxQueue_fd_mut_back :: "TxQueue \<Rightarrow> Fd \<Rightarrow> TxQueue" where
  "TxQueue_fd_mut_back q f = q\<lparr>tx_socket := (tx_socket q)\<lparr>so_fd := f\<rparr>\<rparr>"

definition TxQueue_poll :: "'w libc \<Rightarrow> 'w \<Rightarrow> TxQueue \<Rightarrow> i32 \<Rightarrow> (io_error + bool) \<times> TxQueue \<times> 'w" where
  "TxQueue_poll L w q poll_timeout =
    (let (r, f, w') = Fd_poll_write L w (so_fd (tx_socket q)) poll_timeout
     in (r, q\<lparr>tx_socket := (tx_socket q)\<lparr>so_fd := f\<rparr>\<rparr>, w'))"

section \<open>The loop writes a run of slots\<close>

text \<open>What a slot holds afterwards: every field of it is overwritten.\<close>

definition tx_entry :: "FrameDesc \<Rightarrow> xdp_desc" where
  "tx_entry d = \<lparr>xd_addr = fd_addr d, xd_len = ucast (sl_data (fd_lengths d)), xd_options = fd_options d\<rparr>"

lemma write_xdp_desc_eq: "FrameDesc_write_xdp_desc d xd = tx_entry d"
  by (simp add: FrameDesc_write_xdp_desc_def tx_entry_def)

lemma TxQueue_produce_loop_eq:
  "TxQueue_produce_loop oc X w r idx ds =
    (if oc \<and> 2 ^ 32 \<le> unat idx + length ds then Panic
     else Ret (write_run (tx_desc_set X) w r idx (map tx_entry ds)))"
proof (induction ds arbitrary: w idx)
  case Nil
  then show ?case using unat_u32_bound [of idx] by simp
next
  case (Cons d ds)
  show ?case
    by (simp only: TxQueue_produce_loop.simps Let_def Cons.IH add_oc_step list.map
      write_run.simps list.size add_Suc_right add_0_right write_xdp_desc_eq)
qed

lemma TxQueue_produce_eq:
  assumes "reserve X w (tx_raw q) (ucast (slice_len ds)) 0 = (cnt, idx, r, w1)"
    and "submit X (write_run (tx_desc_set X) w1 r idx (map tx_entry (take (unat cnt) ds))) r cnt
      = (r', w2)"
  shows "TxQueue_produce oc X w q ds =
    (if length ds mod 2 ^ 32 = 0 then Ret (0, q, w)
     else if cnt = 0 then Ret (0, q\<lparr>tx_ring := XskRingProd r\<rparr>, w1)
     else if oc \<and> 2 ^ 32 \<le> unat idx + min (length ds) (unat cnt) then Panic
     else Ret (ucast cnt, q\<lparr>tx_ring := XskRingProd r'\<rparr>, w2))"
  using assms slice_len_u32_eq_0 [of ds]
  by (simp add: TxQueue_produce_def TxQueue_produce_loop_eq Let_def word_gt_0)

section \<open>Over a ring that keeps its contract\<close>

locale send_ring =
  prod_ring "reserve X" "tx_desc_set X" "submit X" invar queued staged base room
  for X :: "'w libxdp" and invar queued staged base room
begin

abbreviation ready :: "'w \<Rightarrow> TxQueue \<Rightarrow> bool" where
  "ready w q \<equiv> invar w (tx_raw q) \<and> staged w (tx_raw q) = []"

lemma produce_outcome:
  assumes "ready w q" and k: "k = length ds mod 2 ^ 32"
  shows "\<exists>n q' w'. TxQueue_produce False X w q ds = Ret (n, q', w') \<and> ready w' q'
    \<and> tx_socket q' = tx_socket q
    \<and> (if k \<le> room w (tx_raw q)
       then unat n = k \<and> queued w' (tx_raw q') = queued w (tx_raw q) @ map tx_entry (take k ds)
         \<and> room w' (tx_raw q') = room w (tx_raw q) - k
       else n = 0 \<and> queued w' (tx_raw q') = queued w (tx_raw q)
         \<and> room w' (tx_raw q') = room w (tx_raw q))"
proof -
  obtain cnt idx r w1 where res: "reserve X w (tx_raw q) (ucast (slice_len ds)) 0 = (cnt, idx, r, w1)"
    by (rule prod_cases4)
  obtain r' w2 where sub: "submit X (write_run (tx_desc_set X) w1 r idx
      (map tx_entry (take (unat cnt) ds))) r cnt = (r', w2)" by (rule prod.exhaust)
  from assms have "invar w (tx_raw q)" "staged w (tx_raw q) = []" by simp_all
  from produce_batch [OF this k res, of tx_entry, OF sub] TxQueue_produce_eq [OF res sub, of False] assms
  show ?thesis by (auto split: if_splits)
qed

end

sublocale send_ring \<subseteq> txq: batch_producer "TxQueue_produce False X" tx_entry ready
  "\<lambda>w q. queued w (tx_raw q)" "\<lambda>w q. room w (tx_raw q)"
proof unfold_locales
  fix w q and ds :: "FrameDesc list"
  assume a: "ready w q" "length ds < 2 ^ 32"
  then have k: "length ds = length ds mod 2 ^ 32" by simp
  from produce_outcome [OF a(1) k]
  show "length ds \<le> room w (tx_raw q) \<Longrightarrow>
      \<exists>q' w'. TxQueue_produce False X w q ds = Ret (slice_len ds, q', w') \<and> ready w' q' \<and>
        queued w' (tx_raw q') = queued w (tx_raw q) @ map tx_entry ds \<and>
        room w' (tx_raw q') = room w (tx_raw q) - length ds"
    by (fastforce simp: slice_len_unat)
  from produce_outcome [OF a(1) k]
  show "room w (tx_raw q) < length ds \<Longrightarrow>
      \<exists>q' w'. TxQueue_produce False X w q ds = Ret (0, q', w') \<and> ready w' q' \<and>
        queued w' (tx_raw q') = queued w (tx_raw q) \<and> room w' (tx_raw q') = room w (tx_raw q)"
    by fastforce
qed

context send_ring
begin

lemmas batches = txq.produce_all_accepted

end

text \<open>The reference interface is such a libxdp.\<close>

interpretation ref_send: send_ring ref_libxdp ref_prod_ok "ref_queued rw_descs" "ref_staged rw_descs" ref_base ref_room
  by (rule send_ring.intro) (simp add: ref_tx_contract)

section \<open>Properties\<close>

text \<open>
  C4: handing a batch to the transmit queue is all or nothing. Over any libxdp whose ring keeps the
  contract of a producer ring, a release build queues the descriptors of the whole batch, in order
  and behind what was queued before, when there is room for it, and otherwise leaves the queue
  as it was and returns 0. The batch is the first \<open>len mod 2 ^ 32\<close> descriptors, since the
  code casts the length to 32 bits.
\<close>

theorem TxQueue_produce_all_or_nothing:
  assumes ring: "prod_ring (reserve X) (tx_desc_set X) (submit X) invar queued staged base room"
    and inv: "invar w (tx_raw q)" and st: "staged w (tx_raw q) = []"
  shows "\<exists>n q' w'. TxQueue_produce False X w q ds = Ret (n, q', w')
    \<and> invar w' (tx_raw q') \<and> staged w' (tx_raw q') = [] \<and> tx_socket q' = tx_socket q
    \<and> (let k = length ds mod 2 ^ 32 in
       if k \<le> room w (tx_raw q)
       then unat n = k \<and> queued w' (tx_raw q') = queued w (tx_raw q) @ map tx_entry (take k ds)
         \<and> room w' (tx_raw q') = room w (tx_raw q) - k
       else n = 0 \<and> queued w' (tx_raw q') = queued w (tx_raw q)
         \<and> room w' (tx_raw q') = room w (tx_raw q))"
proof -
  note contract = send_ring.intro [OF ring]
  show ?thesis
    unfolding Let_def using send_ring.produce_outcome [OF contract conjI [OF inv st] refl] by blast
qed

theorem TxQueue_produce_all_or_nothing_witness:
  "\<forall>s. \<exists>n q' w'. TxQueue_produce False ref_libxdp ref_zero
      (TxQueue_new (XskRingProd (ref_prod 100)) s) [FrameDesc_new 4096, FrameDesc_new 8192] = Ret (n, q', w')
    \<and> unat n = 2 \<and> ref_queued rw_descs w' (tx_raw q') = [tx_entry (FrameDesc_new 4096), tx_entry (FrameDesc_new 8192)]"
proof
  fix s
  show "\<exists>n q' w'. TxQueue_produce False ref_libxdp ref_zero
      (TxQueue_new (XskRingProd (ref_prod 100)) s) [FrameDesc_new 4096, FrameDesc_new 8192] = Ret (n, q', w')
    \<and> unat n = 2 \<and> ref_queued rw_descs w' (tx_raw q') = [tx_entry (FrameDesc_new 4096), tx_entry (FrameDesc_new 8192)]"
    using TxQueue_produce_all_or_nothing [where X = ref_libxdp and w = ref_zero
        and q = "TxQueue_new (XskRingProd (ref_prod 100)) s"
        and ds = "[FrameDesc_new 4096, FrameDesc_new 8192]", unfolded ref_libxdp_simps, OF ref_tx_contract]
    by (fastforce simp: TxQueue_new_def)
qed

text \<open>
  A caller that offers one batch after the other to the transmit queue gets, batch by batch, the
  length of the batch if it still fits and 0 if not, and the queue holds exactly the accepted
  batches, in the order offered.
\<close>

theorem TxQueue_batches:
  assumes ring: "prod_ring (reserve X) (tx_desc_set X) (submit X) invar queued staged base room"
    and inv: "invar w (tx_raw q)" and st: "staged w (tx_raw q) = []"
    and len: "\<forall>b \<in> set bs. length b < 2 ^ 32"
  shows "\<exists>q' w'. produce_all (TxQueue_produce False X) w q bs
      = Ret (map slice_len (accepted (room w (tx_raw q)) bs), q', w')
    \<and> queued w' (tx_raw q')
      = queued w (tx_raw q) @ map tx_entry (concat (accepted (room w (tx_raw q)) bs))"
proof -
  note contract = send_ring.intro [OF ring]
  from inv st send_ring.batches [OF contract _ len, of w q] show ?thesis by blast
qed

theorem TxQueue_batches_witness:
  "\<forall>s. \<exists>q' w'. produce_all (TxQueue_produce False ref_libxdp) ref_zero
      (TxQueue_new (XskRingProd (ref_prod 100)) s)
      [map FrameDesc_new [1, 2, 3], map FrameDesc_new [4, 5], [FrameDesc_new 7]] = Ret ([3, 0, 1], q', w')
    \<and> ref_queued rw_descs w' (tx_raw q') = map (\<lambda>a. tx_entry (FrameDesc_new a)) [1, 2, 3, 7]"
proof
  fix s
  show "\<exists>q' w'. produce_all (TxQueue_produce False ref_libxdp) ref_zero
      (TxQueue_new (XskRingProd (ref_prod 100)) s)
      [map FrameDesc_new [1, 2, 3], map FrameDesc_new [4, 5], [FrameDesc_new 7]] = Ret ([3, 0, 1], q', w')
    \<and> ref_queued rw_descs w' (tx_raw q') = map (\<lambda>a. tx_entry (FrameDesc_new a)) [1, 2, 3, 7]"
    using TxQueue_batches [where X = ref_libxdp and w = ref_zero
        and q = "TxQueue_new (XskRingProd (ref_prod 100)) s"
        and bs = "[map FrameDesc_new [1, 2, 3], map FrameDesc_new [4, 5], [FrameDesc_new 7]]",
        unfolded ref_libxdp_simps, OF ref_tx_contract]
    by (fastforce simp: slice_len_def TxQueue_new_def)
qed

text \<open>
  \<open>produce_one\<close> of the transmit queue agrees with \<open>produce\<close> on a slice of one, for any libxdp:
  same count, same queue, same memory. The one difference is the overflow check: \<open>produce\<close>
  steps the index once more than it needs, so with checks on it panics at the last index.
\<close>

theorem TxQueue_produce_one_eq:
  "TxQueue_produce oc X w q [d] = (case reserve X w (tx_raw q) 1 0 of (cnt, idx, r, w1) \<Rightarrow>
     if oc \<and> 0 < cnt \<and> unat idx = 2 ^ 32 - 1 then Panic else Ret (TxQueue_produce_one X w q d))"
proof -
  obtain cnt idx r w1 where res: "reserve X w (tx_raw q) 1 0 = (cnt, idx, r, w1)"
    by (rule prod_cases4)
  obtain r' w2 where sub: "submit X (write_run (tx_desc_set X) w1 r idx
      (map tx_entry (take (unat cnt) [d]))) r cnt = (r', w2)" by (rule prod.exhaust)
  have one: "(ucast (slice_len [d]) :: u32) = 1" by (simp add: slice_len_def)
  note eq = TxQueue_produce_eq [where ds = "[d]", unfolded one, OF res sub, of oc]
  show ?thesis
  proof (cases "cnt = 0")
    case True
    then show ?thesis by (simp add: eq res TxQueue_produce_one_def)
  next
    case False
    then obtain m where m: "unat cnt = Suc m" by (metis unat_eq_zero not0_implies_Suc)
    have "2 ^ 32 \<le> unat idx + 1 \<longleftrightarrow> unat idx = 2 ^ 32 - 1"
      using unat_u32_bound [of idx] by auto
    with False m sub show ?thesis
      by (simp add: eq res TxQueue_produce_one_def word_gt_0 write_xdp_desc_eq)
  qed
qed

text \<open>
  With overflow checks on, \<open>produce\<close> of the transmit queue panics exactly when a batch was granted
  and the free-running 32-bit ring index, stepped past the last slot of the batch, does not
  fit 32 bits; it does not submit the slots it reserved. In every other case it does what the
  release build does.
\<close>

theorem TxQueue_produce_profiles:
  "TxQueue_produce True X w q ds = (case reserve X w (tx_raw q) (ucast (slice_len ds)) 0 of
     (cnt, idx, r, w1) \<Rightarrow>
       if length ds mod 2 ^ 32 \<noteq> 0 \<and> cnt \<noteq> 0 \<and> 2 ^ 32 \<le> unat idx + min (length ds) (unat cnt)
       then Panic else TxQueue_produce False X w q ds)"
proof -
  obtain cnt idx r w1 where res: "reserve X w (tx_raw q) (ucast (slice_len ds)) 0 = (cnt, idx, r, w1)"
    by (rule prod_cases4)
  obtain r' w2 where sub: "submit X (write_run (tx_desc_set X) w1 r idx
      (map tx_entry (take (unat cnt) ds))) r cnt = (r', w2)" by (rule prod.exhaust)
  show ?thesis
    by (simp add: TxQueue_produce_eq [OF res sub] res)
qed

text \<open>
  \<open>produce_and_wakeup\<close> of the transmit queue fails only when the kernel asked to be woken
  and \<open>sendto\<close> failed with an error that is not one of the four transient ones
  (\<open>ENOBUFS\<close>, \<open>EAGAIN\<close>, \<open>EBUSY\<close>, \<open>ENETDOWN\<close>); the batch has been offered to the ring by
  then, so the queue is the one \<open>produce\<close> left.
\<close>

theorem TxQueue_produce_and_wakeup_error:
  assumes "TxQueue_produce_and_wakeup oc L X w q ds = Ret (Inl e, q', w')"
  shows "\<exists>n w1. TxQueue_produce oc X w q ds = Ret (n, q', w1) \<and> TxQueue_needs_wakeup X w1 q'
    \<and> e = OsError (errno L w') \<and> errno L w' \<notin> {ENOBUFS L, EAGAIN L, EBUSY L, ENETDOWN L}"
  using assms
  by (auto simp: TxQueue_produce_and_wakeup_def rbind_Ret_iff TxQueue_wakeup_after_def
    TxQueue_wakeup_def Let_def last_os_error_def get_errno_def
    split: prod.splits sum.splits if_splits)

theorem TxQueue_produce_and_wakeup_error_witness:
  "\<forall>s. \<exists>n q' w1. TxQueue_produce False ref_libxdp ref_zero
     (TxQueue_new (XskRingProd (ref_prod 400)) s) [FrameDesc_new 4096] = Ret (n, q', w1)
     \<and> TxQueue_needs_wakeup ref_libxdp w1 q'"
proof
  fix s
  let ?L = "ref_libc\<lparr>sendto := \<lambda>w fd b n f a al. (- 1, w), errno := \<lambda>w. 9\<rparr>"
  let ?q = "TxQueue_new (XskRingProd (ref_prod 400)) s"
  have "\<exists>q' w'. TxQueue_produce_and_wakeup False ?L ref_libxdp ref_zero ?q [FrameDesc_new 4096]
      = Ret (Inl (OsError 9), q', w')"
    by (simp add: TxQueue_produce_and_wakeup_def TxQueue_produce_def TxQueue_new_def slice_len_def
      ref_reserve_def ref_prod_def ref_submit_def TxQueue_wakeup_after_def TxQueue_needs_wakeup_def
      ref_libxdp_def TxQueue_wakeup_def get_errno_def last_os_error_def ref_libc_def Let_def)
  then obtain q' w' where run: "TxQueue_produce_and_wakeup False ?L ref_libxdp ref_zero ?q
      [FrameDesc_new 4096] = Ret (Inl (OsError 9), q', w')" by blast
  from TxQueue_produce_and_wakeup_error [OF run]
  show "\<exists>n q' w1. TxQueue_produce False ref_libxdp ref_zero ?q [FrameDesc_new 4096]
      = Ret (n, q', w1) \<and> TxQueue_needs_wakeup ref_libxdp w1 q'" by blast
qed

end
