(* ===== verification/Xsk_Rx_Queue.thy ===== *)
theory Xsk_Rx_Queue
  imports Xsk_Socket_Handle Xsk_Queue Xsk_Reference
begin

text \<open>
  \<^verbatim>\<open>src/socket/rx_queue.rs\<close>: the queue that yields received frames. As for the completion
  queue, the operations are shown correct for every libxdp whose receive ring keeps the
  contract of a consumer ring.
\<close>

section \<open>Operations\<close>

record RxQueue =
  rx_ring :: XskRingCons
  rx_socket :: Socket

definition RxQueue_new :: "XskRingCons \<Rightarrow> Socket \<Rightarrow> RxQueue" where
  "RxQueue_new ring socket = \<lparr>rx_ring = ring, rx_socket = socket\<rparr>"

abbreviation rx_raw :: "RxQueue \<Rightarrow> xsk_ring_cons" where
  "rx_raw q \<equiv> XskRingCons_as_mut (rx_ring q)"

text \<open>The assignments to one descriptor.\<close>

definition RxQueue_read_desc :: "xdp_desc \<Rightarrow> FrameDesc \<Rightarrow> FrameDesc" where
  "RxQueue_read_desc recv desc = desc\<lparr>fd_addr := xd_addr recv,
     fd_lengths := (fd_lengths desc)\<lparr>sl_data := ucast (xd_len recv), sl_headroom := 0\<rparr>,
     fd_options := xd_options recv\<rparr>"

fun RxQueue_consume_loop :: "bool \<Rightarrow> 'w libxdp \<Rightarrow> 'w \<Rightarrow> xsk_ring_cons \<Rightarrow> u32 \<Rightarrow> FrameDesc list
    \<Rightarrow> FrameDesc list rust" where
  "RxQueue_consume_loop oc X w r idx [] = Ret []"
| "RxQueue_consume_loop oc X w r idx (desc # descs) =
    (let desc' = RxQueue_read_desc (rx_desc_get X w r idx) desc
     in rbind (add_oc oc idx 1) (\<lambda>idx'.
        rbind (RxQueue_consume_loop oc X w r idx' descs) (\<lambda>descs'. Ret (desc' # descs'))))"

definition RxQueue_consume :: "bool \<Rightarrow> 'w libxdp \<Rightarrow> 'w \<Rightarrow> RxQueue \<Rightarrow> FrameDesc list
    \<Rightarrow> (usize \<times> FrameDesc list \<times> RxQueue \<times> 'w) rust" where
  "RxQueue_consume oc X w q descs =
    (let nb = ucast (slice_len descs) :: u32
     in if nb = 0 then Ret (0, descs, q, w)
        else let (cnt, idx, r, w') = peek X w (rx_raw q) nb 0
          in if 0 < cnt then
               (let n = unat (ucast cnt :: usize)
                in rbind (RxQueue_consume_loop oc X w' r idx (take n descs)) (\<lambda>done.
                     let (r', w'') = release X w' r cnt
                     in Ret (ucast cnt, done @ drop n descs, q\<lparr>rx_ring := XskRingCons r'\<rparr>, w'')))
             else Ret (ucast cnt, descs, q\<lparr>rx_ring := XskRingCons r\<rparr>, w'))"

definition RxQueue_consume_one :: "'w libxdp \<Rightarrow> 'w \<Rightarrow> RxQueue \<Rightarrow> FrameDesc
    \<Rightarrow> usize \<times> FrameDesc \<times> RxQueue \<times> 'w" where
  "RxQueue_consume_one X w q desc =
    (let (cnt, idx, r, w') = peek X w (rx_raw q) 1 0
     in if 0 < cnt then
          let desc' = RxQueue_read_desc (rx_desc_get X w' r idx) desc;
              (r', w'') = release X w' r cnt
          in (ucast cnt, desc', q\<lparr>rx_ring := XskRingCons r'\<rparr>, w'')
        else (ucast cnt, desc, q\<lparr>rx_ring := XskRingCons r\<rparr>, w'))"

definition RxQueue_poll :: "'w libc \<Rightarrow> 'w \<Rightarrow> RxQueue \<Rightarrow> i32 \<Rightarrow> (io_error + bool) \<times> RxQueue \<times> 'w" where
  "RxQueue_poll L w q poll_timeout =
    (let (r, f, w') = Fd_poll_read L w (so_fd (rx_socket q)) poll_timeout
     in (r, q\<lparr>rx_socket := (rx_socket q)\<lparr>so_fd := f\<rparr>\<rparr>, w'))"

definition RxQueue_poll_and_consume :: "bool \<Rightarrow> 'w libc \<Rightarrow> 'w libxdp \<Rightarrow> 'w \<Rightarrow> RxQueue
    \<Rightarrow> FrameDesc list \<Rightarrow> i32 \<Rightarrow> ((io_error + usize) \<times> FrameDesc list \<times> RxQueue \<times> 'w) rust" where
  "RxQueue_poll_and_consume oc L X w q descs poll_timeout =
    (case RxQueue_poll L w q poll_timeout of
       (Inl e, q', w') \<Rightarrow> Ret (Inl e, descs, q', w')
     | (Inr True, q', w') \<Rightarrow> rbind (RxQueue_consume oc X w' q' descs) (\<lambda>(cnt, descs', q'', w'').
         Ret (Inr cnt, descs', q'', w''))
     | (Inr False, q', w') \<Rightarrow> Ret (Inr 0, descs, q', w'))"

definition RxQueue_poll_and_consume_one :: "'w libc \<Rightarrow> 'w libxdp \<Rightarrow> 'w \<Rightarrow> RxQueue
    \<Rightarrow> FrameDesc \<Rightarrow> i32 \<Rightarrow> (io_error + usize) \<times> FrameDesc \<times> RxQueue \<times> 'w" where
  "RxQueue_poll_and_consume_one L X w q desc poll_timeout =
    (case RxQueue_poll L w q poll_timeout of
       (Inl e, q', w') \<Rightarrow> (Inl e, desc, q', w')
     | (Inr True, q', w') \<Rightarrow> (let (cnt, desc', q'', w'') = RxQueue_consume_one X w' q' desc
         in (Inr cnt, desc', q'', w''))
     | (Inr False, q', w') \<Rightarrow> (Inr 0, desc, q', w'))"

definition RxQueue_fd :: "RxQueue \<Rightarrow> Fd" where
  "RxQueue_fd q = so_fd (rx_socket q)"

text \<open>A mutable borrow of the descriptor: the value, and storing it back.\<close>

definition RxQueue_fd_mut :: "RxQueue \<Rightarrow> Fd" where
  "RxQueue_fd_mut q = so_fd (rx_socket q)"

definition RxQueue_fd_mut_back :: "RxQueue \<Rightarrow> Fd \<Rightarrow> RxQueue" where
  "RxQueue_fd_mut_back q f = q\<lparr>rx_socket := (rx_socket q)\<lparr>so_fd := f\<rparr>\<rparr>"

section \<open>The loop reads a run of slots\<close>

text \<open>Every field of a descriptor is overwritten.\<close>

definition rx_frame :: "xdp_desc \<Rightarrow> FrameDesc" where
  "rx_frame x = \<lparr>fd_addr = xd_addr x, fd_options = xd_options x,
     fd_lengths = \<lparr>sl_headroom = 0, sl_data = ucast (xd_len x)\<rparr>\<rparr>"

lemma RxQueue_read_desc_eq: "RxQueue_read_desc x d = rx_frame x"
  by (simp add: RxQueue_read_desc_def rx_frame_def)

lemma RxQueue_consume_loop_eq:
  "RxQueue_consume_loop oc X w r idx ds =
    (if oc \<and> 2 ^ 32 \<le> unat idx + length ds then Panic
     else Ret (map rx_frame (read_run (rx_desc_get X) w r idx (length ds))))"
proof (induction ds arbitrary: idx)
  case Nil
  then show ?case using unat_u32_bound [of idx] by simp
next
  case (Cons d ds)
  show ?case
    by (simp only: RxQueue_consume_loop.simps Let_def Cons.IH rbind_if rbind.simps add_oc_step
      list.map read_run.simps list.size add_Suc_right add_0_right RxQueue_read_desc_eq)
qed

lemma RxQueue_consume_eq:
  assumes "peek X w (rx_raw q) (ucast (slice_len ds)) 0 = (cnt, idx, r, w1)"
    and "release X w1 r cnt = (r', w2)"
  shows "RxQueue_consume oc X w q ds =
    (if length ds mod 2 ^ 32 = 0 then Ret (0, ds, q, w)
     else if cnt = 0 then Ret (0, ds, q\<lparr>rx_ring := XskRingCons r\<rparr>, w1)
     else if oc \<and> 2 ^ 32 \<le> unat idx + min (length ds) (unat cnt) then Panic
     else Ret (ucast cnt, map rx_frame (read_run (rx_desc_get X) w1 r idx
            (min (length ds) (unat cnt))) @ drop (unat cnt) ds, q\<lparr>rx_ring := XskRingCons r'\<rparr>, w2))"
  using assms slice_len_u32_eq_0 [of ds]
  by (simp add: RxQueue_consume_def RxQueue_consume_loop_eq Let_def word_gt_0)

section \<open>Over a ring that keeps its contract\<close>

locale recv_ring =
  cons_ring "peek X" "rx_desc_get X" "release X" invar avail held base
  for X :: "'w libxdp" and invar avail held base
begin

abbreviation ready :: "'w \<Rightarrow> RxQueue \<Rightarrow> bool" where
  "ready w q \<equiv> invar w (rx_raw q) \<and> held w (rx_raw q) = []"

lemma consume_outcome:
  assumes "ready w q"
  shows "\<exists>n q' w'. RxQueue_consume False X w q ds
      = Ret (of_nat n, map rx_frame (take n (avail w (rx_raw q))) @ drop n ds, q', w')
    \<and> ready w' q' \<and> rx_socket q' = rx_socket q \<and> avail w' (rx_raw q') = drop n (avail w (rx_raw q))
    \<and> n \<le> length ds mod 2 ^ 32 \<and> n \<le> length (avail w (rx_raw q))
    \<and> (0 < length ds mod 2 ^ 32 \<and> avail w (rx_raw q) \<noteq> [] \<longrightarrow> 0 < n)"
proof -
  obtain cnt idx r w1 where pk: "peek X w (rx_raw q) (ucast (slice_len ds)) 0 = (cnt, idx, r, w1)"
    by (rule prod_cases4)
  obtain r' w2 where rel: "release X w1 r cnt = (r', w2)" by (rule prod.exhaust)
  from assms have "invar w (rx_raw q)" and "held w (rx_raw q) = []" by simp_all
  from consume_batch [OF this pk rel] RxQueue_consume_eq [OF pk rel, of False] assms
  show ?thesis by (intro exI [of _ "if length ds mod 2 ^ 32 = 0 then 0 else unat cnt"]) auto
qed

end

sublocale recv_ring \<subseteq> rxq: batch_consumer "RxQueue_consume False X" rx_frame ready
  "\<lambda>w q. avail w (rx_raw q)"
proof unfold_locales
  fix w q and ds :: "FrameDesc list"
  assume a: "ready w q" "length ds < 2 ^ 32"
  with consume_outcome [OF a(1), of ds]
  show "\<exists>n q' w'. RxQueue_consume False X w q ds
      = Ret (of_nat n, map rx_frame (take n (avail w (rx_raw q))) @ drop n ds, q', w') \<and>
      ready w' q' \<and> avail w' (rx_raw q') = drop n (avail w (rx_raw q)) \<and> n \<le> length ds \<and>
      n \<le> length (avail w (rx_raw q)) \<and> (ds \<noteq> [] \<and> avail w (rx_raw q) \<noteq> [] \<longrightarrow> 0 < n)"
    by fastforce
qed

context recv_ring
begin

lemmas batches = rxq.consume_all_prefix

end

text \<open>The reference interface is such a libxdp.\<close>

interpretation ref_recv: recv_ring ref_libxdp ref_cons_ok "ref_avail rw_descs" "ref_held rw_descs" ref_cons_base
  by (rule recv_ring.intro) (simp add: ref_rx_contract)

section \<open>Properties\<close>

text \<open>
  C5: consuming from the receive queue yields a prefix of what is available. Over any libxdp whose
  ring keeps the contract of a consumer ring, a release build returns a count \<open>n\<close>, has
  overwritten exactly the first \<open>n\<close> descriptors of the caller's slice with the received frames, with address, data length and options as received and headroom length 0, in
  order, has left the others alone, and has removed those \<open>n\<close> entries and no others. It
  takes at least one when the slice and the queue have any.
\<close>

theorem RxQueue_consume_prefix:
  assumes ring: "cons_ring (peek X) (rx_desc_get X) (release X) invar avail held base"
    and inv: "invar w (rx_raw q)" and held: "held w (rx_raw q) = []"
  shows "\<exists>n q' w'. RxQueue_consume False X w q ds
      = Ret (of_nat n, map rx_frame (take n (avail w (rx_raw q))) @ drop n ds, q', w')
    \<and> invar w' (rx_raw q') \<and> held w' (rx_raw q') = [] \<and> rx_socket q' = rx_socket q
    \<and> avail w' (rx_raw q') = drop n (avail w (rx_raw q))
    \<and> n \<le> length ds mod 2 ^ 32 \<and> n \<le> length (avail w (rx_raw q))
    \<and> (0 < length ds mod 2 ^ 32 \<and> avail w (rx_raw q) \<noteq> [] \<longrightarrow> 0 < n)"
proof -
  note contract = recv_ring.intro [OF ring]
  show ?thesis
    using recv_ring.consume_outcome [OF contract conjI [OF inv held], of ds] by blast
qed

theorem RxQueue_consume_prefix_witness:
  "\<forall>s d1 d2 d3. \<exists>n q' w'. RxQueue_consume False ref_libxdp ref_loaded
      (RxQueue_new (XskRingCons (ref_cons 200)) s) [d1, d2, d3]
      = Ret (of_nat n, map rx_frame (take n (ref_avail rw_descs ref_loaded (ref_cons 200))) @ drop n [d1, d2, d3], q', w')
    \<and> 0 < n \<and> n \<le> 2 \<and> rx_socket q' = s"
proof (intro allI)
  fix s d1 d2 d3
  show "\<exists>n q' w'. RxQueue_consume False ref_libxdp ref_loaded
      (RxQueue_new (XskRingCons (ref_cons 200)) s) [d1, d2, d3]
      = Ret (of_nat n, map rx_frame (take n (ref_avail rw_descs ref_loaded (ref_cons 200))) @ drop n [d1, d2, d3], q', w')
    \<and> 0 < n \<and> n \<le> 2 \<and> rx_socket q' = s"
    using RxQueue_consume_prefix [where X = ref_libxdp and w = ref_loaded
        and q = "RxQueue_new (XskRingCons (ref_cons 200)) s" and ds = "[d1, d2, d3]",
        unfolded ref_libxdp_simps, OF ref_rx_contract]
    by (fastforce simp: RxQueue_new_def)
qed

text \<open>
  A caller that consumes from the receive queue into one slice after the other sees every entry
  once and in order: what it got, put together, followed by what is still available, is what
  was available at the start.
\<close>

theorem RxQueue_batches:
  assumes ring: "cons_ring (peek X) (rx_desc_get X) (release X) invar avail held base"
    and inv: "invar w (rx_raw q)" and held: "held w (rx_raw q) = []"
    and len: "\<forall>b \<in> set bs. length b < 2 ^ 32"
  shows "\<exists>got q' w'. consume_all (RxQueue_consume False X) w q bs = Ret (got, q', w')
    \<and> map rx_frame (avail w (rx_raw q)) = concat got @ map rx_frame (avail w' (rx_raw q'))"
proof -
  note contract = recv_ring.intro [OF ring]
  show ?thesis using recv_ring.batches [OF contract conjI [OF inv held] len] by blast
qed

theorem RxQueue_batches_witness:
  "\<forall>s d1 d2. \<exists>got q' w'. consume_all (RxQueue_consume False ref_libxdp) ref_loaded
      (RxQueue_new (XskRingCons (ref_cons 200)) s) [[d1], [], [d2]] = Ret (got, q', w')
    \<and> [\<lparr>fd_addr = 4096, fd_options = 0, fd_lengths = \<lparr>sl_headroom = 0, sl_data = 60\<rparr>\<rparr>,
      \<lparr>fd_addr = 8192, fd_options = 1, fd_lengths = \<lparr>sl_headroom = 0, sl_data = 1500\<rparr>\<rparr>]
      = concat got @ map rx_frame (ref_avail rw_descs w' (rx_raw q'))"
proof (intro allI)
  fix s d1 d2
  show "\<exists>got q' w'. consume_all (RxQueue_consume False ref_libxdp) ref_loaded
      (RxQueue_new (XskRingCons (ref_cons 200)) s) [[d1], [], [d2]] = Ret (got, q', w')
    \<and> [\<lparr>fd_addr = 4096, fd_options = 0, fd_lengths = \<lparr>sl_headroom = 0, sl_data = 60\<rparr>\<rparr>,
      \<lparr>fd_addr = 8192, fd_options = 1, fd_lengths = \<lparr>sl_headroom = 0, sl_data = 1500\<rparr>\<rparr>]
      = concat got @ map rx_frame (ref_avail rw_descs w' (rx_raw q'))"
    using RxQueue_batches [where X = ref_libxdp and w = ref_loaded
        and q = "RxQueue_new (XskRingCons (ref_cons 200)) s" and bs = "[[d1], [], [d2]]",
        unfolded ref_libxdp_simps, OF ref_rx_contract]
    by (simp add: RxQueue_new_def rx_frame_def)
qed

text \<open>
  \<open>consume_one\<close> of the receive queue agrees with \<open>consume\<close> on a slice of one, for any libxdp.
  The one difference is the overflow check: \<open>consume\<close> steps the index once more than it
  needs, so with checks on it panics at the last index.
\<close>

theorem RxQueue_consume_one_eq:
  "RxQueue_consume oc X w q [d] = (case peek X w (rx_raw q) 1 0 of (cnt, idx, r, w1) \<Rightarrow>
     if oc \<and> 0 < cnt \<and> unat idx = 2 ^ 32 - 1 then Panic
     else (case RxQueue_consume_one X w q d of (n, d', q', w') \<Rightarrow> Ret (n, [d'], q', w')))"
proof -
  obtain cnt idx r w1 where pk: "peek X w (rx_raw q) 1 0 = (cnt, idx, r, w1)"
    by (rule prod_cases4)
  obtain r' w2 where rel: "release X w1 r cnt = (r', w2)" by (rule prod.exhaust)
  have one: "(ucast (slice_len [d]) :: u32) = 1" by (simp add: slice_len_def)
  note eq = RxQueue_consume_eq [where ds = "[d]", unfolded one, OF pk rel, of oc]
  show ?thesis
  proof (cases "cnt = 0")
    case True
    then show ?thesis by (simp add: eq pk RxQueue_consume_one_def)
  next
    case False
    then obtain m where m: "unat cnt = Suc m" by (metis unat_eq_zero not0_implies_Suc)
    have "2 ^ 32 \<le> unat idx + 1 \<longleftrightarrow> unat idx = 2 ^ 32 - 1"
      using unat_u32_bound [of idx] by auto
    with False m rel show ?thesis
      by (simp add: eq pk RxQueue_consume_one_def word_gt_0 RxQueue_read_desc_eq)
  qed
qed

text \<open>
  C33: a descriptor written for the transmit ring and read back from a receive ring keeps its
  address and options and, up to 32 bits, its data length; the headroom length does not
  travel and comes back as 0, whatever the slot and the caller's descriptor held before.
\<close>

theorem RxQueue_reads_what_TxQueue_writes:
  assumes "unat (sl_data (fd_lengths d)) < 2 ^ 32"
  shows "RxQueue_read_desc (FrameDesc_write_xdp_desc d slot) d'
    = d\<lparr>fd_lengths := (fd_lengths d)\<lparr>sl_headroom := 0\<rparr>\<rparr>"
proof -
  have "unat (ucast (sl_data (fd_lengths d)) :: u32) = unat (sl_data (fd_lengths d))"
    using assms by (simp add: unsigned_ucast_eq take_bit_nat_eq_self_iff)
  then have "unat (ucast (ucast (sl_data (fd_lengths d)) :: u32) :: u64) = unat (sl_data (fd_lengths d))"
    by (simp only: unat_ucast_u32_u64)
  then have "ucast (ucast (sl_data (fd_lengths d)) :: u32) = sl_data (fd_lengths d)"
    by (rule unsigned_word_eqI)
  then show ?thesis
    by (simp add: RxQueue_read_desc_def FrameDesc_write_xdp_desc_def)
qed

theorem RxQueue_reads_what_TxQueue_writes_witness:
  "RxQueue_read_desc (FrameDesc_write_xdp_desc
      \<lparr>fd_addr = 4352, fd_options = 1, fd_lengths = \<lparr>sl_headroom = 8, sl_data = 1500\<rparr>\<rparr>
      \<lparr>xd_addr = 7, xd_len = 7, xd_options = 7\<rparr>) FrameDesc_default
    = \<lparr>fd_addr = 4352, fd_options = 1, fd_lengths = \<lparr>sl_headroom = 0, sl_data = 1500\<rparr>\<rparr>"
  by (subst RxQueue_reads_what_TxQueue_writes) simp_all

end
