(* ===== verification/Xsk_Socket.thy ===== *)
theory Xsk_Socket
  imports Xsk_Fill_Queue Xsk_Comp_Queue Xsk_Tx_Queue Xsk_Rx_Queue
begin

text \<open>
  \<^verbatim>\<open>src/socket/mod.rs\<close>: creating a socket on a UMEM, with every early return and the drops
  it causes. Shown: whatever the outcome, no foreign resource and no reference is lost, and
  when the fill and completion queues come with the socket.
\<close>

section \<open>Creation\<close>

record SocketCreateError =
  se_reason :: string
  se_err :: io_error

definition SocketCreateError_fmt :: "SocketCreateError \<Rightarrow> string" where
  "SocketCreateError_fmt e = se_reason e"

definition SocketCreateError_source :: "SocketCreateError \<Rightarrow> io_error option" where
  "SocketCreateError_source e = Some (se_err e)"

text \<open>Dropping a queue drops the handle it holds; the ring itself is plain data.\<close>

definition TxQueue_drop :: "'w libc \<Rightarrow> 'w libxdp \<Rightarrow> ('w, 'z) socket_store_scheme \<Rightarrow> TxQueue
    \<Rightarrow> ('w, 'z) socket_store_scheme" where
  "TxQueue_drop L X st q = Socket_drop L X st (tx_socket q)"

definition RxQueue_drop :: "'w libc \<Rightarrow> 'w libxdp \<Rightarrow> ('w, 'z) socket_store_scheme \<Rightarrow> RxQueue
    \<Rightarrow> ('w, 'z) socket_store_scheme" where
  "RxQueue_drop L X st q = Socket_drop L X st (rx_socket q)"

definition FillQueue_drop :: "'w libc \<Rightarrow> 'w libxdp \<Rightarrow> ('w, 'z) socket_store_scheme \<Rightarrow> FillQueue
    \<Rightarrow> ('w, 'z) socket_store_scheme" where
  "FillQueue_drop L X st q = Umem_drop L X st (fq_umem q)"

definition CompQueue_drop :: "'w libc \<Rightarrow> 'w libxdp \<Rightarrow> ('w, 'z) socket_store_scheme \<Rightarrow> CompQueue
    \<Rightarrow> ('w, 'z) socket_store_scheme" where
  "CompQueue_drop L X st q = Umem_drop L X st (cq_umem q)"

text \<open>
  The closure run under the UMEM's lock: it takes the saved queues out, or makes empty ones,
  and calls libxdp.
\<close>

definition Socket_create :: "'w libxdp \<Rightarrow> SocketConfig \<Rightarrow> Interface \<Rightarrow> u32
    \<Rightarrow> 'w \<Rightarrow> ptr \<Rightarrow> (XskRingProd \<times> XskRingCons) option
    \<Rightarrow> (i32 \<times> ptr \<times> XskRingCons \<times> XskRingProd \<times> XskRingProd \<times> XskRingCons)
      \<times> (XskRingProd \<times> XskRingCons) option \<times> 'w" where
  "Socket_create X config if_name queue_id w xsk_umem saved_fq_and_cq =
    (let (fq, cq) = (case saved_fq_and_cq of None \<Rightarrow> (default, default) | Some qs \<Rightarrow> qs);
         (err, socket_ptr, rx_q, tx_q, fq', cq', w') = socket_create_shared X w null
           (Interface_as_cstr if_name) queue_id xsk_umem
           (XskRingCons_as_mut default) (XskRingProd_as_mut default)
           (XskRingProd_as_mut fq) (XskRingCons_as_mut cq) (SocketConfig_into_xsk config)
     in ((err, socket_ptr, XskRingCons rx_q, XskRingProd tx_q, XskRingProd fq', XskRingCons cq'),
         None, w'))"

definition Socket_error :: "bool \<Rightarrow> string \<Rightarrow> i32 \<Rightarrow> ('w, 'z) socket_store_scheme
    \<Rightarrow> ((SocketCreateError + 'a) \<times> ('w, 'z) socket_store_scheme) rust" where
  "Socket_error oc reason err st = rbind (neg_oc oc err) (\<lambda>e.
     Ret (Inl \<lparr>se_reason = reason, se_err = OsError e\<rparr>, st))"

text \<open>
  From the point where the handle exists: the queues around it. An early return drops the
  locals in the reverse order of their declaration.
\<close>

definition Socket_queues :: "bool \<Rightarrow> 'w libc \<Rightarrow> 'w libxdp \<Rightarrow> ('w, 'z) socket_store_scheme
    \<Rightarrow> Umem \<Rightarrow> Socket \<Rightarrow> i32 \<Rightarrow> XskRingCons \<Rightarrow> XskRingProd \<Rightarrow> XskRingProd \<Rightarrow> XskRingCons
    \<Rightarrow> ((SocketCreateError + TxQueue \<times> RxQueue \<times> (FillQueue \<times> CompQueue) option)
        \<times> ('w, 'z) socket_store_scheme) rust" where
  "Socket_queues oc L X st umem socket err rx_q tx_q fq cq =
    (if XskRingProd_is_ring_null tx_q then
       Socket_error oc ''returned tx queue ring is null'' err (Socket_drop L X st socket)
     else
       let (socket', st1) = Socket_clone st socket; tx_q = TxQueue_new tx_q socket' in
       if XskRingCons_is_ring_null rx_q then
         Socket_error oc ''returned rx queue ring is null'' err
           (Socket_drop L X (TxQueue_drop L X st1 tx_q) socket)
       else
         let rx_q = RxQueue_new rx_q socket in
         case (XskRingProd_is_ring_null fq, XskRingCons_is_ring_null cq) of
           (True, True) \<Rightarrow> Ret (Inr (tx_q, rx_q, None), st1)
         | (False, False) \<Rightarrow>
             (let (u1, st2) = Umem_clone st1 umem; fq = FillQueue_new fq u1;
                  (u2, st3) = Umem_clone st2 umem; cq = CompQueue_new cq u2
              in Ret (Inr (tx_q, rx_q, Some (fq, cq)), st3))
         | _ \<Rightarrow> Socket_error oc (''fill queue xor comp queue ring is null, ''
                    @ ''either both or neither should be non-null'') err
                  (TxQueue_drop L X (RxQueue_drop L X st1 rx_q) tx_q))"

definition Socket_new :: "bool \<Rightarrow> 'w libc \<Rightarrow> 'w libxdp \<Rightarrow> ('w, 'z) socket_store_scheme
    \<Rightarrow> SocketConfig \<Rightarrow> Umem \<Rightarrow> Interface \<Rightarrow> u32
    \<Rightarrow> ((SocketCreateError + TxQueue \<times> RxQueue \<times> (FillQueue \<times> CompQueue) option)
        \<times> ('w, 'z) socket_store_scheme) rust" where
  "Socket_new oc L X st config umem if_name queue_id =
    rbind (with_ptr_and_saved_queues st umem (Socket_create X config if_name queue_id))
      (\<lambda>((err, socket_ptr, rx_q, tx_q, fq, cq), st1).
        if err \<noteq> 0 then
          Socket_error oc ''non-zero error code returned when creating AF_XDP socket'' err st1
        else if is_null socket_ptr then
          Socket_error oc ''returned socket pointer was null'' err st1
        else
          let p = XskSocket_new socket_ptr; fd = socket_fd X (us_world st1) socket_ptr in
          if sint fd < 0 then
            Socket_error oc ''failed to retrieve AF_XDP socket file descriptor'' fd
              (st1\<lparr>us_world := XskSocket_drop X (us_world st1) p\<rparr>)
          else
            let (u, st2) = Umem_clone st1 umem;
                (i, sockets) = arc_new (ss_sockets st2) (SocketInner_new p u)
            in Socket_queues oc L X (st2\<lparr>ss_sockets := sockets\<rparr>) umem
                 \<lparr>so_fd = Fd_new L fd, so_inner = i\<rparr> err rx_q tx_q fq cq)"

section \<open>Clone and drop undo each other\<close>

lemma arc_drop_clone: "cells h i = Some (n, a) \<Longrightarrow> 0 < n \<Longrightarrow> arc_drop (arc_clone h i) i = (None, h)"
  by (cases h) (auto simp: arc_drop_def arc_clone_def)

text \<open>A handle that refers to something: both of its cells exist.\<close>

definition umem_live :: "('w, 'z) umem_store_scheme \<Rightarrow> Umem \<Rightarrow> bool" where
  "umem_live st u \<longleftrightarrow> arc_count (us_umems st) (um_inner u) \<noteq> 0
     \<and> arc_count (us_maps st) (rg_mmap (um_mem u)) \<noteq> 0"

lemma arc_count_cell: "arc_count h i \<noteq> 0 \<Longrightarrow> \<exists>n a. cells h i = Some (n, a) \<and> 0 < n"
  by (auto simp: arc_count_def split: option.splits)

lemma Umem_clone_eq:
  "Umem_clone st u = (u, st\<lparr>us_umems := arc_clone (us_umems st) (um_inner u),
     us_maps := arc_clone (us_maps st) (rg_mmap (um_mem u))\<rparr>)"
  by (simp add: Umem_clone_def UmemRegion_clone_def)

lemma Umem_drop_clone:
  assumes "umem_live st u"
  shows "Umem_drop L X (st\<lparr>us_world := w, us_umems := arc_clone (us_umems st) (um_inner u),
      us_maps := arc_clone (us_maps st) (rg_mmap (um_mem u))\<rparr>) u = st\<lparr>us_world := w\<rparr>"
proof -
  from assms obtain n a m b where "cells (us_umems st) (um_inner u) = Some (n, a)" "0 < n"
    "cells (us_maps st) (rg_mmap (um_mem u)) = Some (m, b)" "0 < m"
    unfolding umem_live_def using arc_count_cell by metis
  then show ?thesis
    by (simp add: Umem_drop_def arc_drop_clone drop_region_def UmemRegion_drop_def)
qed

section \<open>The socket between opening and closing\<close>

text \<open>The store once the handle of a new socket exists, and once it is gone again.\<close>

definition socket_opened :: "('w, 'z) socket_store_scheme \<Rightarrow> Umem \<Rightarrow> XskSocket
    \<Rightarrow> ('w, 'z) socket_store_scheme" where
  "socket_opened st u p = st\<lparr>us_umems := arc_clone (us_umems st) (um_inner u),
     us_maps := arc_clone (us_maps st) (rg_mmap (um_mem u)),
     ss_sockets := snd (arc_new (ss_sockets st) (SocketInner_new p u))\<rparr>"

definition socket_closed :: "'w libxdp \<Rightarrow> ('w, 'z) socket_store_scheme \<Rightarrow> XskSocket
    \<Rightarrow> ('w, 'z) socket_store_scheme" where
  "socket_closed X st p = st\<lparr>us_world := XskSocket_drop X (us_world st) p,
     ss_sockets := (ss_sockets st)\<lparr>next_cell := Suc (next_cell (ss_sockets st))\<rparr>\<rparr>"

lemma Socket_drop_opened:
  assumes "umem_live st u" and "wf_arena (ss_sockets st)" and "so_inner s = next_cell (ss_sockets st)"
  shows "Socket_drop L X (socket_opened st u p) s = socket_closed X st p"
proof -
  let ?h = "ss_sockets st"
  have fresh: "cells ?h (next_cell ?h) = None" by (rule wf_arena_fresh [OF assms(2)])
  have "arc_drop (snd (arc_new ?h (SocketInner_new p u))) (next_cell ?h)
      = (Some (SocketInner_new p u), ?h\<lparr>next_cell := Suc (next_cell ?h)\<rparr>)"
    using fresh by (cases ?h) (auto simp: arc_new_def arc_drop_def fun_upd_idem)
  moreover have "Umem_drop L X (st\<lparr>us_umems := arc_clone (us_umems st) (um_inner u),
      us_maps := arc_clone (us_maps st) (rg_mmap (um_mem u)), ss_sockets := h, us_world := w\<rparr>) u
    = st\<lparr>us_world := w, ss_sockets := h\<rparr>" for h w
  proof -
    have e1: "st\<lparr>us_umems := arc_clone (us_umems st) (um_inner u),
        us_maps := arc_clone (us_maps st) (rg_mmap (um_mem u)), ss_sockets := h, us_world := w\<rparr>
      = (st\<lparr>ss_sockets := h\<rparr>)\<lparr>us_world := w, us_umems := arc_clone (us_umems st) (um_inner u),
          us_maps := arc_clone (us_maps st) (rg_mmap (um_mem u))\<rparr>"
      and e2: "st\<lparr>us_world := w, ss_sockets := h\<rparr> = (st\<lparr>ss_sockets := h\<rparr>)\<lparr>us_world := w\<rparr>"
      by (cases st, simp)+
    show ?thesis
      unfolding e1 e2 using Umem_drop_clone [of "st\<lparr>ss_sockets := h\<rparr>" u L X w] assms(1)
      by (simp add: umem_live_def)
  qed
  ultimately show ?thesis
    by (simp add: Socket_drop_def socket_opened_def socket_closed_def SocketInner_drop_def
      SocketInner_new_def assms(3))
qed

lemma Socket_drop_clone:
  assumes "arc_count (ss_sockets st) (so_inner s) \<noteq> 0" and "so_inner s' = so_inner s"
  shows "Socket_drop L X (snd (Socket_clone st s)) s' = st"
proof -
  from arc_count_cell [OF assms(1)] obtain n a where "cells (ss_sockets st) (so_inner s) = Some (n, a)" "0 < n"
    by blast
  then show ?thesis
    by (simp add: Socket_drop_def Socket_clone_def arc_drop_clone assms(2))
qed

text \<open>Every early return after the handle exists closes the socket and nothing else.\<close>

lemma Socket_queues_outcome:
  assumes live: "umem_live st u" and wf: "wf_arena (ss_sockets st)"
    and s: "s = \<lparr>so_fd = f, so_inner = next_cell (ss_sockets st)\<rparr>"
    and run: "Socket_queues oc L X (socket_opened st u p) u s err rx tx fq cq = Ret (res, st')"
  shows "(\<exists>e. res = Inl e) \<and> st' = socket_closed X st p
    \<or> res = Inr (TxQueue_new tx (fst (Socket_clone (socket_opened st u p) s)), RxQueue_new rx s,
          if XskRingProd_is_ring_null fq then None else Some (FillQueue_new fq u, CompQueue_new cq u))
      \<and> st' = (let st2 = snd (Socket_clone (socket_opened st u p) s)
          in if XskRingProd_is_ring_null fq then st2
             else snd (Umem_clone (snd (Umem_clone st2 u)) u))"
proof -
  let ?st = "socket_opened st u p"
  obtain s1 st1 where c: "Socket_clone ?st s = (s1, st1)" by (rule prod.exhaust)
  then have s1: "so_inner s1 = so_inner s" and st1: "st1 = snd (Socket_clone ?st s)"
    by (auto simp: Socket_clone_def)
  have cnt: "arc_count (ss_sockets ?st) (so_inner s) \<noteq> 0"
    by (simp add: s socket_opened_def arc_new_def arc_count_def)
  have undo: "Socket_drop L X st1 s1 = ?st" "Socket_drop L X st1 s = ?st"
    using Socket_drop_clone [OF cnt] s1 by (simp_all add: st1)
  have close: "Socket_drop L X ?st s = socket_closed X st p" "Socket_drop L X ?st s1 = socket_closed X st p"
    using Socket_drop_opened [OF live wf] s s1 by simp_all
  show ?thesis
    using run undo close
    by (auto simp: Socket_queues_def c Socket_error_def rbind_Ret_iff TxQueue_drop_def RxQueue_drop_def
      TxQueue_new_def RxQueue_new_def Umem_clone_eq Let_def split: if_splits bool.splits)
qed

section \<open>Creation leaves nothing behind\<close>

lemma arc_count_set [simp]: "arc_count (arc_set h i a) j = arc_count h j"
  by (auto simp: arc_set_def arc_count_def split: option.splits)

lemma arc_count_cloned:
  "arc_count h i \<noteq> 0 \<Longrightarrow> arc_count (arc_clone h i) j = arc_count h j + (if j = i then 1 else 0)"
  by (auto simp: arc_clone_def arc_count_def split: option.splits)

lemma arc_get_clone: "arc_get (arc_clone h i) j = arc_get h j"
  by (auto simp: arc_clone_def arc_get_def split: option.splits)

lemma arc_get_set: "arc_get h i = Some b \<Longrightarrow> arc_get (arc_set h i a) i = Some a"
  by (auto simp: arc_set_def arc_get_def)

lemma Fd_clone_id [simp]: "Fd_clone f = f"
  by (simp add: Fd_clone_def)

text \<open>The store once both queues hold the handle.\<close>

definition socket_shared :: "('w, 'z) socket_store_scheme \<Rightarrow> Umem \<Rightarrow> XskSocket
    \<Rightarrow> ('w, 'z) socket_store_scheme" where
  "socket_shared st u p = st\<lparr>us_umems := arc_clone (us_umems st) (um_inner u),
     us_maps := arc_clone (us_maps st) (rg_mmap (um_mem u)),
     ss_sockets := \<lparr>next_cell = Suc (next_cell (ss_sockets st)),
       cells = (cells (ss_sockets st))(next_cell (ss_sockets st) \<mapsto> (2, SocketInner_new p u))\<rparr>\<rparr>"

lemma Socket_clone_opened:
  "so_inner s = next_cell (ss_sockets st) \<Longrightarrow>
   Socket_clone (socket_opened st u p) s = (s, socket_shared st u p)"
  by (simp add: Socket_clone_def socket_opened_def socket_shared_def arc_new_def arc_clone_def
    numeral_2_eq_2)

text \<open>What the call to libxdp leaves: the saved queues are taken, whatever it returned.\<close>

definition queues_taken :: "('w, 'z) umem_store_scheme \<Rightarrow> Umem \<Rightarrow> UmemInner \<Rightarrow> 'w
    \<Rightarrow> ('w, 'z) umem_store_scheme" where
  "queues_taken st u ui w = st\<lparr>us_world := w,
     us_umems := arc_set (us_umems st) (um_inner u) (ui\<lparr>ui_saved_fq_and_cq := None\<rparr>)\<rparr>"

lemma Socket_new_outcome:
  assumes live: "umem_live st u" and wf: "wf_arena (ss_sockets st)"
    and cell: "arc_get (us_umems st) (um_inner u) = Some ui"
    and sc: "Socket_create X c i q (us_world st) (XskUmem_as_mut_ptr (ui_ptr ui)) (ui_saved_fq_and_cq ui)
      = ((err, p, rx, tx, fq, cq), saved, w')"
    and run: "Socket_new oc L X st c u i q = Ret (res, st')"
  shows "\<not> (err = 0 \<and> p \<noteq> 0) \<and> (\<exists>e. res = Inl e) \<and> st' = queues_taken st u ui w'
    \<or> (err = 0 \<and> p \<noteq> 0) \<and> (\<exists>e. res = Inl e)
      \<and> us_world st' = XskSocket_drop X w' (XskSocket p) \<and> us_maps st' = us_maps st
      \<and> us_umems st' = us_umems (queues_taken st u ui w') \<and> cells (ss_sockets st') = cells (ss_sockets st)
      \<and> next_cell (ss_sockets st) \<le> next_cell (ss_sockets st')
    \<or> (err = 0 \<and> p \<noteq> 0) \<and> (\<exists>s1 n. so_inner s1 = next_cell (ss_sockets st)
      \<and> res = Inr (TxQueue_new tx s1, RxQueue_new rx s1,
          if XskRingProd_is_ring_null fq then None else Some (FillQueue_new fq u, CompQueue_new cq u))
      \<and> st' = (let st2 = socket_shared (queues_taken st u ui w') u (XskSocket p)
          in if XskRingProd_is_ring_null fq then st2 else snd (Umem_clone (snd (Umem_clone st2 u)) u))
      \<and> us_world st' = w'
      \<and> cells (ss_sockets st') = (cells (ss_sockets st))(so_inner s1 \<mapsto> (2, SocketInner_new (XskSocket p) u))
      \<and> n = (if XskRingProd_is_ring_null fq then 1 else 3)
      \<and> arc_get (us_umems st') (um_inner u) = arc_get (us_umems (queues_taken st u ui w')) (um_inner u)
      \<and> (\<forall>j. arc_count (us_umems st') j = arc_count (us_umems st) j + (if j = um_inner u then n else 0))
      \<and> (\<forall>j. arc_count (us_maps st') j = arc_count (us_maps st) j + (if j = rg_mmap (um_mem u) then n else 0)))"
proof -
  define st1 where "st1 = queues_taken st u ui w'"
  have st1: "us_world st1 = w'" "us_maps st1 = us_maps st" "ss_sockets st1 = ss_sockets st"
    "arc_count (us_umems st1) j = arc_count (us_umems st) j" for j
    by (simp_all add: st1_def queues_taken_def)
  have live1: "umem_live st1 u" and wf1: "wf_arena (ss_sockets st1)"
    using live wf by (simp_all add: umem_live_def st1)
  have "saved = None" using sc by (auto simp: Socket_create_def Let_def split: prod.splits)
  then have w: "with_ptr_and_saved_queues st u (Socket_create X c i q) = Ret ((err, p, rx, tx, fq, cq), st1)"
    using cell sc by (simp add: with_ptr_and_saved_queues_def st1_def queues_taken_def)
  define s where "s = \<lparr>so_fd = Fd_new L (socket_fd X w' p), so_inner = next_cell (ss_sockets st)\<rparr>"
  consider (none) "\<not> (err = 0 \<and> p \<noteq> 0)" | (nofd) "err = 0" "p \<noteq> 0" "sint (socket_fd X w' p) < 0"
    | (fd) "err = 0" "p \<noteq> 0" "\<not> sint (socket_fd X w' p) < 0" by blast
  then show ?thesis
  proof cases
    case none
    with run show ?thesis
      by (auto simp: Socket_new_def w Socket_error_def rbind_Ret_iff st1_def split: if_splits)
  next
    case nofd
    with run show ?thesis
      by (auto simp: Socket_new_def w Socket_error_def rbind_Ret_iff st1 XskSocket_new_def Let_def
        st1_def [symmetric])
  next
    case fd
    with run have q: "Socket_queues oc L X (socket_opened st1 u (XskSocket p)) u s err rx tx fq cq = Ret (res, st')"
      by (simp add: Socket_new_def w XskSocket_new_def Umem_clone_eq arc_new_def socket_opened_def
        s_def st1 Let_def)
    have s: "s = \<lparr>so_fd = Fd_new L (socket_fd X w' p), so_inner = next_cell (ss_sockets st1)\<rparr>"
      by (simp add: s_def st1)
    from Socket_queues_outcome [OF live1 wf1 s q] show ?thesis
    proof (elim disjE)
      assume "(\<exists>e. res = Inl e) \<and> st' = socket_closed X st1 (XskSocket p)"
      with fd show ?thesis
        by (simp add: socket_closed_def st1) (simp add: st1_def)
    next
      let ?st2 = "snd (Socket_clone (socket_opened st1 u (XskSocket p)) s)"
      assume "res = Inr (TxQueue_new tx (fst (Socket_clone (socket_opened st1 u (XskSocket p)) s)),
          RxQueue_new rx s,
          if XskRingProd_is_ring_null fq then None else Some (FillQueue_new fq u, CompQueue_new cq u))
        \<and> st' = (let st2 = ?st2 in if XskRingProd_is_ring_null fq then st2
              else snd (Umem_clone (snd (Umem_clone st2 u)) u))"
      with fd live show ?thesis
        by (intro disjI2) (auto intro!: exI [of _ s] simp: Let_def Socket_clone_opened s_def Umem_clone_eq
          socket_shared_def st1 arc_count_cloned arc_get_clone umem_live_def st1_def [symmetric]
          split: if_splits)
    qed
  qed
qed

lemma Socket_create_traced:
  assumes "Socket_create (traced_libxdp X) c i q (w, t) up saved = ((err, p, rx, tx, fq, cq), saved', wt)"
  shows "snd wt = t @ (if err = 0 \<and> p \<noteq> 0 then [SocketCreateCall p up] else [])"
  using assms by (auto simp: Socket_create_def Let_def split: prod.splits if_splits)

lemma umem_live_get: "umem_live st u \<Longrightarrow> \<exists>ui. arc_get (us_umems st) (um_inner u) = Some ui"
  by (auto simp: umem_live_def arc_count_def arc_get_def split: option.splits)

text \<open>
  C26: a socket creation that fails, at whatever step, leaves nothing behind: a libxdp socket
  that was created has been deleted, exactly once, the UMEM and its memory map have the
  references they had, and no inner socket stays in the arena. A creation that succeeds has
  created one libxdp socket, shared by the transmit and the receive queue, and holds the UMEM
  once for the socket and, when the fill and completion queues come with it, once for each.
\<close>

theorem Socket_new_no_leak:
  assumes wf: "wf_arena (ss_sockets st)" and live: "umem_live st u" and world: "us_world st = (w, t)"
    and run: "Socket_new oc (traced_libc L) (traced_libxdp X) st c u i q = Ret (res, st')"
  shows "\<exists>calls. snd (us_world st') = t @ calls \<and> (case res of
      Inl e \<Rightarrow> (calls = [] \<or> (\<exists>p q. calls = [SocketCreateCall p q, SocketDeleteCall p]))
        \<and> cells (ss_sockets st') = cells (ss_sockets st) \<and> us_maps st' = us_maps st
        \<and> (\<forall>j. arc_count (us_umems st') j = arc_count (us_umems st) j)
    | Inr (txq, rxq, qs) \<Rightarrow> \<exists>p q n. calls = [SocketCreateCall p q]
        \<and> map_option ui_ptr (arc_get (us_umems st) (um_inner u)) = Some (XskUmem q)
        \<and> so_inner (tx_socket txq) = so_inner (rx_socket rxq)
        \<and> cells (ss_sockets st') (so_inner (tx_socket txq)) = Some (2, SocketInner_new (XskSocket p) u)
        \<and> n = (case qs of None \<Rightarrow> 1 | Some _ \<Rightarrow> 3)
        \<and> arc_count (us_umems st') (um_inner u) = arc_count (us_umems st) (um_inner u) + n
        \<and> arc_count (us_maps st') (rg_mmap (um_mem u)) = arc_count (us_maps st) (rg_mmap (um_mem u)) + n)"
proof -
  obtain ui where cell: "arc_get (us_umems st) (um_inner u) = Some ui" using umem_live_get [OF live] ..
  obtain err p rx tx fq cq saved w1 t1 where sc: "Socket_create (traced_libxdp X) c i q (us_world st)
      (XskUmem_as_mut_ptr (ui_ptr ui)) (ui_saved_fq_and_cq ui) = ((err, p, rx, tx, fq, cq), saved, (w1, t1))"
    by (metis prod.exhaust)
  let ?q = "XskUmem_as_mut_ptr (ui_ptr ui)"
  have q: "ui_ptr ui = XskUmem ?q" by (cases "ui_ptr ui") simp
  have t1: "t1 = t @ (if err = 0 \<and> p \<noteq> 0 then [SocketCreateCall p ?q] else [])"
    using Socket_create_traced [OF sc [unfolded world]] by simp
  from Socket_new_outcome [OF live wf cell sc run] show ?thesis
  proof (elim disjE)
    assume "\<not> (err = 0 \<and> p \<noteq> 0) \<and> (\<exists>e. res = Inl e) \<and> st' = queues_taken st u ui (w1, t1)"
    with t1 show ?thesis by (auto simp: queues_taken_def)
  next
    assume "(err = 0 \<and> p \<noteq> 0) \<and> (\<exists>e. res = Inl e)
      \<and> us_world st' = XskSocket_drop (traced_libxdp X) (w1, t1) (XskSocket p) \<and> us_maps st' = us_maps st
      \<and> us_umems st' = us_umems (queues_taken st u ui (w1, t1)) \<and> cells (ss_sockets st') = cells (ss_sockets st)
      \<and> next_cell (ss_sockets st) \<le> next_cell (ss_sockets st')"
    with t1 show ?thesis by (auto simp: queues_taken_def)
  next
    assume "(err = 0 \<and> p \<noteq> 0) \<and> (\<exists>s1 n. so_inner s1 = next_cell (ss_sockets st)
      \<and> res = Inr (TxQueue_new tx s1, RxQueue_new rx s1,
          if XskRingProd_is_ring_null fq then None else Some (FillQueue_new fq u, CompQueue_new cq u))
      \<and> st' = (let st2 = socket_shared (queues_taken st u ui (w1, t1)) u (XskSocket p)
          in if XskRingProd_is_ring_null fq then st2 else snd (Umem_clone (snd (Umem_clone st2 u)) u))
      \<and> us_world st' = (w1, t1)
      \<and> cells (ss_sockets st') = (cells (ss_sockets st))(so_inner s1 \<mapsto> (2, SocketInner_new (XskSocket p) u))
      \<and> n = (if XskRingProd_is_ring_null fq then 1 else 3)
      \<and> arc_get (us_umems st') (um_inner u) = arc_get (us_umems (queues_taken st u ui (w1, t1))) (um_inner u)
      \<and> (\<forall>j. arc_count (us_umems st') j = arc_count (us_umems st) j + (if j = um_inner u then n else 0))
      \<and> (\<forall>j. arc_count (us_maps st') j = arc_count (us_maps st) j + (if j = rg_mmap (um_mem u) then n else 0)))"
    with t1 cell q show ?thesis by (auto simp: TxQueue_new_def RxQueue_new_def)
  qed
qed

text \<open>A store with one UMEM, referenced once, whose queues are still saved.\<close>

definition ref_umem :: Umem where
  "ref_umem = \<lparr>um_inner = 0, um_mem = ref_region\<rparr>"

definition ref_inner :: UmemInner where
  "ref_inner = UmemInner_new (XskUmem 4096) (Some (XskRingProd (ref_prod 100), XskRingCons (ref_cons 200)))"

definition ref_socket_store :: "'w \<Rightarrow> 'w socket_store" where
  "ref_socket_store w = \<lparr>us_world = w,
     us_maps = \<lparr>next_cell = 1, cells = [0 \<mapsto> (1, \<lparr>mm_addr = 4096, mm_len = 16\<rparr>)]\<rparr>,
     us_umems = \<lparr>next_cell = 1, cells = [0 \<mapsto> (1, ref_inner)]\<rparr>, ss_sockets = arena_empty\<rparr>"

lemma ref_socket_store_ok:
  "wf_arena (ss_sockets (ref_socket_store w))" "umem_live (ref_socket_store w) ref_umem"
  "us_world (ref_socket_store w) = w" "arc_get (us_umems (ref_socket_store w)) (um_inner ref_umem) = Some ref_inner"
  by (simp_all add: ref_socket_store_def wf_arena_def arena_empty_def umem_live_def arc_count_def
    ref_umem_def ref_region_def arc_get_def)

theorem Socket_new_no_leak_witness:
  "\<exists>e st'. Socket_new False (traced_libc ref_libc) (traced_libxdp (ref_libxdp\<lparr>socket_fd := \<lambda>w p. - 1\<rparr>))
      (ref_socket_store (ref_zero, [])) (SocketConfig_default ref_libxdp) ref_umem (Interface [108, 111]) 0
      = Ret (Inl e, st')
    \<and> (snd (us_world st') = [] \<or> (\<exists>p q. snd (us_world st') = [SocketCreateCall p q, SocketDeleteCall p]))
    \<and> cells (ss_sockets st') = Map.empty"
proof -
  let ?X = "ref_libxdp\<lparr>socket_fd := \<lambda>w p. - 1\<rparr>" and ?st = "ref_socket_store (ref_zero, [])"
  have sc: "socket_create_shared ?X w p i q u rx tx fq cq sc = (0, 8192, ref_cons 300, ref_prod 400, fq, cq, w)"
    for w p i q u rx tx fq cq sc by (simp add: ref_libxdp_def)
  have "\<exists>e st'. Socket_new False (traced_libc ref_libc) (traced_libxdp ?X) ?st
      (SocketConfig_default ref_libxdp) ref_umem (Interface [108, 111]) 0 = Ret (Inl e, st')"
    by (simp add: Socket_new_def with_ptr_and_saved_queues_def ref_socket_store_ok Socket_create_def sc
      ref_inner_def UmemInner_new_def Socket_error_def XskSocket_new_def Let_def)
  then obtain e st' where run: "Socket_new False (traced_libc ref_libc) (traced_libxdp ?X) ?st
      (SocketConfig_default ref_libxdp) ref_umem (Interface [108, 111]) 0 = Ret (Inl e, st')" by blast
  from Socket_new_no_leak [OF ref_socket_store_ok(1,2,3) run] run show ?thesis
    by (auto simp: ref_socket_store_def arena_empty_def)
qed

text \<open>
  C34: the queues saved when the UMEM was created go to the first socket creation on it, and only
  to that one. libxdp is called once, on the UMEM's object, with the saved rings, or with empty
  ones when they were taken before; what it returns is what the caller gets: its transmit and
  receive rings, and its fill and completion rings unless they are null. Whether the creation
  succeeds or fails, no saved queues are left.
\<close>

theorem Socket_new_takes_saved_queues:
  assumes wf: "wf_arena (ss_sockets st)" and live: "umem_live st u"
    and cell: "arc_get (us_umems st) (um_inner u) = Some ui"
    and saved: "(fq0, cq0) = (case ui_saved_fq_and_cq ui of None \<Rightarrow> (default, default) | Some qs \<Rightarrow> qs)"
    and call: "socket_create_shared X (us_world st) null (Interface_as_cstr i) q (XskUmem_as_mut_ptr (ui_ptr ui))
      (XskRingCons_as_mut default) (XskRingProd_as_mut default) (XskRingProd_as_mut fq0) (XskRingCons_as_mut cq0)
      (SocketConfig_into_xsk c) = (err, p, rx, tx, fq, cq, w1)"
    and run: "Socket_new oc L X st c u i q = Ret (res, st')"
  shows "arc_get (us_umems st') (um_inner u) = Some (ui\<lparr>ui_saved_fq_and_cq := None\<rparr>)
    \<and> (case res of
        Inl e \<Rightarrow> us_world st' = (if err = 0 \<and> p \<noteq> 0 then XskSocket_drop X w1 (XskSocket p) else w1)
      | Inr (txq, rxq, qs) \<Rightarrow> err = 0 \<and> p \<noteq> 0 \<and> us_world st' = w1
          \<and> tx_ring txq = XskRingProd tx \<and> rx_ring rxq = XskRingCons rx
          \<and> map_option (\<lambda>(f, c). (fq_ring f, cq_ring c)) qs
            = (if XskRingProd_is_ring_null (XskRingProd fq) then None else Some (XskRingProd fq, XskRingCons cq)))"
proof -
  obtain sv where sc: "Socket_create X c i q (us_world st) (XskUmem_as_mut_ptr (ui_ptr ui)) (ui_saved_fq_and_cq ui)
      = ((err, p, XskRingCons rx, XskRingProd tx, XskRingProd fq, XskRingCons cq), sv, w1)"
    using call by (simp add: Socket_create_def saved [symmetric])
  have taken: "arc_get (us_umems (queues_taken st u ui w1)) (um_inner u) = Some (ui\<lparr>ui_saved_fq_and_cq := None\<rparr>)"
    using arc_get_set [OF cell] by (simp add: queues_taken_def)
  moreover have "us_world (queues_taken st u ui w1) = w1" by (simp add: queues_taken_def)
  ultimately show ?thesis
    using Socket_new_outcome [OF live wf cell sc run]
    by (elim disjE conjE exE)
      (auto simp: TxQueue_new_def RxQueue_new_def FillQueue_new_def CompQueue_new_def)
qed

lemma Socket_new_release:
  assumes "arc_get (us_umems st) (um_inner u) = Some ui"
  shows "\<exists>res st'. Socket_new False L X st c u i q = Ret (res, st')"
proof -
  have q: "\<exists>res st'. Socket_queues False L X st1 u s err rx tx fq cq = Ret (res, st')" for st1 s err rx tx fq cq
    by (auto simp: Socket_queues_def Socket_error_def Let_def split: prod.splits bool.splits)
  show ?thesis
    using assms q
    by (auto simp: Socket_new_def with_ptr_and_saved_queues_def Socket_error_def Let_def split: prod.splits)
qed

theorem Socket_new_takes_saved_queues_witness:
  "\<exists>res st'. Socket_new False ref_libc ref_libxdp (ref_socket_store ref_zero)
      (SocketConfig_default ref_libxdp) ref_umem (Interface [108, 111]) 0 = Ret (res, st')
    \<and> arc_get (us_umems st') 0 = Some (ref_inner\<lparr>ui_saved_fq_and_cq := None\<rparr>)
    \<and> (\<exists>txq rxq f c. res = Inr (txq, rxq, Some (f, c)) \<and> fq_ring f = XskRingProd (ref_prod 100)
        \<and> cq_ring c = XskRingCons (ref_cons 200))"
proof -
  let ?st = "ref_socket_store ref_zero"
  have "\<exists>v st'. Socket_new False ref_libc ref_libxdp ?st (SocketConfig_default ref_libxdp) ref_umem (Interface [108, 111]) 0
      = Ret (Inr v, st')"
    by (simp add: Socket_new_def with_ptr_and_saved_queues_def ref_socket_store_ok Socket_create_def
      ref_inner_def UmemInner_new_def XskSocket_new_def Socket_queues_def Let_def Umem_clone_eq Socket_clone_def
      ref_prod_def ref_cons_def split: prod.split)
  then obtain v st' where run: "Socket_new False ref_libc ref_libxdp ?st
      (SocketConfig_default ref_libxdp) ref_umem (Interface [108, 111]) 0 = Ret (Inr v, st')" by blast
  obtain txq rxq qs where v: "v = (txq, rxq, qs)" by (rule prod_cases3)
  have saved: "(XskRingProd (ref_prod 100), XskRingCons (ref_cons 200))
      = (case ui_saved_fq_and_cq ref_inner of None \<Rightarrow> (default, default) | Some qs \<Rightarrow> qs)"
    by (simp add: ref_inner_def UmemInner_new_def)
  have "\<not> XskRingProd_is_ring_null (XskRingProd (ref_prod 100))" by (simp add: ref_prod_def)
  with Socket_new_takes_saved_queues [OF ref_socket_store_ok(1,2,4) saved _ run] run v show ?thesis
    by (auto simp: ref_umem_def)
qed

end
