(* ===== verification/Xsk_Resources.thy ===== *)
theory Xsk_Resources
  imports Xsk_Socket "HOL-Library.Multiset"
begin

text \<open>
  What foreign resources are open after a trace of calls, and the invariant that ties them to
  the arenas and to the handles a program holds: the reference counts are the numbers of
  holders, every cell is one open resource, a socket's UMEM and a UMEM's memory are open.
  The arena operations behind cloning, creating and dropping keep it; a drop releases a
  socket before its UMEM and a UMEM before its memory.
\<close>

section \<open>What an arena holds\<close>

definition live :: "('a \<Rightarrow> 'b) \<Rightarrow> 'a arena \<Rightarrow> 'b multiset" where
  "live f h = image_mset (\<lambda>i. f (snd (the (cells h i)))) (mset_set (dom (cells h)))"

lemma wf_arena_finite: "wf_arena h \<Longrightarrow> finite (dom (cells h))"
  by (rule finite_subset [of _ "{..< next_cell h}"]) (auto simp: wf_arena_def)

lemma live_cong:
  "dom (cells h') = dom (cells h) \<Longrightarrow>
   (\<And>i. i \<in> dom (cells h) \<Longrightarrow> f (snd (the (cells h' i))) = f (snd (the (cells h i)))) \<Longrightarrow>
   live f h' = live f h"
  unfolding live_def by (cases "finite (dom (cells h))") (auto intro!: image_mset_cong)

lemma live_insert:
  assumes "wf_arena h" and "cells h i = None" and "cells h' = (cells h)(i \<mapsto> (n, a))"
  shows "live f h' = add_mset (f a) (live f h)"
proof -
  have fin: "finite (dom (cells h))" by (rule wf_arena_finite [OF assms(1)])
  have i: "i \<notin> dom (cells h)" using assms(2) by auto
  then have "image_mset (\<lambda>j. f (snd (the (cells h' j)))) (mset_set (dom (cells h))) = live f h"
    unfolding live_def assms(3) using fin by (intro image_mset_cong) auto
  then show ?thesis
    using fin i by (simp add: live_def [of f h'] assms(3))
qed

lemma live_remove:
  assumes "wf_arena h" and "cells h i = Some (n, a)" and "cells h' = (cells h)(i := None)"
  shows "live f h = add_mset (f a) (live f h')"
proof -
  have wf: "wf_arena \<lparr>next_cell = next_cell h, cells = (cells h)(i := None)\<rparr>"
    using assms(1) by (simp add: wf_arena_def)
  have eq: "live f \<lparr>next_cell = next_cell h, cells = (cells h)(i := None)\<rparr> = live f h'"
    by (simp add: live_def assms(3))
  have "cells h = ((cells h)(i := None))(i \<mapsto> (n, a))"
    using assms(2) by (auto simp: fun_eq_iff)
  with live_insert [OF wf, of i h n a f] eq show ?thesis by simp
qed

lemma live_clone [simp]: "live f (arc_clone h i) = live f h"
  by (intro live_cong) (auto simp: arc_clone_def split: option.splits)

lemma live_set: "arc_get h i = Some b \<Longrightarrow> f a = f b \<Longrightarrow> live f (arc_set h i a) = live f h"
  by (intro live_cong) (auto simp: arc_set_def arc_get_def split: option.splits)

lemma live_drop:
  assumes "wf_arena h" and "arc_drop h i = (v, h')"
  shows "live f h = (case v of None \<Rightarrow> live f h' | Some a \<Rightarrow> add_mset (f a) (live f h'))"
proof (cases "cells h i")
  case None
  with assms(2) show ?thesis by (auto simp: arc_drop_def)
next
  case (Some na)
  obtain n a where na: "na = (n, a)" by (rule prod.exhaust)
  show ?thesis
  proof (cases "n \<le> 1")
    case True
    with Some na assms show ?thesis by (auto simp: arc_drop_def intro!: live_remove)
  next
    case False
    with Some na assms(2) have v: "v = None" "cells h' = (cells h)(i \<mapsto> (n - 1, a))"
      by (auto simp: arc_drop_def)
    have "live f h' = live f h" using Some na by (intro live_cong) (auto simp: v)
    with v show ?thesis by simp
  qed
qed

section \<open>Open resources\<close>

text \<open>
  What a trace of foreign calls leaves open: the mapped memory with its length, the UMEMs with
  the memory each was given, the sockets with the UMEM each was created on.
\<close>

record resources =
  op_maps :: "ptr \<rightharpoonup> usize"
  op_umems :: "ptr \<rightharpoonup> ptr"
  op_socks :: "ptr \<rightharpoonup> ptr"

definition no_resources :: resources where
  "no_resources = \<lparr>op_maps = Map.empty, op_umems = Map.empty, op_socks = Map.empty\<rparr>"

fun after :: "resources \<Rightarrow> foreign_call \<Rightarrow> resources" where
  "after r (MmapCall a n) = r\<lparr>op_maps := (op_maps r)(a \<mapsto> n)\<rparr>"
| "after r (MunmapCall a n) = r\<lparr>op_maps := (op_maps r)(a := None)\<rparr>"
| "after r (UmemCreateCall p a) = r\<lparr>op_umems := (op_umems r)(p \<mapsto> a)\<rparr>"
| "after r (UmemDeleteCall p) = r\<lparr>op_umems := (op_umems r)(p := None)\<rparr>"
| "after r (SocketCreateCall p u) = r\<lparr>op_socks := (op_socks r)(p \<mapsto> u)\<rparr>"
| "after r (SocketDeleteCall p) = r\<lparr>op_socks := (op_socks r)(p := None)\<rparr>"

abbreviation opens :: "resources \<Rightarrow> foreign_call list \<Rightarrow> resources" where
  "opens \<equiv> foldl after"

text \<open>An acquisition that returns an address not in use, as allocators do.\<close>

fun fresh_call :: "resources \<Rightarrow> foreign_call \<Rightarrow> bool" where
  "fresh_call r (MmapCall a n) \<longleftrightarrow> op_maps r a = None"
| "fresh_call r (UmemCreateCall p a) \<longleftrightarrow> op_umems r p = None"
| "fresh_call r (SocketCreateCall p u) \<longleftrightarrow> op_socks r p = None"
| "fresh_call r c \<longleftrightarrow> True"

text \<open>A release of something that is open.\<close>

fun release_ok :: "resources \<Rightarrow> foreign_call \<Rightarrow> bool" where
  "release_ok r (MunmapCall a n) \<longleftrightarrow> op_maps r a = Some n"
| "release_ok r (UmemDeleteCall p) \<longleftrightarrow> op_umems r p \<noteq> None"
| "release_ok r (SocketDeleteCall p) \<longleftrightarrow> op_socks r p \<noteq> None"
| "release_ok r c \<longleftrightarrow> True"

text \<open>Every open socket has its UMEM open, and every open UMEM its memory mapped.\<close>

definition linked :: "resources \<Rightarrow> bool" where
  "linked r \<longleftrightarrow> ran (op_socks r) \<subseteq> dom (op_umems r) \<and> ran (op_umems r) \<subseteq> dom (op_maps r)"

fun fresh_trace :: "resources \<Rightarrow> foreign_call list \<Rightarrow> bool" where
  "fresh_trace r [] \<longleftrightarrow> True"
| "fresh_trace r (c # t) \<longleftrightarrow> fresh_call r c \<and> fresh_trace (after r c) t"

fun ordered_trace :: "resources \<Rightarrow> foreign_call list \<Rightarrow> bool" where
  "ordered_trace r [] \<longleftrightarrow> True"
| "ordered_trace r (c # t) \<longleftrightarrow> release_ok r c \<and> linked (after r c) \<and> ordered_trace (after r c) t"

lemma fresh_trace_append [simp]:
  "fresh_trace r (s @ t) \<longleftrightarrow> fresh_trace r s \<and> fresh_trace (opens r s) t"
  by (induction s arbitrary: r) simp_all

lemma ordered_trace_append [simp]:
  "ordered_trace r (s @ t) \<longleftrightarrow> ordered_trace r s \<and> ordered_trace (opens r s) t"
  by (induction s arbitrary: r) auto

text \<open>The releases of a failed creation undo its acquisitions, in the right order.\<close>

lemma balanced_ordered:
  assumes "balanced calls" and "fresh_trace r calls" and "linked r"
  shows "ordered_trace r calls \<and> opens r calls = r"
proof -
  have keep: "f x = None \<Longrightarrow> f(x := None) = f" for f :: "ptr \<rightharpoonup> 'b" and x
    by (simp add: fun_upd_idem)
  from assms(1) consider "calls = []" | a n where "calls = [MmapCall a n, MunmapCall a n]"
    | a n p where "calls = [MmapCall a n, UmemCreateCall p a, UmemDeleteCall p, MunmapCall a n]"
    by (auto simp: balanced_def)
  then show ?thesis
    using assms(2,3) by cases (auto simp: linked_def keep)
qed

section \<open>The invariant\<close>

text \<open>
  The arenas against those who refer to them: \<open>U\<close> the UMEM handles outside the arenas, \<open>S\<close>
  the socket handles. The UMEMs held from inside the sockets count as well.
\<close>

abbreviation holders :: "SocketInner arena \<Rightarrow> Umem multiset \<Rightarrow> Umem multiset" where
  "holders s U \<equiv> U + live si_umem s"

definition counted :: "Mmap arena \<Rightarrow> UmemInner arena \<Rightarrow> SocketInner arena
    \<Rightarrow> Umem multiset \<Rightarrow> nat multiset \<Rightarrow> bool" where
  "counted m u s U S \<longleftrightarrow> wf_arena m \<and> wf_arena u \<and> wf_arena s
     \<and> (\<forall>k. arc_count s k = count S k)
     \<and> (\<forall>i. arc_count u i = count (image_mset um_inner (holders s U)) i)
     \<and> (\<forall>j. arc_count m j = count (image_mset (\<lambda>x. rg_mmap (um_mem x)) (holders s U)) j)"

text \<open>Handles of one UMEM share its memory map, and only they do.\<close>

definition matching :: "Umem \<Rightarrow> Umem \<Rightarrow> bool" where
  "matching x y \<longleftrightarrow> (um_inner x = um_inner y \<longleftrightarrow> rg_mmap (um_mem x) = rg_mmap (um_mem y))
     \<and> (um_inner x = um_inner y \<longrightarrow> rg_addr (um_mem x) = rg_addr (um_mem y))"

definition paired :: "Umem multiset \<Rightarrow> bool" where
  "paired H \<longleftrightarrow> (\<forall>x \<in># H. \<forall>y \<in># H. matching x y)"

text \<open>The values of an arena are exactly the open resources of a kind, one each.\<close>

definition registered :: "('a \<Rightarrow> ptr) \<Rightarrow> (nat \<rightharpoonup> 'a) \<Rightarrow> (ptr \<rightharpoonup> 'b) \<Rightarrow> bool" where
  "registered f V r \<longleftrightarrow> dom r = f ` ran V
     \<and> (\<forall>i j a b. V i = Some a \<longrightarrow> V j = Some b \<longrightarrow> f a = f b \<longrightarrow> i = j)"

definition umem_ptr :: "UmemInner \<Rightarrow> ptr" where
  "umem_ptr ui = XskUmem_as_mut_ptr (ui_ptr ui)"

definition sock_ptr :: "SocketInner \<Rightarrow> ptr" where
  "sock_ptr si = (case si_ptr si of XskSocket p \<Rightarrow> p)"

text \<open>What a UMEM handle refers to is open, and so is the UMEM of a socket.\<close>

definition umem_backed :: "(nat \<rightharpoonup> Mmap) \<Rightarrow> (nat \<rightharpoonup> UmemInner) \<Rightarrow> resources \<Rightarrow> Umem \<Rightarrow> bool" where
  "umem_backed M V r x \<longleftrightarrow> (\<exists>ui n. V (um_inner x) = Some ui
     \<and> M (rg_mmap (um_mem x)) = Some \<lparr>mm_addr = rg_addr (um_mem x), mm_len = n\<rparr>
     \<and> op_umems r (umem_ptr ui) = Some (rg_addr (um_mem x)) \<and> op_maps r (rg_addr (um_mem x)) = Some n)"

definition sock_backed :: "(nat \<rightharpoonup> UmemInner) \<Rightarrow> resources \<Rightarrow> SocketInner \<Rightarrow> bool" where
  "sock_backed V r si \<longleftrightarrow> (\<exists>ui. V (um_inner (si_umem si)) = Some ui
     \<and> op_socks r (sock_ptr si) = Some (umem_ptr ui))"

definition invariant :: "Mmap arena \<Rightarrow> UmemInner arena \<Rightarrow> SocketInner arena
    \<Rightarrow> Umem multiset \<Rightarrow> nat multiset \<Rightarrow> resources \<Rightarrow> bool" where
  "invariant m u s U S r \<longleftrightarrow> counted m u s U S \<and> paired (holders s U)
     \<and> registered mm_addr (arc_get m) (op_maps r)
     \<and> registered umem_ptr (arc_get u) (op_umems r)
     \<and> registered sock_ptr (arc_get s) (op_socks r)
     \<and> (\<forall>x \<in># holders s U. umem_backed (arc_get m) (arc_get u) r x)
     \<and> (\<forall>si \<in> ran (arc_get s). sock_backed (arc_get u) r si)"

section \<open>The values of an arena under its operations\<close>

lemma get_clone: "arc_get (arc_clone h i) = arc_get h"
  by (rule ext) (rule arc_get_clone)

lemma get_set: "arc_get h i = Some b \<Longrightarrow> arc_get (arc_set h i a) = (arc_get h)(i \<mapsto> a)"
  by (auto simp: arc_get_def arc_set_def fun_eq_iff)

lemma get_new: "arc_get (snd (arc_new h a)) = (arc_get h)(next_cell h \<mapsto> a)"
  by (auto simp: arc_get_def arc_new_def fun_eq_iff)

lemma get_new_None: "wf_arena h \<Longrightarrow> arc_get h (next_cell h) = None"
  by (simp add: arc_get_def wf_arena_fresh)

lemma get_drop:
  assumes "arc_drop h i = (v, h')"
  shows "case v of None \<Rightarrow> arc_get h' = arc_get h
    | Some a \<Rightarrow> arc_get h i = Some a \<and> arc_get h' = (arc_get h)(i := None)"
  using assms by (auto simp: arc_drop_def arc_get_def fun_eq_iff split: option.splits if_splits)

lemma count_get: "wf_arena h \<Longrightarrow> arc_count h i \<noteq> 0 \<longleftrightarrow> arc_get h i \<noteq> None"
  by (auto simp: arc_count_def arc_get_def wf_arena_def split: option.splits)

lemma count_new:
  "wf_arena h \<Longrightarrow> arc_count (snd (arc_new h a)) j = arc_count h j + (if j = next_cell h then 1 else 0)"
  using wf_arena_fresh [of h] by (auto simp: arc_count_def arc_new_def)

lemma count_drop_last:
  "wf_arena h \<Longrightarrow> arc_drop h i = (v, h') \<Longrightarrow> v \<noteq> None \<longleftrightarrow> arc_count h i = 1"
  by (auto simp: arc_drop_def arc_count_def dest: wf_arena_pos split: option.splits if_splits)

lemma live_new: "wf_arena h \<Longrightarrow> live f (snd (arc_new h a)) = add_mset (f a) (live f h)"
  by (rule live_insert [of h "next_cell h"]) (simp_all add: wf_arena_fresh arc_new_def)

lemma registered_def':
  "registered f V r \<longleftrightarrow> (\<forall>p. r p \<noteq> None \<longleftrightarrow> (\<exists>i a. V i = Some a \<and> p = f a))
     \<and> (\<forall>i j a b. V i = Some a \<longrightarrow> V j = Some b \<longrightarrow> f a = f b \<longrightarrow> i = j)"
proof -
  have "p \<in> f ` ran V \<longleftrightarrow> (\<exists>i a. V i = Some a \<and> p = f a)" for p
    by (auto simp: ran_def)
  then show ?thesis by (simp add: registered_def set_eq_iff domIff)
qed

lemma registered_new:
  assumes "registered f V r" and "V i = None" and "r (f a) = None"
  shows "registered f (V(i \<mapsto> a)) (r(f a \<mapsto> v))"
proof -
  have "f b \<noteq> f a" if "V j = Some b" for j b
    using assms(1,3) that by (metis registered_def')
  then show ?thesis
    using assms unfolding registered_def' by (auto split: if_splits; metis option.distinct(1))
qed

lemma registered_remove:
  assumes "registered f V r" and "V i = Some a"
  shows "registered f (V(i := None)) (r(f a := None))"
proof -
  have "f b \<noteq> f a" if "V j = Some b" "j \<noteq> i" for j b
    using assms that by (metis registered_def')
  then show ?thesis
    using assms unfolding registered_def' by (auto split: if_splits; metis option.inject)
qed

lemma registered_upd:
  assumes "registered f V r" and "V i = Some b" and "f a = f b"
  shows "registered f (V(i \<mapsto> a)) r"
proof -
  have "(\<exists>j c. (V(i \<mapsto> a)) j = Some c \<and> p = f c) \<longleftrightarrow> (\<exists>j c. V j = Some c \<and> p = f c)" for p
    using assms(2,3) by (metis fun_upd_def option.inject)
  then show ?thesis
    using assms unfolding registered_def' by (auto split: if_splits)
qed

lemma registered_inj: "registered f V r \<Longrightarrow> V i = Some a \<Longrightarrow> V j = Some b \<Longrightarrow> i \<noteq> j \<Longrightarrow> f a \<noteq> f b"
  unfolding registered_def by blast

text \<open>In a state that keeps the invariant, what is open is linked.\<close>

lemma counted_holder:
  assumes "counted m u s U S" and "arc_get u i \<noteq> None"
  shows "\<exists>x \<in># holders s U. um_inner x = i"
proof -
  from assms have "count (image_mset um_inner (holders s U)) i \<noteq> 0"
    using count_get [of u i] by (simp add: counted_def)
  then have "i \<in># image_mset um_inner (holders s U)" by (simp add: not_in_iff)
  then show ?thesis by auto
qed

lemma invariant_linked:
  assumes "invariant m u s U S r"
  shows "linked r"
  unfolding linked_def
proof (intro conjI subsetI)
  fix q assume "q \<in> ran (op_socks r)"
  then obtain p where p: "op_socks r p = Some q" by (auto simp: ran_def)
  then have "p \<in> sock_ptr ` ran (arc_get s)" using assms by (auto simp: invariant_def registered_def)
  then obtain si where si: "si \<in> ran (arc_get s)" "p = sock_ptr si" by blast
  with assms have "sock_backed (arc_get u) r si" by (simp add: invariant_def)
  with p si obtain ui where "arc_get u (um_inner (si_umem si)) = Some ui" "q = umem_ptr ui"
    by (auto simp: sock_backed_def)
  then have "q \<in> umem_ptr ` ran (arc_get u)" by (auto simp: ran_def)
  with assms show "q \<in> dom (op_umems r)" by (simp add: invariant_def registered_def)
next
  fix a assume "a \<in> ran (op_umems r)"
  then obtain p where p: "op_umems r p = Some a" by (auto simp: ran_def)
  then have "p \<in> umem_ptr ` ran (arc_get u)" using assms by (auto simp: invariant_def registered_def)
  then obtain i ui where ui: "arc_get u i = Some ui" "p = umem_ptr ui" by (auto simp: ran_def)
  then obtain x where x: "x \<in># holders s U" "um_inner x = i"
    using counted_holder [of m u s U S i] assms by (auto simp: invariant_def)
  with assms have "umem_backed (arc_get m) (arc_get u) r x" by (auto simp: invariant_def)
  with p ui x show "a \<in> dom (op_maps r)" by (auto simp: umem_backed_def)
qed

section \<open>Operations on the arenas keep the invariant\<close>

lemma invariantD:
  assumes "invariant m u s U S r"
  shows inv_wf: "wf_arena m" "wf_arena u" "wf_arena s"
    and inv_sockets: "arc_count s k = count S k"
    and inv_umems: "arc_count u i = count (image_mset um_inner (holders s U)) i"
    and inv_maps: "arc_count m j = count (image_mset (\<lambda>x. rg_mmap (um_mem x)) (holders s U)) j"
    and inv_paired: "paired (holders s U)"
    and inv_registered: "registered mm_addr (arc_get m) (op_maps r)"
      "registered umem_ptr (arc_get u) (op_umems r)" "registered sock_ptr (arc_get s) (op_socks r)"
    and inv_backed: "x \<in># holders s U \<Longrightarrow> umem_backed (arc_get m) (arc_get u) r x"
    and inv_sock_backed: "arc_get s k = Some si \<Longrightarrow> sock_backed (arc_get u) r si"
  using assms by (auto simp: invariant_def counted_def ran_def)

lemma invariantI:
  assumes "wf_arena m" "wf_arena u" "wf_arena s"
    and "\<And>k. arc_count s k = count S k"
    and "\<And>i. arc_count u i = count (image_mset um_inner (holders s U)) i"
    and "\<And>j. arc_count m j = count (image_mset (\<lambda>x. rg_mmap (um_mem x)) (holders s U)) j"
    and "paired (holders s U)"
    and "registered mm_addr (arc_get m) (op_maps r)"
    and "registered umem_ptr (arc_get u) (op_umems r)" "registered sock_ptr (arc_get s) (op_socks r)"
    and "\<And>x. x \<in># holders s U \<Longrightarrow> umem_backed (arc_get m) (arc_get u) r x"
    and "\<And>k si. arc_get s k = Some si \<Longrightarrow> sock_backed (arc_get u) r si"
  shows "invariant m u s U S r"
  using assms by (auto simp: invariant_def counted_def ran_def)

text \<open>What a handle refers to is there.\<close>

lemma inv_cells:
  assumes "invariant m u s U S r" and "x \<in># holders s U"
  shows "cells m (rg_mmap (um_mem x)) \<noteq> None" and "cells u (um_inner x) \<noteq> None"
  using inv_backed [OF assms] by (auto simp: umem_backed_def arc_get_def)

lemma inv_socket_cell:
  assumes "invariant m u s U S r" and "k \<in># S"
  shows "cells s k \<noteq> None"
  using inv_sockets [OF assms(1), of k] assms(2) by (auto simp: arc_count_def count_eq_zero_iff split: option.splits)

lemma live_member: "wf_arena s \<Longrightarrow> arc_get s k = Some a \<Longrightarrow> f a \<in># live f s"
  unfolding live_def
  by (auto simp: arc_get_def wf_arena_finite intro!: image_eqI [of _ _ k])

lemma paired_add: "x \<in># H \<Longrightarrow> paired (add_mset x H) = paired H"
  by (simp only: paired_def set_mset_add_mset_insert insert_absorb)

lemma paired_new:
  assumes "paired H" and "\<And>y. y \<in># H \<Longrightarrow> um_inner y \<noteq> um_inner x"
    and "\<And>y. y \<in># H \<Longrightarrow> rg_mmap (um_mem y) \<noteq> rg_mmap (um_mem x)"
  shows "paired (add_mset x H)"
proof -
  have "matching x y \<and> matching y x" if "y \<in># H" for y
    using assms(2,3) that by (metis matching_def)
  then show ?thesis using assms(1) by (auto simp: paired_def matching_def [of x x])
qed

lemma le_upd: "f k = None \<Longrightarrow> f \<subseteq>\<^sub>m f(k \<mapsto> v)"
  by (auto simp: map_le_def)

lemma map_le_Some: "f \<subseteq>\<^sub>m g \<Longrightarrow> f k = Some v \<Longrightarrow> g k = Some v"
  by (metis domI map_le_def)

lemma umem_backed_mono:
  assumes "umem_backed M V r x" and "M \<subseteq>\<^sub>m M'" and "V \<subseteq>\<^sub>m V'"
    and "op_umems r \<subseteq>\<^sub>m op_umems r'" and "op_maps r \<subseteq>\<^sub>m op_maps r'"
  shows "umem_backed M' V' r' x"
  using assms(1) unfolding umem_backed_def
  by (blast intro: map_le_Some [OF assms(2)] map_le_Some [OF assms(3)] map_le_Some [OF assms(4)]
    map_le_Some [OF assms(5)])

lemma sock_backed_mono:
  assumes "sock_backed V r si" and "V \<subseteq>\<^sub>m V'" and "op_socks r \<subseteq>\<^sub>m op_socks r'"
  shows "sock_backed V' r' si"
  using assms(1) unfolding sock_backed_def
  by (blast intro: map_le_Some [OF assms(2)] map_le_Some [OF assms(3)])

lemma backed_get:
  assumes "umem_backed M V r x"
  shows "M (rg_mmap (um_mem x)) \<noteq> None" and "V (um_inner x) \<noteq> None"
  using assms by (auto simp: umem_backed_def)

lemma inv_clone:
  assumes inv: "invariant m u s U S r" and x: "x \<in># holders s U"
  shows "invariant (arc_clone m (rg_mmap (um_mem x))) (arc_clone u (um_inner x)) s (add_mset x U) S r"
proof (rule invariantI)
  note [simp] = get_clone inv_cells [OF inv x] arc_count_clone
  show "paired (holders s (add_mset x U))"
    using inv_paired [OF inv] x paired_add by simp
  show "umem_backed (arc_get (arc_clone m (rg_mmap (um_mem x)))) (arc_get (arc_clone u (um_inner x))) r y"
    if "y \<in># holders s (add_mset x U)" for y
    using inv_backed [OF inv, of y] inv_backed [OF inv x] that by auto
qed (use inv in \<open>auto intro!: wf_arc_clone simp: get_clone inv_cells [OF inv x] arc_count_clone dest: invariantD\<close>)

lemma inv_socket_clone:
  assumes inv: "invariant m u s U S r" and k: "k \<in># S"
  shows "invariant m u (arc_clone s k) U (add_mset k S) r"
  using invariantD [OF inv] wf_arc_clone [OF inv_wf(3) [OF inv]]
  by (intro invariantI) (auto simp: get_clone arc_count_clone inv_socket_cell [OF inv k])

text \<open>Reserving an index changes nothing.\<close>

lemma wf_arena_cong:
  "wf_arena h \<Longrightarrow> cells h' = cells h \<Longrightarrow> next_cell h \<le> next_cell h' \<Longrightarrow> wf_arena h'"
  by (rule wf_arenaI) (metis wf_arenaD less_le_trans)

lemma inv_cong:
  assumes inv: "invariant m u s U S r"
    and "cells m' = cells m" "next_cell m \<le> next_cell m'" "cells s' = cells s" "next_cell s \<le> next_cell s'"
  shows "invariant m' u s' U S r"
proof -
  have "arc_get m' = arc_get m" "arc_get s' = arc_get s" "arc_count m' = arc_count m"
    "arc_count s' = arc_count s" "live f s' = live f s" for f :: "SocketInner \<Rightarrow> Umem"
    using assms(2,4) by (simp_all add: arc_get_def [abs_def] arc_count_def [abs_def] live_def)
  moreover have "wf_arena m'" "wf_arena s'"
    using inv_wf [OF inv] assms(2-5) wf_arena_cong by blast+
  ultimately show ?thesis
    using invariantD [OF inv] by (intro invariantI) auto
qed

text \<open>Taking the saved queues out of a UMEM changes nothing either.\<close>

lemma inv_set:
  assumes inv: "invariant m u s U S r" and "arc_get u i = Some ui" and "umem_ptr ui' = umem_ptr ui"
  shows "invariant m (arc_set u i ui') s U S r"
proof -
  have get: "arc_get (arc_set u i ui') = (arc_get u)(i \<mapsto> ui')" by (rule get_set [OF assms(2)])
  have "wf_arena (arc_set u i ui')" "arc_count (arc_set u i ui') j = arc_count u j" for j
    using inv_wf [OF inv] by (auto simp: wf_arena_def arc_set_def arc_count_def split: option.splits)
  moreover have "umem_backed M ((arc_get u)(i \<mapsto> ui')) r x" if "umem_backed M (arc_get u) r x" for M x
    using that assms(2,3) by (auto simp: umem_backed_def)
  moreover have "sock_backed ((arc_get u)(i \<mapsto> ui')) r si" if "sock_backed (arc_get u) r si" for si
    using that assms(2,3) by (auto simp: sock_backed_def)
  ultimately show ?thesis
    using invariantD [OF inv] registered_upd [OF inv_registered(2) [OF inv] assms(2,3)]
    by (intro invariantI) (auto simp: get)
qed

text \<open>A new UMEM, of which the allocators returned addresses not in use.\<close>

lemma inv_new:
  assumes inv: "invariant m u s U S r"
    and x: "um_inner x = next_cell u" "rg_mmap (um_mem x) = next_cell m" "rg_addr (um_mem x) = a"
    and ui: "umem_ptr ui = p" and fresh: "op_maps r a = None" "op_umems r p = None"
  shows "invariant (snd (arc_new m \<lparr>mm_addr = a, mm_len = n\<rparr>)) (snd (arc_new u ui)) s (add_mset x U) S
    (opens r [MmapCall a n, UmemCreateCall p a])"
proof (rule invariantI)
  let ?m = "snd (arc_new m \<lparr>mm_addr = a, mm_len = n\<rparr>)" and ?u = "snd (arc_new u ui)"
  let ?r = "opens r [MmapCall a n, UmemCreateCall p a]"
  note wf = inv_wf [OF inv]
  have none: "arc_get m (next_cell m) = None" "arc_get u (next_cell u) = None"
    using wf get_new_None by blast+
  have other: "um_inner y \<noteq> next_cell u" "rg_mmap (um_mem y) \<noteq> next_cell m" if "y \<in># holders s U" for y
    using backed_get [OF inv_backed [OF inv that]] none by metis+
  have keep: "umem_backed (arc_get ?m) (arc_get ?u) ?r y" if "y \<in># holders s U" for y
    using inv_backed [OF inv that] none fresh
    by (elim umem_backed_mono) (simp_all add: get_new le_upd)
  have same: "umem_backed (arc_get ?m) (arc_get ?u) ?r x"
    using x ui by (simp add: umem_backed_def get_new)
  show "wf_arena ?m" "wf_arena ?u" "wf_arena s"
    using wf by (auto intro: wf_arc_new simp: prod_eq_iff)
  show "paired (holders s (add_mset x U))"
    using paired_new [OF inv_paired [OF inv], of x] x other(1,2) by simp
  show "registered mm_addr (arc_get ?m) (op_maps ?r)"
    using registered_new [OF inv_registered(1) [OF inv] none(1), of "\<lparr>mm_addr = a, mm_len = n\<rparr>" n] fresh
    by (simp add: get_new)
  show "registered umem_ptr (arc_get ?u) (op_umems ?r)"
    using registered_new [OF inv_registered(2) [OF inv] none(2), of ui a] fresh ui by (simp add: get_new)
  show "registered sock_ptr (arc_get s) (op_socks ?r)"
    using inv_registered(3) [OF inv] by simp
  show "umem_backed (arc_get ?m) (arc_get ?u) ?r y" if "y \<in># holders s (add_mset x U)" for y
    using that keep same by auto
  show "sock_backed (arc_get ?u) ?r si" if "arc_get s k = Some si" for k si
    using inv_sock_backed [OF inv that] none(2)
    by (elim sock_backed_mono) (simp_all add: get_new le_upd)
qed (use invariantD [OF inv] x in \<open>auto simp: count_new\<close>)

text \<open>A new socket takes a UMEM handle with it into its arena.\<close>

lemma inv_open:
  assumes inv: "invariant m u s (add_mset x U) S r"
    and si: "si_umem si = x" "sock_ptr si = p" and ui: "arc_get u (um_inner x) = Some ui"
    and fresh: "op_socks r p = None"
  shows "invariant m u (snd (arc_new s si)) U (add_mset (next_cell s) S)
    (after r (SocketCreateCall p (umem_ptr ui)))"
proof (rule invariantI)
  let ?s = "snd (arc_new s si)" and ?r = "after r (SocketCreateCall p (umem_ptr ui))"
  note wf = inv_wf [OF inv]
  have none: "arc_get s (next_cell s) = None" using wf get_new_None by blast
  have holders: "holders ?s U = holders s (add_mset x U)"
    using si wf by (simp add: live_new)
  show "wf_arena ?s" using wf(3) wf_arc_new by (metis prod.collapse)
  show "registered sock_ptr (arc_get ?s) (op_socks ?r)"
    using registered_new [OF inv_registered(3) [OF inv] none, of si "umem_ptr ui"] fresh si
    by (simp add: get_new)
  show "sock_backed (arc_get u) ?r sj" if "arc_get ?s k = Some sj" for k sj
  proof (cases "k = next_cell s")
    case True
    then show ?thesis using that si ui by (simp add: get_new sock_backed_def)
  next
    case False
    then have "sock_backed (arc_get u) r sj" using that inv_sock_backed [OF inv] by (simp add: get_new)
    then show ?thesis using fresh by (elim sock_backed_mono) (simp_all add: le_upd)
  qed
  show "arc_count ?s k = count (add_mset (next_cell s) S) k" for k
    using inv_sockets [OF inv] wf(3) by (simp add: count_new)
  show "umem_backed (arc_get m) (arc_get u) ?r y" if "y \<in># holders ?s U" for y
    using inv_backed [OF inv that [unfolded holders]] by (elim umem_backed_mono) simp_all
  show "arc_count u i = count (image_mset um_inner (holders ?s U)) i" for i
    unfolding holders by (rule inv_umems [OF inv])
  show "arc_count m j = count (image_mset (\<lambda>x. rg_mmap (um_mem x)) (holders ?s U)) j" for j
    unfolding holders by (rule inv_maps [OF inv])
  show "paired (holders ?s U)" unfolding holders by (rule inv_paired [OF inv])
qed (use invariantD [OF inv] in simp_all)

section \<open>Drops release in order\<close>

text \<open>
  The last handle of a UMEM is also the last of its memory map: both go together, and no
  socket is left that uses them.
\<close>

lemma count_fibre: "count (image_mset f H) i = 0 \<longleftrightarrow> (\<forall>y \<in># H. f y \<noteq> i)"
  by (auto simp: count_eq_zero_iff)

lemma inv_drop_together:
  assumes inv: "invariant m u s (add_mset x U) S r"
    and "arc_drop u (um_inner x) = (v, u')" and "arc_drop m (rg_mmap (um_mem x)) = (vm, m')"
  shows "v \<noteq> None \<longleftrightarrow> (\<forall>y \<in># holders s U. um_inner y \<noteq> um_inner x)"
    and "vm \<noteq> None \<longleftrightarrow> (\<forall>y \<in># holders s U. rg_mmap (um_mem y) \<noteq> rg_mmap (um_mem x))"
    and "v \<noteq> None \<longleftrightarrow> vm \<noteq> None"
proof -
  let ?H = "holders s U"
  have "v \<noteq> None \<longleftrightarrow> arc_count u (um_inner x) = 1"
    by (rule count_drop_last [OF inv_wf(2) [OF inv] assms(2)])
  then show v: "v \<noteq> None \<longleftrightarrow> (\<forall>y \<in># ?H. um_inner y \<noteq> um_inner x)"
    using count_fibre [of um_inner ?H] by (simp add: inv_umems [OF inv])
  have "vm \<noteq> None \<longleftrightarrow> arc_count m (rg_mmap (um_mem x)) = 1"
    by (rule count_drop_last [OF inv_wf(1) [OF inv] assms(3)])
  then show vm: "vm \<noteq> None \<longleftrightarrow> (\<forall>y \<in># ?H. rg_mmap (um_mem y) \<noteq> rg_mmap (um_mem x))"
    using count_fibre [of "\<lambda>x. rg_mmap (um_mem x)" ?H] by (simp add: inv_maps [OF inv])
  have "matching x y" if "y \<in># ?H" for y
    using inv_paired [OF inv] that by (simp add: paired_def)
  then show "v \<noteq> None \<longleftrightarrow> vm \<noteq> None"
    unfolding v vm by (metis matching_def)
qed

text \<open>A drop that is not the last one.\<close>

lemma inv_drop_some:
  assumes inv: "invariant m u s (add_mset x U) S r"
    and u: "arc_drop u (um_inner x) = (None, u')" and m: "arc_drop m (rg_mmap (um_mem x)) = (None, m')"
  shows "invariant m' u' s U S r"
proof (rule invariantI)
  note wf = inv_wf [OF inv]
  have get [simp]: "arc_get u' = arc_get u" "arc_get m' = arc_get m"
    using get_drop [OF u] get_drop [OF m] by simp_all
  show "wf_arena m'" "wf_arena u'" "wf_arena s"
    using wf wf_arc_drop [OF _ u] wf_arc_drop [OF _ m] by blast+
  show "arc_count u' i = count (image_mset um_inner (holders s U)) i" for i
    using arc_count_drop [OF wf(2) u, of i] inv_umems [OF inv, of i] by simp
  show "arc_count m' j = count (image_mset (\<lambda>x. rg_mmap (um_mem x)) (holders s U)) j" for j
    using arc_count_drop [OF wf(1) m, of j] inv_maps [OF inv, of j] by simp
  show "paired (holders s U)"
    using inv_paired [OF inv] by (simp add: paired_def)
qed (use invariantD [OF inv] in \<open>auto simp: get_drop [OF u, simplified] get_drop [OF m, simplified]\<close>)

text \<open>The last drop: the UMEM is deleted, then its memory unmapped.\<close>

lemma inv_drop_last:
  assumes inv: "invariant m u s (add_mset x U) S r"
    and u: "arc_drop u (um_inner x) = (Some ui, u')" and m: "arc_drop m (rg_mmap (um_mem x)) = (Some mm, m')"
  shows "invariant m' u' s U S (opens r [UmemDeleteCall (umem_ptr ui), MunmapCall (mm_addr mm) (mm_len mm)])"
    (is "invariant _ _ _ _ _ ?r")
proof (rule invariantI)
  note wf = inv_wf [OF inv]
  note alone = inv_drop_together [OF inv u m]
  have get: "arc_get u (um_inner x) = Some ui" "arc_get u' = (arc_get u)(um_inner x := None)"
    "arc_get m (rg_mmap (um_mem x)) = Some mm" "arc_get m' = (arc_get m)(rg_mmap (um_mem x) := None)"
    using get_drop [OF u] get_drop [OF m] by simp_all
  have oc: "op_umems ?r = (op_umems r)(umem_ptr ui := None)" "op_maps ?r = (op_maps r)(mm_addr mm := None)"
    "op_socks ?r = op_socks r" by simp_all
  show "wf_arena m'" "wf_arena u'" "wf_arena s"
    using wf wf_arc_drop [OF _ u] wf_arc_drop [OF _ m] by blast+
  show "arc_count s k = count S k" for k by (rule inv_sockets [OF inv])
  show "arc_count u' i = count (image_mset um_inner (holders s U)) i" for i
    using arc_count_drop [OF wf(2) u, of i] inv_umems [OF inv, of i] by simp
  show "arc_count m' j = count (image_mset (\<lambda>x. rg_mmap (um_mem x)) (holders s U)) j" for j
    using arc_count_drop [OF wf(1) m, of j] inv_maps [OF inv, of j] by simp
  show "paired (holders s U)"
    using inv_paired [OF inv] by (simp add: paired_def)
  show "registered umem_ptr (arc_get u') (op_umems ?r)"
    unfolding get oc by (rule registered_remove [OF inv_registered(2) [OF inv] get(1)])
  show "registered mm_addr (arc_get m') (op_maps ?r)"
    unfolding get oc by (rule registered_remove [OF inv_registered(1) [OF inv] get(3)])
  show "registered sock_ptr (arc_get s) (op_socks ?r)"
    unfolding oc by (rule inv_registered(3) [OF inv])
  show "umem_backed (arc_get m') (arc_get u') ?r y" if y: "y \<in># holders s U" for y
  proof -
    have "um_inner y \<noteq> um_inner x" "rg_mmap (um_mem y) \<noteq> rg_mmap (um_mem x)"
      using alone y by auto
    moreover have "y \<in># holders s (add_mset x U)" using y by simp
    ultimately show ?thesis
      using inv_backed [OF inv] get(1,3) registered_inj [OF inv_registered(1) [OF inv]]
        registered_inj [OF inv_registered(2) [OF inv]]
      unfolding umem_backed_def get(2,4) oc by (metis fun_upd_other Mmap.select_convs(1))
  qed
  show "sock_backed (arc_get u') ?r si" if "arc_get s k = Some si" for k si
  proof -
    have "si_umem si \<in># holders s U"
      using live_member [OF wf(3) that, of si_umem] by simp
    then have "um_inner (si_umem si) \<noteq> um_inner x" using alone by auto
    then show ?thesis
      using inv_sock_backed [OF inv that] unfolding sock_backed_def get(2) oc by (metis fun_upd_other)
  qed
qed

text \<open>A socket handle goes; the last one deletes the socket and hands its UMEM on.\<close>

lemma inv_socket_drop_some:
  assumes inv: "invariant m u s U (add_mset k S) r" and s: "arc_drop s k = (None, s')"
  shows "invariant m u s' U S r"
proof -
  have "arc_get s' = arc_get s" "wf_arena s'" "live si_umem s' = live si_umem s"
    using get_drop [OF s] wf_arc_drop [OF inv_wf(3) [OF inv] s] live_drop [OF inv_wf(3) [OF inv] s, of si_umem]
    by simp_all
  moreover have "arc_count s' j = count S j" for j
    using arc_count_drop [OF inv_wf(3) [OF inv] s, of j] inv_sockets [OF inv, of j] by simp
  ultimately show ?thesis
    using invariantD [OF inv] by (intro invariantI) auto
qed

lemma inv_socket_drop_last:
  assumes inv: "invariant m u s U (add_mset k S) r" and s: "arc_drop s k = (Some si, s')"
  shows "invariant m u s' (add_mset (si_umem si) U) S (after r (SocketDeleteCall (sock_ptr si)))"
    (is "invariant _ _ _ ?U _ ?r")
proof (rule invariantI)
  note wf = inv_wf [OF inv]
  have get: "arc_get s k = Some si" "arc_get s' = (arc_get s)(k := None)"
    using get_drop [OF s] by simp_all
  have holders: "holders s' ?U = holders s U"
    using live_drop [OF wf(3) s, of si_umem] by simp
  show "wf_arena s'" by (rule wf_arc_drop [OF wf(3) s])
  show "arc_count s' j = count S j" for j
    using arc_count_drop [OF wf(3) s, of j] inv_sockets [OF inv, of j] by simp
  show "arc_count u i = count (image_mset um_inner (holders s' ?U)) i" for i
    unfolding holders by (rule inv_umems [OF inv])
  show "arc_count m j = count (image_mset (\<lambda>x. rg_mmap (um_mem x)) (holders s' ?U)) j" for j
    unfolding holders by (rule inv_maps [OF inv])
  show "paired (holders s' ?U)" unfolding holders by (rule inv_paired [OF inv])
  show "registered sock_ptr (arc_get s') (op_socks ?r)"
    unfolding get using registered_remove [OF inv_registered(3) [OF inv] get(1)] by simp
  show "umem_backed (arc_get m) (arc_get u) ?r y" if "y \<in># holders s' ?U" for y
    using inv_backed [OF inv that [unfolded holders]] by (elim umem_backed_mono) simp_all
  show "sock_backed (arc_get u) ?r sj" if "arc_get s' j = Some sj" for j sj
  proof -
    have "j \<noteq> k" "arc_get s j = Some sj" using that get by (auto split: if_splits)
    then have "sock_ptr sj \<noteq> sock_ptr si" "sock_backed (arc_get u) r sj"
      using registered_inj [OF inv_registered(3) [OF inv] _ get(1)] inv_sock_backed [OF inv] by blast+
    then show ?thesis by (simp add: sock_backed_def)
  qed
qed (use invariantD [OF inv] in simp_all)

text \<open>What is released was open, and nothing still open depended on it.\<close>

lemma inv_drop_ordered:
  assumes inv: "invariant m u s (add_mset x U) S r"
    and u: "arc_drop u (um_inner x) = (Some ui, u')" and m: "arc_drop m (rg_mmap (um_mem x)) = (Some mm, m')"
  shows "ordered_trace r [UmemDeleteCall (umem_ptr ui), MunmapCall (mm_addr mm) (mm_len mm)]"
proof -
  let ?r = "after r (UmemDeleteCall (umem_ptr ui))"
  have "linked (opens r [UmemDeleteCall (umem_ptr ui), MunmapCall (mm_addr mm) (mm_len mm)])"
    by (rule invariant_linked [OF inv_drop_last [OF inv u m]])
  moreover from this have "linked ?r" by (auto simp: linked_def)
  moreover have "release_ok r (UmemDeleteCall (umem_ptr ui))"
    "release_ok ?r (MunmapCall (mm_addr mm) (mm_len mm))"
    using inv_backed [OF inv, of x] get_drop [OF u] get_drop [OF m] by (auto simp: umem_backed_def)
  ultimately show ?thesis by simp
qed

lemma inv_socket_drop_ordered:
  assumes inv: "invariant m u s U (add_mset k S) r" and s: "arc_drop s k = (Some si, s')"
  shows "ordered_trace r [SocketDeleteCall (sock_ptr si)]"
  using invariant_linked [OF inv_socket_drop_last [OF inv s]] get_drop [OF s] inv_sock_backed [OF inv, of k si]
  by (auto simp: sock_backed_def)

end
