(* ===== verification/Xsk_Lifetimes.thy ===== *)
theory Xsk_Lifetimes
  imports Xsk_Resources "HOL-Library.Sublist"
begin

text \<open>
  The life of all handles of a program together: UMEMs are created and cloned, sockets are
  created on them, the queues run, and the handles a program holds (UMEMs and the four kinds
  of queues) are dropped in any order. The steps are the operations of the UMEM, queue and
  socket theories on one store; the foreign acquisitions and releases they cause are
  recorded. Shown, for every state a program can reach: the reference counts are the numbers
  of holders, what is open is what the store holds, every release is of something open that
  nothing open depends on; and when every handle is gone, in whatever order, nothing is left.
\<close>

section \<open>Handles\<close>

datatype handle = UmemH Umem | TxH TxQueue | RxH RxQueue | FillH FillQueue | CompH CompQueue

fun drop_handle :: "'w libc \<Rightarrow> 'w libxdp \<Rightarrow> 'w socket_store \<Rightarrow> handle \<Rightarrow> 'w socket_store" where
  "drop_handle L X st (UmemH u) = Umem_drop L X st u"
| "drop_handle L X st (TxH q) = TxQueue_drop L X st q"
| "drop_handle L X st (RxH q) = RxQueue_drop L X st q"
| "drop_handle L X st (FillH q) = FillQueue_drop L X st q"
| "drop_handle L X st (CompH q) = CompQueue_drop L X st q"

text \<open>What a handle holds: a UMEM, or an inner socket.\<close>

fun handle_umem :: "handle \<Rightarrow> Umem multiset" where
  "handle_umem (UmemH u) = {#u#}"
| "handle_umem (FillH q) = {#fq_umem q#}"
| "handle_umem (CompH q) = {#cq_umem q#}"
| "handle_umem _ = {#}"

fun handle_socket :: "handle \<Rightarrow> nat multiset" where
  "handle_socket (TxH q) = {#so_inner (tx_socket q)#}"
| "handle_socket (RxH q) = {#so_inner (rx_socket q)#}"
| "handle_socket _ = {#}"

abbreviation held_umems :: "handle multiset \<Rightarrow> Umem multiset" where
  "held_umems H \<equiv> \<Sum>\<^sub># (image_mset handle_umem H)"

abbreviation held_sockets :: "handle multiset \<Rightarrow> nat multiset" where
  "held_sockets H \<equiv> \<Sum>\<^sub># (image_mset handle_socket H)"

text \<open>The handles a successful socket creation returns.\<close>

fun socket_handles :: "TxQueue \<times> RxQueue \<times> (FillQueue \<times> CompQueue) option \<Rightarrow> handle multiset" where
  "socket_handles (txq, rxq, None) = {#TxH txq, RxH rxq#}"
| "socket_handles (txq, rxq, Some (f, c)) = {#TxH txq, RxH rxq, FillH f, CompH c#}"

section \<open>The steps of a program\<close>

type_synonym 'w program = "'w traced socket_store \<times> handle multiset"

abbreviation calls_made :: "('w traced, 'z) umem_store_scheme \<Rightarrow> foreign_call list" where
  "calls_made st \<equiv> snd (us_world st)"

definition program_start :: "'w \<Rightarrow> 'w program" where
  "program_start w = (\<lparr>us_world = (w, []), us_maps = arena_empty, us_umems = arena_empty,
     ss_sockets = arena_empty\<rparr>, {#})"

inductive program_step :: "bool \<Rightarrow> 'w libc \<Rightarrow> 'w libxdp \<Rightarrow> 'w program \<Rightarrow> 'w program \<Rightarrow> bool"
  for oc L X where
  new_umem: "Umem_new oc (traced_libc L) (traced_libxdp X) st c fc huge = Ret (Inr (u, ds), st') \<Longrightarrow>
    program_step oc L X (st, H) (st', add_mset (UmemH u) H)"
| new_umem_failed: "Umem_new oc (traced_libc L) (traced_libxdp X) st c fc huge = Ret (Inl e, st') \<Longrightarrow>
    program_step oc L X (st, H) (st', H)"
| clone_umem: "UmemH u \<in># H \<Longrightarrow> Umem_clone st u = (u', st') \<Longrightarrow>
    program_step oc L X (st, H) (st', add_mset (UmemH u') H)"
| new_socket: "UmemH u \<in># H \<Longrightarrow>
    Socket_new oc (traced_libc L) (traced_libxdp X) st c u i q = Ret (Inr qs, st') \<Longrightarrow>
    program_step oc L X (st, H) (st', socket_handles qs + H)"
| new_socket_failed: "UmemH u \<in># H \<Longrightarrow>
    Socket_new oc (traced_libc L) (traced_libxdp X) st c u i q = Ret (Inl e, st') \<Longrightarrow>
    program_step oc L X (st, H) (st', H)"
| drop: "program_step oc L X (st, add_mset h H) (drop_handle (traced_libc L) (traced_libxdp X) st h, H)"
| fill: "FillQueue_produce oc (traced_libxdp X) (us_world st) fq ds = Ret (n, fq', w') \<Longrightarrow>
    program_step oc L X (st, add_mset (FillH fq) H) (st\<lparr>us_world := w'\<rparr>, add_mset (FillH fq') H)"
| complete: "CompQueue_consume oc (traced_libxdp X) (us_world st) cq ds = Ret (n, ds', cq', w') \<Longrightarrow>
    program_step oc L X (st, add_mset (CompH cq) H) (st\<lparr>us_world := w'\<rparr>, add_mset (CompH cq') H)"
| transmit: "TxQueue_produce_and_wakeup oc (traced_libc L) (traced_libxdp X) (us_world st) txq ds
      = Ret (res, txq', w') \<Longrightarrow>
    program_step oc L X (st, add_mset (TxH txq) H) (st\<lparr>us_world := w'\<rparr>, add_mset (TxH txq') H)"
| receive: "RxQueue_poll_and_consume oc (traced_libc L) (traced_libxdp X) (us_world st) rxq ds ms
      = Ret (res', ds', rxq', w') \<Longrightarrow>
    program_step oc L X (st, add_mset (RxH rxq) H) (st\<lparr>us_world := w'\<rparr>, add_mset (RxH rxq') H)"

abbreviation program_run :: "bool \<Rightarrow> 'w libc \<Rightarrow> 'w libxdp \<Rightarrow> 'w program \<Rightarrow> 'w program \<Rightarrow> bool" where
  "program_run oc L X \<equiv> (program_step oc L X)\<^sup>*\<^sup>*"

section \<open>The queues acquire and release nothing\<close>

lemma traced_rings [simp]:
  "reserve (traced_libxdp X) wt r nb i
     = (let (c, i', r', w') = reserve X (fst wt) r nb i in (c, i', r', w', snd wt))"
  "fill_addr_set (traced_libxdp X) wt r i a = (fill_addr_set X (fst wt) r i a, snd wt)"
  "tx_desc_get (traced_libxdp X) wt r i = tx_desc_get X (fst wt) r i"
  "tx_desc_set (traced_libxdp X) wt r i d = (tx_desc_set X (fst wt) r i d, snd wt)"
  "submit (traced_libxdp X) wt r nb = (let (r', w') = submit X (fst wt) r nb in (r', w', snd wt))"
  "peek (traced_libxdp X) wt rc nb i
     = (let (c, i', r', w') = peek X (fst wt) rc nb i in (c, i', r', w', snd wt))"
  "release (traced_libxdp X) wt rc nb = (let (r', w') = release X (fst wt) rc nb in (r', w', snd wt))"
  "poll (traced_libc L) wt p n ms = (let (r, p', w') = poll L (fst wt) p n ms in (r, p', w', snd wt))"
  "sendto (traced_libc L) wt fd b m f a al
     = (let (r, w') = sendto L (fst wt) fd b m f a al in (r, w', snd wt))"
  by (cases wt, simp add: traced_libxdp_def traced_libc_def)+

lemma fill_loop_traced:
  "FillQueue_produce_loop oc (traced_libxdp X) wt r idx ds = Ret wt' \<Longrightarrow> snd wt' = snd wt"
  by (induction ds arbitrary: wt idx) (fastforce simp: rbind_Ret_iff)+

lemma tx_loop_traced:
  "TxQueue_produce_loop oc (traced_libxdp X) wt r idx ds = Ret wt' \<Longrightarrow> snd wt' = snd wt"
  by (induction ds arbitrary: wt idx) (fastforce simp: rbind_Ret_iff)+

lemma FillQueue_produce_traced:
  "FillQueue_produce oc (traced_libxdp X) wt q ds = Ret (n, q', wt') \<Longrightarrow>
   snd wt' = snd wt \<and> fq_umem q' = fq_umem q"
  by (auto simp: FillQueue_produce_def Let_def rbind_Ret_iff dest!: fill_loop_traced
    split: prod.splits if_splits)

lemma CompQueue_consume_traced:
  "CompQueue_consume oc (traced_libxdp X) wt q ds = Ret (n, ds', q', wt') \<Longrightarrow>
   snd wt' = snd wt \<and> cq_umem q' = cq_umem q"
  by (auto simp: CompQueue_consume_def Let_def rbind_Ret_iff split: prod.splits if_splits)

lemma TxQueue_produce_traced:
  "TxQueue_produce oc (traced_libxdp X) wt q ds = Ret (n, q', wt') \<Longrightarrow>
   snd wt' = snd wt \<and> tx_socket q' = tx_socket q"
  by (auto simp: TxQueue_produce_def Let_def rbind_Ret_iff dest!: tx_loop_traced
    split: prod.splits if_splits)

lemma TxQueue_produce_and_wakeup_traced:
  assumes "TxQueue_produce_and_wakeup oc (traced_libc L) (traced_libxdp X) wt q ds = Ret (res, q', wt')"
  shows "snd wt' = snd wt \<and> tx_socket q' = tx_socket q"
proof -
  from assms obtain n q1 wt1 where p: "TxQueue_produce oc (traced_libxdp X) wt q ds = Ret (n, q1, wt1)"
    and a: "TxQueue_wakeup_after (traced_libc L) (traced_libxdp X) wt1 q1 n = (res, q', wt')"
    by (auto simp: TxQueue_produce_and_wakeup_def rbind_Ret_iff)
  from a have "snd wt' = snd wt1 \<and> tx_socket q' = tx_socket q1"
    by (auto simp: TxQueue_wakeup_after_def TxQueue_wakeup_def Let_def split: prod.splits if_splits sum.splits)
  with TxQueue_produce_traced [OF p] show ?thesis by simp
qed

lemma RxQueue_consume_traced:
  "RxQueue_consume oc (traced_libxdp X) wt q ds = Ret (n, ds', q', wt') \<Longrightarrow>
   snd wt' = snd wt \<and> rx_socket q' = rx_socket q"
  by (auto simp: RxQueue_consume_def Let_def rbind_Ret_iff split: prod.splits if_splits)

lemma RxQueue_poll_traced:
  "RxQueue_poll (traced_libc L) wt q ms = (res, q', wt') \<Longrightarrow>
   snd wt' = snd wt \<and> so_inner (rx_socket q') = so_inner (rx_socket q)"
  by (auto simp: RxQueue_poll_def Fd_poll_read_def PollFd_poll_def Let_def split: prod.splits if_splits)

lemma RxQueue_poll_and_consume_traced:
  "RxQueue_poll_and_consume oc (traced_libc L) (traced_libxdp X) wt q ds ms = Ret (res, ds', q', wt') \<Longrightarrow>
   snd wt' = snd wt \<and> so_inner (rx_socket q') = so_inner (rx_socket q)"
  by (auto simp: RxQueue_poll_and_consume_def rbind_Ret_iff dest!: RxQueue_poll_traced RxQueue_consume_traced
    split: prod.splits sum.splits bool.splits)

section \<open>The store against the handles\<close>

definition store_ok :: "('w traced, 'z) socket_store_scheme \<Rightarrow> Umem multiset \<Rightarrow> nat multiset \<Rightarrow> bool" where
  "store_ok st U S \<longleftrightarrow> ordered_trace no_resources (calls_made st)
     \<and> invariant (us_maps st) (us_umems st) (ss_sockets st) U S (opens no_resources (calls_made st))"

text \<open>One more stretch of calls.\<close>

lemma store_okI:
  assumes "store_ok st0 U0 S0" and "calls_made st = calls_made st0 @ cs"
    and "ordered_trace (opens no_resources (calls_made st0)) cs"
    and "invariant (us_maps st) (us_umems st) (ss_sockets st) U S
      (opens (opens no_resources (calls_made st0)) cs)"
  shows "store_ok st U S"
  using assms by (simp add: store_ok_def)

lemma store_okD:
  "store_ok st U S \<Longrightarrow>
   invariant (us_maps st) (us_umems st) (ss_sockets st) U S (opens no_resources (calls_made st))"
  by (simp add: store_ok_def)

lemma Umem_drop_traced:
  assumes "us_world st = (w, t)" and "arc_drop (us_umems st) (um_inner x) = (v, u')"
    and "arc_drop (us_maps st) (rg_mmap (um_mem x)) = (vm, m')"
  shows "\<exists>w'. Umem_drop (traced_libc L) (traced_libxdp X) st x = st\<lparr>us_umems := u',
    us_world := (w', t @ (case v of None \<Rightarrow> [] | Some ui \<Rightarrow> [UmemDeleteCall (umem_ptr ui)])
      @ (case vm of None \<Rightarrow> [] | Some mm \<Rightarrow> [MunmapCall (mm_addr mm) (mm_len mm)])),
    us_maps := m'\<rparr>"
proof -
  have ptr: "ui_ptr ui = XskUmem (umem_ptr ui)" for ui
    by (cases "ui_ptr ui") (simp add: umem_ptr_def)
  show ?thesis
    using assms by (cases v; cases vm) (auto simp: Umem_drop_def drop_xsk_umem_def drop_region_def
      UmemRegion_drop_def Mmap_drop_def Let_def ptr split: prod.splits)
qed

lemma Umem_drop_ok:
  assumes ok: "store_ok st (add_mset x U) S"
  shows "store_ok (Umem_drop (traced_libc L) (traced_libxdp X) st x) U S"
proof -
  obtain w t where world: "us_world st = (w, t)" by (rule prod.exhaust)
  obtain v u' where u: "arc_drop (us_umems st) (um_inner x) = (v, u')" by (rule prod.exhaust)
  obtain vm m' where m: "arc_drop (us_maps st) (rg_mmap (um_mem x)) = (vm, m')" by (rule prod.exhaust)
  note inv = store_okD [OF ok]
  note drop = Umem_drop_traced [OF world u m, of L X]
  consider (some) "v = None" "vm = None" | (last) ui mm where "v = Some ui" "vm = Some mm"
    using inv_drop_together(3) [OF inv u m] by auto
  then show ?thesis
  proof cases
    case some
    then have "invariant m' u' (ss_sockets st) U S (opens no_resources t)"
      using inv_drop_some [OF inv] u m world by simp
    with drop some world show ?thesis
      by (auto intro!: store_okI [OF ok, of _ "[]"])
  next
    case last
    let ?cs = "[UmemDeleteCall (umem_ptr ui), MunmapCall (mm_addr mm) (mm_len mm)]"
    have "invariant m' u' (ss_sockets st) U S (opens (opens no_resources t) ?cs)"
      "ordered_trace (opens no_resources t) ?cs"
      using inv_drop_last [OF inv] inv_drop_ordered [OF inv] u m world last by simp_all
    with drop last world show ?thesis
      by (auto intro!: store_okI [OF ok, of _ ?cs] simp del: ordered_trace.simps foldl_Cons foldl_Nil)
  qed
qed

lemma Socket_drop_ok:
  assumes ok: "store_ok st U (add_mset (so_inner k) S)"
  shows "store_ok (Socket_drop (traced_libc L) (traced_libxdp X) st k) U S"
proof -
  obtain w t where world: "us_world st = (w, t)" by (rule prod.exhaust)
  obtain v s' where s: "arc_drop (ss_sockets st) (so_inner k) = (v, s')" by (rule prod.exhaust)
  note inv = store_okD [OF ok]
  show ?thesis
  proof (cases v)
    case None
    then have "invariant (us_maps st) (us_umems st) s' U S (opens no_resources t)"
      using inv_socket_drop_some [OF inv] s world by simp
    then show ?thesis
      using None world by (auto simp: Socket_drop_def s intro!: store_okI [OF ok, of _ "[]"])
  next
    case (Some si)
    define p where "p = sock_ptr si"
    have ptr: "si_ptr si = XskSocket p" by (cases "si_ptr si") (simp add: sock_ptr_def p_def)
    let ?st = "st\<lparr>ss_sockets := s', us_world := (socket_delete X w p, t @ [SocketDeleteCall p])\<rparr>"
    have "invariant (us_maps st) (us_umems st) s' (add_mset (si_umem si) U) S
        (opens (opens no_resources t) [SocketDeleteCall p])"
      "ordered_trace (opens no_resources t) [SocketDeleteCall p]"
      using inv_socket_drop_last [OF inv] inv_socket_drop_ordered [OF inv] s world Some
      by (simp_all add: p_def)
    then have "store_ok ?st (add_mset (si_umem si) U) S"
      using world by (intro store_okI [OF ok, of _ "[SocketDeleteCall p]"]) simp_all
    then show ?thesis
      using Some world by (simp add: Socket_drop_def s SocketInner_drop_def ptr Umem_drop_ok)
  qed
qed

lemma drop_handle_ok:
  assumes "store_ok st (held_umems (add_mset h H)) (held_sockets (add_mset h H))"
  shows "store_ok (drop_handle (traced_libc L) (traced_libxdp X) st h) (held_umems H) (held_sockets H)"
  using assms by (cases h) (auto simp: TxQueue_drop_def RxQueue_drop_def FillQueue_drop_def
    CompQueue_drop_def Umem_drop_ok Socket_drop_ok)

section \<open>Creations keep the store in order\<close>

lemma Umem_new_ok:
  assumes ok: "store_ok st U S" and fresh: "fresh_trace no_resources (calls_made st')"
    and run: "Umem_new oc (traced_libc L) (traced_libxdp X) st c fc huge = Ret (res, st')"
  shows "store_ok st' (case res of Inl e \<Rightarrow> U | Inr (u, ds) \<Rightarrow> add_mset u U) S"
proof -
  obtain w t where world: "us_world st = (w, t)" by (rule prod.exhaust)
  define r where "r = opens no_resources t"
  have inv: "invariant (us_maps st) (us_umems st) (ss_sockets st) U S r"
    using store_okD [OF ok] world by (simp add: r_def)
  note traced = Umem_new_traced [OF inv_wf(1) [OF inv] world run]
  show ?thesis
  proof (cases res)
    case (Inl e)
    with traced obtain w' calls maps' where st': "st' = st\<lparr>us_world := (w', t @ calls), us_maps := maps'\<rparr>"
      and b: "balanced calls" and maps: "cells maps' = cells (us_maps st)" "next_cell (us_maps st) \<le> next_cell maps'"
      by auto
    have "ordered_trace r calls \<and> opens r calls = r"
      using balanced_ordered [OF b _ invariant_linked [OF inv]] fresh by (simp add: st' r_def)
    then show ?thesis
      using Inl inv_cong [OF inv maps refl order_refl] world
      by (intro store_okI [OF ok, of _ calls]) (simp_all add: st' r_def)
  next
    case (Inr ud)
    obtain u ds where ud: "ud = (u, ds)" by (rule prod.exhaust)
    let ?a = "rg_addr (um_mem u)" and ?n = "rg_len (um_mem u)"
    from traced Inr ud obtain p saved w' where st': "st' = st\<lparr>
          us_world := (w', t @ [MmapCall ?a ?n, UmemCreateCall p ?a]),
          us_maps := snd (arc_new (us_maps st) \<lparr>mm_addr = ?a, mm_len = ?n\<rparr>),
          us_umems := snd (arc_new (us_umems st) (UmemInner_new (XskUmem p) saved))\<rparr>"
      and u: "um_inner u = next_cell (us_umems st)" "rg_mmap (um_mem u) = next_cell (us_maps st)"
      by auto
    let ?cs = "[MmapCall ?a ?n, UmemCreateCall p ?a]"
    have fr: "op_maps r ?a = None" "op_umems r p = None"
      using fresh by (simp_all add: st' r_def)
    have inv': "invariant (us_maps st') (us_umems st') (ss_sockets st') (add_mset u U) S (opens r ?cs)"
      using inv_new [OF inv u refl _ fr, of "UmemInner_new (XskUmem p) saved" ?n]
      by (simp add: st' umem_ptr_def UmemInner_new_def)
    have "ordered_trace r ?cs"
      using invariant_linked [OF inv] invariant_linked [OF inv'] by (auto simp: linked_def)
    then show ?thesis
      using Inr ud inv' world by (intro store_okI [OF ok, of _ ?cs]) (simp_all add: st' r_def)
  qed
qed

lemma Umem_clone_ok:
  assumes "store_ok st U S" and "u \<in># U"
  shows "store_ok (snd (Umem_clone st u)) (add_mset u U) S"
  using assms inv_clone [of "us_maps st" "us_umems st" "ss_sockets st" U S "opens no_resources (calls_made st)" u]
  by (simp add: store_ok_def Umem_clone_eq)

lemma socket_created_linked:
  assumes "invariant m u s U S r" and "arc_get u i = Some ui"
  shows "linked (after r (SocketCreateCall p (umem_ptr ui)))"
proof -
  have "umem_ptr ui \<in> dom (op_umems r)"
    using inv_registered(2) [OF assms(1)] assms(2) by (auto simp: registered_def ran_def)
  then show ?thesis
    using invariant_linked [OF assms(1)] by (auto simp: linked_def ran_def split: if_splits)
qed

text \<open>A socket opened with two handles on it.\<close>

lemma socket_shared_ok:
  assumes ok: "store_ok st U S" and u: "u \<in># U" and ui: "arc_get (us_umems st) (um_inner u) = Some ui"
    and fr: "op_socks (opens no_resources (calls_made st)) p = None"
    and w: "snd wt = calls_made st @ [SocketCreateCall p (umem_ptr ui)]"
  shows "store_ok (socket_shared (queues_taken st u ui wt) u (XskSocket p)) U
    (add_mset (next_cell (ss_sockets st)) (add_mset (next_cell (ss_sockets st)) S))"
proof -
  let ?i = "um_inner u" and ?s = "ss_sockets st" and ?si = "SocketInner_new (XskSocket p) u"
  let ?ui = "ui\<lparr>ui_saved_fq_and_cq := None\<rparr>"
  let ?u = "arc_clone (arc_set (us_umems st) ?i ?ui) ?i" and ?m = "arc_clone (us_maps st) (rg_mmap (um_mem u))"
  let ?r = "opens no_resources (calls_made st)" and ?c = "SocketCreateCall p (umem_ptr ui)"
  have ptr: "umem_ptr ?ui = umem_ptr ui" by (simp add: umem_ptr_def)
  have get: "arc_get ?u ?i = Some ?ui" using get_set [OF ui] by (simp add: get_clone)
  have shared: "arc_clone (snd (arc_new ?s ?si)) (next_cell ?s)
      = \<lparr>next_cell = Suc (next_cell ?s), cells = (cells ?s)(next_cell ?s \<mapsto> (2, ?si))\<rparr>"
    by (simp add: arc_new_def arc_clone_def numeral_2_eq_2)
  have "invariant ?m ?u ?s (add_mset u U) S ?r"
    using inv_clone [OF inv_set [OF store_okD [OF ok] ui ptr]] u by simp
  from inv_open [OF this _ _ get fr, of ?si]
  have "invariant ?m ?u (snd (arc_new ?s ?si)) U (add_mset (next_cell ?s) S) (after ?r ?c)"
    by (simp add: SocketInner_new_def sock_ptr_def ptr)
  from inv_socket_clone [OF this, of "next_cell ?s"]
  have inv: "invariant ?m ?u (arc_clone (snd (arc_new ?s ?si)) (next_cell ?s)) U
      (add_mset (next_cell ?s) (add_mset (next_cell ?s) S)) (after ?r ?c)" by simp
  have "linked (after ?r ?c)" by (rule socket_created_linked [OF store_okD [OF ok] ui])
  with inv w show ?thesis
    by (intro store_okI [OF ok, of _ "[?c]"]) (simp_all add: socket_shared_def queues_taken_def shared)
qed

lemma umem_held_live:
  assumes ok: "store_ok st U S" and u: "u \<in># U"
  shows "umem_live st u"
proof -
  note inv = store_okD [OF ok]
  have "u \<in># holders (ss_sockets st) U" using u by simp
  from inv_cells [OF inv this] inv_wf [OF inv] show ?thesis
    unfolding umem_live_def using count_get by (metis arc_get_def option.map_disc_iff)
qed

text \<open>The three ways a socket creation ends, with the calls it made.\<close>

lemma Socket_new_ends:
  assumes ok: "store_ok st U S" and u: "u \<in># U"
    and run: "Socket_new oc (traced_libc L) (traced_libxdp X) st c u i q = Ret (res, st')"
  obtains
    (none) e ui wt where "res = Inl e" "arc_get (us_umems st) (um_inner u) = Some ui"
      "st' = queues_taken st u ui wt" "snd wt = calls_made st"
  | (closed) e ui wt p where "res = Inl e" "arc_get (us_umems st) (um_inner u) = Some ui"
      "calls_made st' = calls_made st @ [SocketCreateCall p (umem_ptr ui), SocketDeleteCall p]"
      "us_maps st' = us_maps st" "us_umems st' = us_umems (queues_taken st u ui wt)"
      "cells (ss_sockets st') = cells (ss_sockets st)" "next_cell (ss_sockets st) \<le> next_cell (ss_sockets st')"
  | (opened) ui wt p s1 tx rx fq cq where "arc_get (us_umems st) (um_inner u) = Some ui"
      "so_inner s1 = next_cell (ss_sockets st)"
      "snd wt = calls_made st @ [SocketCreateCall p (umem_ptr ui)]" "us_world st' = wt"
      "res = Inr (TxQueue_new tx s1, RxQueue_new rx s1,
        if XskRingProd_is_ring_null fq then None else Some (FillQueue_new fq u, CompQueue_new cq u))"
      "st' = (let st2 = socket_shared (queues_taken st u ui wt) u (XskSocket p)
        in if XskRingProd_is_ring_null fq then st2 else snd (Umem_clone (snd (Umem_clone st2 u)) u))"
proof -
  obtain w t where world: "us_world st = (w, t)" by (rule prod.exhaust)
  note live = umem_held_live [OF ok u] and inv = store_okD [OF ok]
  obtain ui where ui: "arc_get (us_umems st) (um_inner u) = Some ui" using umem_live_get [OF live] ..
  have ptr: "XskUmem_as_mut_ptr (ui_ptr ui) = umem_ptr ui" by (simp add: umem_ptr_def)
  obtain err p rx tx fq cq saved wt where sc: "Socket_create (traced_libxdp X) c i q (us_world st)
      (XskUmem_as_mut_ptr (ui_ptr ui)) (ui_saved_fq_and_cq ui) = ((err, p, rx, tx, fq, cq), saved, wt)"
    by (metis prod.exhaust)
  have wt: "snd wt = t @ (if err = 0 \<and> p \<noteq> 0 then [SocketCreateCall p (umem_ptr ui)] else [])"
    using Socket_create_traced [OF sc [unfolded world]] ptr by simp
  have closing: "snd (XskSocket_drop (traced_libxdp X) wt (XskSocket p)) = snd wt @ [SocketDeleteCall p]"
    by (cases wt) simp
  from Socket_new_outcome [OF live inv_wf(3) [OF inv] ui sc run] show ?thesis
  proof (elim disjE conjE exE, goal_cases)
    case (1 e)
    then show ?case using none [of e ui wt] ui wt world by simp
  next
    case (2 e)
    then show ?case using closed [of e ui p wt] ui wt world closing by simp
  next
    case (3 s1 n)
    then show ?case using opened [of ui s1 wt p tx rx fq cq] ui wt world by simp
  qed
qed

lemma Socket_new_ok:
  assumes ok: "store_ok st U S" and u: "u \<in># U" and fresh: "fresh_trace no_resources (calls_made st')"
    and run: "Socket_new oc (traced_libc L) (traced_libxdp X) st c u i q = Ret (res, st')"
  shows "case res of Inl e \<Rightarrow> store_ok st' U S
    | Inr qs \<Rightarrow> store_ok st' (held_umems (socket_handles qs) + U) (held_sockets (socket_handles qs) + S)"
proof -
  let ?r = "opens no_resources (calls_made st)"
  note inv = store_okD [OF ok]
  have taken: "invariant (us_maps st) (us_umems (queues_taken st u ui wt)) (ss_sockets st) U S ?r"
    if "arc_get (us_umems st) (um_inner u) = Some ui" for ui wt
    using inv_set [OF inv that, of "ui\<lparr>ui_saved_fq_and_cq := None\<rparr>"]
    by (simp add: queues_taken_def umem_ptr_def)
  show ?thesis
    using ok u run
  proof (cases rule: Socket_new_ends)
    case (none e ui wt)
    with taken show ?thesis
      by (auto intro!: store_okI [OF ok, of _ "[]"] simp: queues_taken_def)
  next
    case (closed e ui wt p)
    let ?c = "SocketCreateCall p (umem_ptr ui)"
    let ?cs = "[?c, SocketDeleteCall p]"
    have fr: "op_socks ?r p = None" using fresh closed(3) by simp
    have "linked ?r" "linked (after ?r ?c)"
      by (rule invariant_linked [OF inv], rule socket_created_linked [OF inv closed(2)])
    moreover have undone: "opens ?r ?cs = ?r"
      using fr by (simp add: fun_upd_idem)
    ultimately have "ordered_trace ?r ?cs" by simp
    with inv_cong [OF taken [OF closed(2), of wt] refl order_refl closed(6,7)] closed(1-5) undone show ?thesis
      by (auto intro!: store_okI [OF ok, of _ ?cs] simp del: ordered_trace.simps foldl_Cons foldl_Nil)
  next
    case (opened ui wt p s1 tx rx fq cq)
    let ?k = "next_cell (ss_sockets st)" and ?st2 = "socket_shared (queues_taken st u ui wt) u (XskSocket p)"
    have "op_socks ?r p = None"
      using fresh opened(3,4) by simp
    then have one: "store_ok ?st2 U (add_mset ?k (add_mset ?k S))"
      using socket_shared_ok [OF ok u opened(1)] opened(3) by simp
    have "store_ok (snd (Umem_clone (snd (Umem_clone ?st2 u)) u)) (add_mset u (add_mset u U))
        (add_mset ?k (add_mset ?k S))"
      by (intro Umem_clone_ok one) (simp_all add: u)
    with one show ?thesis
      using opened(2,5,6) by (auto simp: Let_def TxQueue_new_def RxQueue_new_def FillQueue_new_def
        CompQueue_new_def)
  qed
qed

section \<open>Every reachable state\<close>

definition program_ok :: "'w program \<Rightarrow> bool" where
  "program_ok p \<longleftrightarrow> store_ok (fst p) (held_umems (snd p)) (held_sockets (snd p))"

inductive_cases program_stepE: "program_step oc L X (st, H) (st', H')"

lemma held_member: "UmemH u \<in># H \<Longrightarrow> u \<in># held_umems H"
  by (metis handle_umem.simps(1) image_eqI in_Union_mset_iff set_image_mset multi_member_last)

lemma store_ok_world: "store_ok st U S \<Longrightarrow> snd w = calls_made st \<Longrightarrow> store_ok (st\<lparr>us_world := w\<rparr>) U S"
  by (simp add: store_ok_def)

lemma program_start_ok: "program_ok (program_start w)"
  by (simp add: program_ok_def program_start_def store_ok_def invariant_def counted_def paired_def
    registered_def live_def arena_empty_def wf_arena_def arc_count_def arc_get_def no_resources_def ran_def)

lemma program_step_ok:
  assumes "program_step oc L X p p'" and "program_ok p"
    and "fresh_trace no_resources (calls_made (fst p'))"
  shows "program_ok p'"
  using assms
proof (induction rule: program_step.induct)
  case (new_umem st c fc huge u ds st' H)
  then show ?case using Umem_new_ok [of st _ _ st'] by (fastforce simp: program_ok_def)
next
  case (new_umem_failed st c fc huge e st' H)
  then show ?case using Umem_new_ok [of st _ _ st'] by (fastforce simp: program_ok_def)
next
  case (clone_umem u H st u' st')
  then show ?case using Umem_clone_ok [OF _ held_member, of st H]
    by (auto simp: program_ok_def Umem_clone_eq)
next
  case (new_socket u H st c i q qs st')
  then show ?case using Socket_new_ok [OF _ held_member new_socket.prems(2) [simplified] new_socket.hyps(2)]
    by (simp add: program_ok_def)
next
  case (new_socket_failed u H st c i q e st')
  then show ?case
    using Socket_new_ok [OF _ held_member new_socket_failed.prems(2) [simplified] new_socket_failed.hyps(2)]
    by (simp add: program_ok_def)
next
  case (drop st h H)
  then show ?case using drop_handle_ok by (simp add: program_ok_def)
next
  case (fill st fq ds n fq' w' H)
  then show ?case using FillQueue_produce_traced [OF fill.hyps] by (simp add: program_ok_def store_ok_world)
next
  case (complete st cq ds n ds' cq' w' H)
  then show ?case using CompQueue_consume_traced [OF complete.hyps] by (simp add: program_ok_def store_ok_world)
next
  case (transmit st txq ds res txq' w' H)
  then show ?case
    using TxQueue_produce_and_wakeup_traced [OF transmit.hyps] by (simp add: program_ok_def store_ok_world)
next
  case (receive st rxq ds ms res' ds' rxq' w' H)
  then show ?case
    using RxQueue_poll_and_consume_traced [OF receive.hyps] by (simp add: program_ok_def store_ok_world)
qed

text \<open>The trace only grows, so what is fresh at the end was fresh all along.\<close>

abbreviation grows :: "('w traced, 'z) umem_store_scheme \<Rightarrow> ('w traced, 'z) umem_store_scheme \<Rightarrow> bool" where
  "grows st st' \<equiv> prefix (calls_made st) (calls_made st')"

lemma Umem_drop_grows: "grows st (Umem_drop (traced_libc L) (traced_libxdp X) st u)"
proof -
  obtain w t where world: "us_world st = (w, t)" by (rule prod.exhaust)
  obtain v u' where u: "arc_drop (us_umems st) (um_inner u) = (v, u')" by (rule prod.exhaust)
  obtain vm m' where m: "arc_drop (us_maps st) (rg_mmap (um_mem u)) = (vm, m')" by (rule prod.exhaust)
  from Umem_drop_traced [OF world u m, of L X] world show ?thesis by auto
qed

lemma XskSocket_drop_grows: "prefix (snd wt) (snd (XskSocket_drop (traced_libxdp X) wt p))"
  by (cases wt; cases p) simp

lemma Socket_drop_grows: "grows st (Socket_drop (traced_libc L) (traced_libxdp X) st k)"
proof -
  obtain v s' where s: "arc_drop (ss_sockets st) (so_inner k) = (v, s')" by (rule prod.exhaust)
  show ?thesis
  proof (cases v)
    case None
    then show ?thesis by (simp add: Socket_drop_def s)
  next
    case (Some si)
    let ?w = "XskSocket_drop (traced_libxdp X) (us_world st) (si_ptr si)"
    have "grows (st\<lparr>ss_sockets := s', us_world := ?w\<rparr>)
        (Socket_drop (traced_libc L) (traced_libxdp X) st k)"
      using Umem_drop_grows [of "st\<lparr>ss_sockets := s', us_world := ?w\<rparr>"] Some
      by (simp add: Socket_drop_def s SocketInner_drop_def)
    then show ?thesis
      using prefix_order.trans [OF XskSocket_drop_grows [of "us_world st" X "si_ptr si"]] by simp
  qed
qed

lemma Umem_new_grows:
  assumes run: "Umem_new oc (traced_libc L) (traced_libxdp X) st c fc huge = Ret (res, st')"
  shows "grows st st'"
proof -
  let ?L = "traced_libc L" and ?X = "traced_libxdp X"
  obtain w t where world: "us_world st = (w, t)" by (rule prod.exhaust)
  from run obtain l rres maps wt where l: "FrameLayout_from oc ?X c = Ret l"
    and r: "UmemRegion_new oc ?L (us_world st) (us_maps st) fc l huge = Ret (rres, maps, wt)"
    by (auto simp: Umem_new_def rbind_Ret_iff world)
  have region: "prefix t (snd wt)"
    using UmemRegion_new_traced [OF r [unfolded world]] by (auto split: sum.splits)
  have dr: "grows st1 (drop_region ?L st1 m)" for st1 m
    by (cases "us_world st1") (auto simp: drop_region_def UmemRegion_drop_def Mmap_drop_def Let_def
      split: prod.splits option.splits)
  have dx: "grows st1 (drop_xsk_umem ?X st1 p)" for st1 p
    by (cases "us_world st1"; cases p) (auto simp: drop_xsk_umem_def Let_def split: prod.splits)
  show ?thesis
  proof (cases rres)
    case (Inl e)
    with run have "us_world st' = wt" by (auto simp: Umem_new_def l r)
    with region world show ?thesis by simp
  next
    case (Inr mem)
    obtain err p fq cq w' where uc: "umem_create ?X wt 0 (UmemRegion_as_ptr mem) (UmemRegion_len mem)
        (XskRingProd_as_mut default) (XskRingCons_as_mut default) (UmemConfig_into_xsk c)
      = (err, p, fq, cq, w')" by (rule prod_cases5)
    then have "prefix (snd wt) (snd w')" by (cases wt) (auto simp: Let_def split: prod.splits if_splits)
    with region have w': "prefix t (snd w')" by (rule prefix_order.trans)
    obtain i umems where au: "arc_new (us_umems st)
        (UmemInner_new (XskUmem p) (Some (XskRingProd fq, XskRingCons cq))) = (i, umems)"
      by (rule prod.exhaust)
    let ?st = "st\<lparr>us_world := w', us_maps := maps\<rparr>"
    have "grows st (drop_region ?L ?st mem)" "grows st (drop_region ?L (drop_xsk_umem ?X ?st (XskUmem p)) mem)"
      using w' world dr [of ?st mem] dx [of ?st "XskUmem p"] dr [of "drop_xsk_umem ?X ?st (XskUmem p)" mem]
      by (auto intro: prefix_order.trans)
    with Umem_new_outcome [OF l r [unfolded Inr] uc au run] w' world show ?thesis by auto
  qed
qed

lemma Socket_queues_grows:
  assumes run: "Socket_queues oc (traced_libc L) (traced_libxdp X) st u s err rx tx fq cq = Ret (res, st')"
  shows "grows st st'"
proof -
  let ?drop = "Socket_drop (traced_libc L) (traced_libxdp X)"
  obtain s1 st1 where c: "Socket_clone st s = (s1, st1)" by (rule prod.exhaust)
  then have st1: "calls_made st1 = calls_made st" by (auto simp: Socket_clone_def)
  from run have "st' = ?drop st s \<or> st' = ?drop (?drop st1 s1) s \<or> st' = ?drop (?drop st1 s) s1
      \<or> st' = st1 \<or> st' = snd (Umem_clone (snd (Umem_clone st1 u)) u)"
    by (auto simp: Socket_queues_def c Socket_error_def rbind_Ret_iff TxQueue_drop_def RxQueue_drop_def
      TxQueue_new_def RxQueue_new_def Let_def split: if_splits bool.splits prod.splits)
  moreover have "grows st (?drop st s)" "grows st1 (?drop (?drop st1 s1) s)" "grows st1 (?drop (?drop st1 s) s1)"
    by (rule Socket_drop_grows prefix_order.trans [OF Socket_drop_grows Socket_drop_grows])+
  ultimately show ?thesis
    by (elim disjE) (simp_all add: st1 Umem_clone_eq)
qed

lemma Socket_create_grows:
  assumes "Socket_create (traced_libxdp X) c i q wt up saved = (res, saved', wt')"
  shows "prefix (snd wt) (snd wt')"
  using assms by (cases wt) (auto simp: Socket_create_def Let_def split: prod.splits if_splits)

lemma Socket_new_grows:
  assumes run: "Socket_new oc (traced_libc L) (traced_libxdp X) st c u i q = Ret (res, st')"
  shows "grows st st'"
proof -
  let ?L = "traced_libc L" and ?X = "traced_libxdp X"
  from run obtain err p rx tx fq cq st1 where
    s: "with_ptr_and_saved_queues st u (Socket_create ?X c i q) = Ret ((err, p, rx, tx, fq, cq), st1)"
    by (auto simp: Socket_new_def rbind_Ret_iff)
  then have st1: "grows st st1"
    by (auto simp: with_ptr_and_saved_queues_def dest: Socket_create_grows split: option.splits prod.splits)
  obtain k h where an: "arc_new (ss_sockets st1) (SocketInner_new (XskSocket p) u) = (k, h)"
    by (rule prod.exhaust)
  from run consider "st' = st1" | "calls_made st' = snd (XskSocket_drop ?X (us_world st1) (XskSocket p))"
    | "Socket_queues oc ?L ?X (st1\<lparr>us_umems := arc_clone (us_umems st1) (um_inner u),
          us_maps := arc_clone (us_maps st1) (rg_mmap (um_mem u)), ss_sockets := h\<rparr>) u
          \<lparr>so_fd = Fd_new ?L (socket_fd ?X (us_world st1) p), so_inner = k\<rparr> err rx tx fq cq = Ret (res, st')"
    by (auto simp: s an Socket_new_def Socket_error_def rbind_Ret_iff Umem_clone_eq XskSocket_new_def Let_def
      split: if_splits prod.splits)
  then have "grows st1 st'"
  proof cases
    case 2
    then show ?thesis using XskSocket_drop_grows [of "us_world st1" X "XskSocket p"] by simp
  next
    case 3
    then show ?thesis using Socket_queues_grows [OF 3] by simp
  qed simp
  with st1 show ?thesis by (rule prefix_order.trans)
qed

lemma program_step_grows:
  assumes "program_step oc L X p p'"
  shows "grows (fst p) (fst p')"
  using assms
proof (induction rule: program_step.induct)
  case (drop st h H)
  then show ?case using Umem_drop_grows Socket_drop_grows
    by (cases h) (simp_all add: TxQueue_drop_def RxQueue_drop_def FillQueue_drop_def CompQueue_drop_def)
qed (auto simp: Umem_clone_eq dest: Umem_new_grows Socket_new_grows FillQueue_produce_traced
    CompQueue_consume_traced TxQueue_produce_and_wakeup_traced RxQueue_poll_and_consume_traced)

lemma fresh_prefix: "fresh_trace r t \<Longrightarrow> prefix s t \<Longrightarrow> fresh_trace r s"
  by (auto simp: prefix_def)

lemma program_run_ok:
  assumes "program_run oc L X (program_start w) p" and "fresh_trace no_resources (calls_made (fst p))"
  shows "program_ok p"
  using assms
proof (induction rule: rtranclp_induct)
  case base
  show ?case by (rule program_start_ok)
next
  case (step p p')
  have "fresh_trace no_resources (calls_made (fst p))"
    using fresh_prefix [OF step.prems program_step_grows [OF step.hyps(2)]] .
  then show ?case using program_step_ok [OF step.hyps(2) step.IH step.prems] by blast
qed

text \<open>Nothing held, nothing left.\<close>

lemma all_counts_zero: "wf_arena h \<Longrightarrow> (\<And>i. arc_count h i = 0) \<Longrightarrow> cells h = Map.empty"
  by (rule ext) (metis arc_get_def count_get map_option_is_None)

lemma invariant_empty:
  assumes inv: "invariant m u s {#} {#} r"
  shows "cells m = Map.empty \<and> cells u = Map.empty \<and> cells s = Map.empty \<and> r = no_resources"
proof -
  note wf = inv_wf [OF inv]
  have s: "cells s = Map.empty" using inv_sockets [OF inv] by (intro all_counts_zero wf) simp
  then have none: "live si_umem s = {#}" by (simp add: live_def)
  have u: "cells u = Map.empty" using inv_umems [OF inv] by (intro all_counts_zero wf) (simp add: none)
  have m: "cells m = Map.empty" using inv_maps [OF inv] by (intro all_counts_zero wf) (simp add: none)
  have "op_maps r = Map.empty" "op_umems r = Map.empty" "op_socks r = Map.empty"
    using inv_registered [OF inv] s u m by (simp_all add: registered_def arc_get_def [abs_def])
  with s u m show ?thesis by (simp add: no_resources_def)
qed

lemma drop_all_ok:
  assumes "store_ok st (held_umems (mset hs)) (held_sockets (mset hs))"
  shows "store_ok (foldl (drop_handle (traced_libc L) (traced_libxdp X)) st hs) {#} {#}"
  using assms
proof (induction hs arbitrary: st)
  case (Cons h hs)
  then show ?case using drop_handle_ok [of st h "mset hs"] by simp
qed simp

section \<open>What every run of a program satisfies\<close>

text \<open>
  C7: whatever a program does with its handles (creating, failing to create, cloning,
  sending, receiving and dropping in any order), each \<^verbatim>\<open>munmap\<close>, UMEM delete and socket delete
  is of something that is open, so nothing is released twice, and after each call every open
  socket still has its UMEM and every open UMEM its memory: a socket goes before its UMEM and
  a UMEM before its memory. Assumed of the allocators only that they do not hand out what is
  in use.
\<close>

theorem program_releases_in_order:
  assumes "program_run oc L X (program_start w) (st, H)" and "fresh_trace no_resources (calls_made st)"
  shows "ordered_trace no_resources (calls_made st)"
  using program_run_ok [OF assms(1)] assms(2) by (simp add: program_ok_def store_ok_def)

text \<open>
  C8: in every reachable state each handle is valid. A UMEM held directly or by a fill or
  completion queue is open in libxdp, on the memory of its region, which is mapped at the
  length of its map; a transmit or receive queue has its socket open, on an open UMEM. The
  strong count of a socket is the number of queues on it, that of a UMEM and of its memory
  map the number of handles and sockets that hold it.
\<close>

theorem program_handles_valid:
  assumes "program_run oc L X (program_start w) (st, H)" and "fresh_trace no_resources (calls_made st)"
    and "r = opens no_resources (calls_made st)"
  shows "(\<forall>u. u \<in># held_umems H \<longrightarrow> (\<exists>ui n. arc_get (us_umems st) (um_inner u) = Some ui
        \<and> arc_get (us_maps st) (rg_mmap (um_mem u)) = Some \<lparr>mm_addr = rg_addr (um_mem u), mm_len = n\<rparr>
        \<and> op_umems r (umem_ptr ui) = Some (rg_addr (um_mem u)) \<and> op_maps r (rg_addr (um_mem u)) = Some n))
    \<and> (\<forall>k. k \<in># held_sockets H \<longrightarrow> (\<exists>si ui. arc_get (ss_sockets st) k = Some si
        \<and> arc_get (us_umems st) (um_inner (si_umem si)) = Some ui
        \<and> op_socks r (sock_ptr si) = Some (umem_ptr ui) \<and> op_umems r (umem_ptr ui) \<noteq> None))
    \<and> (\<forall>k. arc_count (ss_sockets st) k = count (held_sockets H) k)
    \<and> (\<forall>i. arc_count (us_umems st) i
        = count (image_mset um_inner (held_umems H + live si_umem (ss_sockets st))) i)
    \<and> (\<forall>j. arc_count (us_maps st) j
        = count (image_mset (\<lambda>u. rg_mmap (um_mem u)) (held_umems H + live si_umem (ss_sockets st))) j)"
proof (intro conjI allI impI)
  have "store_ok st (held_umems H) (held_sockets H)"
    using program_run_ok [OF assms(1)] assms(2) by (simp add: program_ok_def)
  then have inv: "invariant (us_maps st) (us_umems st) (ss_sockets st) (held_umems H) (held_sockets H) r"
    by (simp add: store_ok_def assms(3))
  show "\<exists>ui n. arc_get (us_umems st) (um_inner u) = Some ui
      \<and> arc_get (us_maps st) (rg_mmap (um_mem u)) = Some \<lparr>mm_addr = rg_addr (um_mem u), mm_len = n\<rparr>
      \<and> op_umems r (umem_ptr ui) = Some (rg_addr (um_mem u)) \<and> op_maps r (rg_addr (um_mem u)) = Some n"
    if "u \<in># held_umems H" for u
    using inv_backed [OF inv, of u] that by (simp add: umem_backed_def)
  show "\<exists>si ui. arc_get (ss_sockets st) k = Some si \<and> arc_get (us_umems st) (um_inner (si_umem si)) = Some ui
      \<and> op_socks r (sock_ptr si) = Some (umem_ptr ui) \<and> op_umems r (umem_ptr ui) \<noteq> None"
    if k: "k \<in># held_sockets H" for k
  proof -
    obtain si where si: "arc_get (ss_sockets st) k = Some si"
      using inv_socket_cell [OF inv k] by (auto simp: arc_get_def)
    then obtain ui where ui: "arc_get (us_umems st) (um_inner (si_umem si)) = Some ui"
      "op_socks r (sock_ptr si) = Some (umem_ptr ui)"
      using inv_sock_backed [OF inv] unfolding sock_backed_def by blast
    then have "op_umems r (umem_ptr ui) \<noteq> None"
      using inv_registered(2) [OF inv] by (auto simp: registered_def')
    with si ui show ?thesis by blast
  qed
  show "arc_count (ss_sockets st) k = count (held_sockets H) k" for k by (rule inv_sockets [OF inv])
  show "arc_count (us_umems st) i = count (image_mset um_inner (holders (ss_sockets st) (held_umems H))) i" for i
    by (rule inv_umems [OF inv])
  show "arc_count (us_maps st) j
      = count (image_mset (\<lambda>u. rg_mmap (um_mem u)) (holders (ss_sockets st) (held_umems H))) j" for j
    by (rule inv_maps [OF inv])
qed

text \<open>
  C9: from every reachable state, dropping the handles that are left, in any order, releases
  everything: no socket, UMEM or memory map stays open, no cell stays in an arena, and the
  releases on the way are in order.
\<close>

theorem program_drops_release_all:
  assumes "program_run oc L X (program_start w) (st, mset hs)" and "fresh_trace no_resources (calls_made st)"
    and "st' = foldl (drop_handle (traced_libc L) (traced_libxdp X)) st hs"
  shows "opens no_resources (calls_made st') = no_resources \<and> ordered_trace no_resources (calls_made st')
    \<and> cells (us_maps st') = Map.empty \<and> cells (us_umems st') = Map.empty \<and> cells (ss_sockets st') = Map.empty"
proof -
  have "store_ok st (held_umems (mset hs)) (held_sockets (mset hs))"
    using program_run_ok [OF assms(1)] assms(2) by (simp add: program_ok_def)
  then have ok: "store_ok st' {#} {#}" unfolding assms(3) by (rule drop_all_ok)
  with invariant_empty [OF store_okD [OF ok]] show ?thesis by (simp add: store_ok_def)
qed

section \<open>A run\<close>

text \<open>One UMEM and one socket on it, with the fill and completion queues.\<close>

lemma ref_run:
  "\<exists>st u txq rxq fq cq. program_run False ref_libc ref_libxdp (program_start ref_zero)
      (st, {#TxH txq, RxH rxq, FillH fq, CompH cq, UmemH u#})
    \<and> fresh_trace no_resources (calls_made st)"
proof -
  let ?L = "traced_libc ref_libc" and ?X = "traced_libxdp ref_libxdp"
  let ?st = "fst (program_start ref_zero)"
  obtain l where l: "FrameLayout_from False ?X (UmemConfig_default ref_libxdp) = Ret l"
    using ref_layout by blast
  obtain mem maps t where r: "UmemRegion_new False ?L (ref_zero, []) arena_empty 2 l False
      = Ret (Inr mem, maps, ref_zero, t)" using ref_region_new(2) [of ref_zero "[]" arena_empty 2 l False] by blast
  obtain ds where ds: "frame_descs_from False l 0 (unat (ucast (2 :: u32) :: usize)) = Ret ds"
    using frame_descs_release by blast
  define ui where "ui = UmemInner_new (XskUmem 4096) (Some (XskRingProd (ref_prod 100), XskRingCons (ref_cons 200)))"
  define u where "u = \<lparr>um_inner = 0, um_mem = mem\<rparr>"
  define st1 where "st1 = ?st\<lparr>us_world := (ref_zero, t @ [UmemCreateCall 4096 (UmemRegion_as_ptr mem)]),
    us_maps := maps, us_umems := snd (arc_new arena_empty ui)\<rparr>"
  have none: "next_cell arena_empty = 0" by (simp add: arena_empty_def)
  have t: "t = [MmapCall (rg_addr mem) (rg_len mem)]" using UmemRegion_new_traced [OF r] by simp
  have "Umem_new False ?L ?X ?st (UmemConfig_default ref_libxdp) 2 False = Ret (Inr (u, ds), st1)"
    using ds by (simp add: Umem_new_def program_start_def l r ref_prod_def ref_cons_def Let_def
      arc_new_def u_def st1_def ui_def XskUmem_new_def none)
  then have s1: "program_step False ref_libc ref_libxdp (program_start ref_zero) (st1, {#UmemH u#})"
    using new_umem [where H = "{#}" and st = ?st] by (simp add: program_start_def)
  have get: "arc_get (us_umems st1) (um_inner u) = Some ui"
    by (simp add: st1_def u_def arc_get_def arc_new_def arena_empty_def)
  have "\<exists>txq rxq fq cq st2. Socket_new False ?L ?X st1 (SocketConfig_default ref_libxdp) u (Interface [108, 111]) 0
      = Ret (Inr (txq, rxq, Some (fq, cq)), st2) \<and> calls_made st2 = calls_made st1 @ [SocketCreateCall 8192 4096]"
    using get by (simp add: Socket_new_def with_ptr_and_saved_queues_def Socket_create_def ui_def UmemInner_new_def
      Socket_queues_def Umem_clone_eq Socket_clone_def arc_new_def st1_def ref_prod_def ref_cons_def XskSocket_new_def Let_def)
  then obtain txq rxq fq cq st2 where run: "Socket_new False ?L ?X st1 (SocketConfig_default ref_libxdp) u
      (Interface [108, 111]) 0 = Ret (Inr (txq, rxq, Some (fq, cq)), st2)"
    and calls: "calls_made st2 = calls_made st1 @ [SocketCreateCall 8192 4096]" by blast
  have "program_step False ref_libc ref_libxdp (st1, {#UmemH u#})
      (st2, {#TxH txq, RxH rxq, FillH fq, CompH cq, UmemH u#})"
    using new_socket [OF _ run, of "{#UmemH u#}"] by (simp add: add_mset_commute)
  with s1 have "program_run False ref_libc ref_libxdp (program_start ref_zero)
      (st2, {#TxH txq, RxH rxq, FillH fq, CompH cq, UmemH u#})" by (meson r_into_rtranclp rtranclp.rtrancl_into_rtrancl)
  moreover have "fresh_trace no_resources (calls_made st2)"
    by (simp add: calls st1_def t no_resources_def)
  ultimately show ?thesis by blast
qed

theorem program_releases_in_order_witness:
  "\<exists>st H. program_run False ref_libc ref_libxdp (program_start ref_zero) (st, H) \<and> H \<noteq> {#}
    \<and> ordered_trace no_resources (calls_made st)"
proof -
  obtain st u txq rxq fq cq where run: "program_run False ref_libc ref_libxdp (program_start ref_zero)
      (st, {#TxH txq, RxH rxq, FillH fq, CompH cq, UmemH u#})" and fresh: "fresh_trace no_resources (calls_made st)"
    using ref_run by blast
  from program_releases_in_order [OF run fresh] run show ?thesis by (metis add_mset_not_empty)
qed

theorem program_handles_valid_witness:
  "\<exists>st q H. program_run False ref_libc ref_libxdp (program_start ref_zero) (st, add_mset (TxH q) H)
    \<and> (\<exists>si. arc_get (ss_sockets st) (so_inner (tx_socket q)) = Some si
      \<and> op_socks (opens no_resources (calls_made st)) (sock_ptr si) \<noteq> None)"
proof -
  obtain st u txq rxq fq cq where run: "program_run False ref_libc ref_libxdp (program_start ref_zero)
      (st, {#TxH txq, RxH rxq, FillH fq, CompH cq, UmemH u#})" and fresh: "fresh_trace no_resources (calls_made st)"
    using ref_run by blast
  have "so_inner (tx_socket txq) \<in># held_sockets {#TxH txq, RxH rxq, FillH fq, CompH cq, UmemH u#}" by simp
  with program_handles_valid [OF run fresh refl] have "\<exists>si ui. arc_get (ss_sockets st) (so_inner (tx_socket txq)) = Some si
      \<and> op_socks (opens no_resources (calls_made st)) (sock_ptr si) = Some (umem_ptr ui)" by blast
  with run show ?thesis by (metis option.distinct(1))
qed

theorem program_drops_release_all_witness:
  "\<exists>st txq rxq fq cq u. program_run False ref_libc ref_libxdp (program_start ref_zero)
      (st, mset [UmemH u, FillH fq, TxH txq, CompH cq, RxH rxq])
    \<and> opens no_resources (calls_made (foldl (drop_handle (traced_libc ref_libc) (traced_libxdp ref_libxdp)) st
        [UmemH u, FillH fq, TxH txq, CompH cq, RxH rxq])) = no_resources"
proof -
  obtain st u txq rxq fq cq where run: "program_run False ref_libc ref_libxdp (program_start ref_zero)
      (st, {#TxH txq, RxH rxq, FillH fq, CompH cq, UmemH u#})" and fresh: "fresh_trace no_resources (calls_made st)"
    using ref_run by blast
  have "{#TxH txq, RxH rxq, FillH fq, CompH cq, UmemH u#} = mset [UmemH u, FillH fq, TxH txq, CompH cq, RxH rxq]"
    by (simp add: add_mset_commute)
  with run have run': "program_run False ref_libc ref_libxdp (program_start ref_zero)
      (st, mset [UmemH u, FillH fq, TxH txq, CompH cq, RxH rxq])" by metis
  from program_drops_release_all [OF run' fresh refl] run' show ?thesis by blast
qed

end
