(* ===== verification/Xsk_Example.thy ===== *)
theory Xsk_Example
  imports Xsk_Socket
begin

text \<open>
  The example programs (\<^verbatim>\<open>examples/\<close>), the part they share: packet generation, the options
  and configuration of \<^verbatim>\<open>dev1_to_dev2.rs\<close>, the construction of its two sockets, and writing
  packets into frames. The packet library and the random numbers are parameters. The loops
  are in the theories \<open>Xsk_Receiver\<close>, \<open>Xsk_Sender\<close> and \<open>Xsk_Single_Thread\<close>.
\<close>

section \<open>The standard library\<close>

text \<open>\<^verbatim>\<open>unwrap\<close> and \<^verbatim>\<open>expect\<close> on a result and on an option.\<close>

definition unwrap :: "'e + 'a \<Rightarrow> 'a rust" where
  "unwrap r = (case r of Inl _ \<Rightarrow> Panic | Inr a \<Rightarrow> Ret a)"

definition unwrap_option :: "'a option \<Rightarrow> 'a rust" where
  "unwrap_option v = (case v of None \<Rightarrow> Panic | Some a \<Rightarrow> Ret a)"

text \<open>The slice \<^verbatim>\<open>xs[..n]\<close>; a mutable one is stored back over its place.\<close>

definition prefix_slice :: "'a list \<Rightarrow> usize \<Rightarrow> 'a list rust" where
  "prefix_slice xs n = (if unat n \<le> length xs then Ret (take (unat n) xs) else Panic)"

definition prefix_slice_back :: "'a list \<Rightarrow> 'a list \<Rightarrow> 'a list" where
  "prefix_slice_back xs s = s @ drop (length s) xs"

lemma unwrap_Ret_iff [simp]: "unwrap r = Ret a \<longleftrightarrow> r = Inr a"
  by (cases r) (simp_all add: unwrap_def)

lemma prefix_slice_Ret_iff:
  "prefix_slice xs n = Ret ys \<longleftrightarrow> unat n \<le> length xs \<and> ys = take (unat n) xs"
  by (auto simp: prefix_slice_def)

section \<open>Devices and packets\<close>

record LinkIpAddr =
  ip_addr_octets :: "u8 list"
  ip_prefix_len :: u8

record VethDevConfig =
  vd_if_name :: "u8 list"
  vd_addr :: "u8 list"
  vd_ip_addr :: LinkIpAddr

record PacketGenerator =
  pg_src :: VethDevConfig
  pg_dst :: VethDevConfig

definition PacketGenerator_new :: "VethDevConfig \<Rightarrow> VethDevConfig \<Rightarrow> PacketGenerator" where
  "PacketGenerator_new src dst = \<lparr>pg_src = src, pg_dst = dst\<rparr>"

definition PacketGenerator_into_swapped :: "PacketGenerator \<Rightarrow> PacketGenerator" where
  "PacketGenerator_into_swapped g = \<lparr>pg_src = pg_dst g, pg_dst = pg_src g\<rparr>"

text \<open>
  The crates \<^verbatim>\<open>rand\<close> and \<^verbatim>\<open>etherparse\<close>: a random byte, and the bytes of an Ethernet frame
  with the given addresses, time to live, ports and payload, or an error.
\<close>

record 'w packet_lib =
  random_u8 :: "'w \<Rightarrow> u8 \<times> 'w"
  udp_packet :: "u8 list \<Rightarrow> u8 list \<Rightarrow> u8 list \<Rightarrow> u8 list \<Rightarrow> u8 \<Rightarrow> u16 \<Rightarrow> u16 \<Rightarrow> u8 list
    \<Rightarrow> string + u8 list"

fun generate_random_bytes :: "'w packet_lib \<Rightarrow> 'w \<Rightarrow> nat \<Rightarrow> u8 list \<times> 'w" where
  "generate_random_bytes P w 0 = ([], w)"
| "generate_random_bytes P w (Suc n) = (let (b, w1) = random_u8 P w;
     (bs, w2) = generate_random_bytes P w1 n in (b # bs, w2))"

definition PacketGenerator_generate_packet :: "'w packet_lib \<Rightarrow> 'w \<Rightarrow> PacketGenerator \<Rightarrow> u16 \<Rightarrow> u16
    \<Rightarrow> usize \<Rightarrow> (string + u8 list) \<times> 'w" where
  "PacketGenerator_generate_packet P w g src_port dst_port payload_len =
    (let (payload, w') = generate_random_bytes P w (unat payload_len)
     in (udp_packet P (vd_addr (pg_src g)) (vd_addr (pg_dst g))
           (ip_addr_octets (vd_ip_addr (pg_src g))) (ip_addr_octets (vd_ip_addr (pg_dst g)))
           20 src_port dst_port payload, w'))"

section \<open>Options and configuration\<close>

record Xsk =
  xk_umem :: Umem
  xk_fq :: FillQueue
  xk_cq :: CompQueue
  xk_tx_q :: TxQueue
  xk_rx_q :: RxQueue
  xk_descs :: "FrameDesc list"

record XskConfig =
  xc_tx_q_size :: QueueSize
  xc_rx_q_size :: QueueSize
  xc_cq_size :: QueueSize
  xc_fq_size :: QueueSize
  xc_frame_size :: FrameSize
  xc_frame_count :: u32

record Config =
  cf_multithreaded :: bool
  cf_poll_ms_timeout :: i32
  cf_payload_size :: usize
  cf_max_batch_size :: usize
  cf_num_packets_to_send :: usize
  cf_sender :: XskConfig
  cf_receiver :: XskConfig

text \<open>The options of one socket; \<^verbatim>\<open>Opt\<close> has each of them for the sender and the receiver.\<close>

record XskOpt =
  op_fq_size :: u32
  op_cq_size :: u32
  op_tx_q_size :: u32
  op_rx_q_size :: u32
  op_frame_size :: u32

record Opt =
  op_multithreaded :: bool
  op_sender :: XskOpt
  op_receiver :: XskOpt
  op_poll_ms_timeout :: i32
  op_payload_size :: usize
  op_max_batch_size :: usize
  op_num_packets_to_send :: usize

definition Opt_default_values :: Opt where
  "Opt_default_values = (let x = \<lparr>op_fq_size = 8192, op_cq_size = 4096, op_tx_q_size = 4096,
        op_rx_q_size = 4096, op_frame_size = 2048\<rparr>
     in \<lparr>op_multithreaded = False, op_sender = x, op_receiver = x, op_poll_ms_timeout = 100,
        op_payload_size = 32, op_max_batch_size = 64, op_num_packets_to_send = 5000000\<rparr>)"

definition XskConfig_from :: "bool \<Rightarrow> XskOpt \<Rightarrow> XskConfig rust" where
  "XskConfig_from oc opt =
    rbind (unwrap (QueueSize_try_from (op_tx_q_size opt))) (\<lambda>tx.
    rbind (unwrap (QueueSize_try_from (op_rx_q_size opt))) (\<lambda>rx.
    rbind (unwrap (QueueSize_try_from (op_cq_size opt))) (\<lambda>cq.
    rbind (unwrap (QueueSize_try_from (op_fq_size opt))) (\<lambda>fq.
    rbind (add_oc oc (op_fq_size opt) (op_cq_size opt)) (\<lambda>count.
    rbind (unwrap (FrameSize_try_from (op_frame_size opt))) (\<lambda>fs.
      Ret \<lparr>xc_tx_q_size = tx, xc_rx_q_size = rx, xc_cq_size = cq, xc_fq_size = fq,
           xc_frame_size = fs, xc_frame_count = count\<rparr>))))))"

definition Config_from :: "bool \<Rightarrow> Opt \<Rightarrow> Config rust" where
  "Config_from oc opt =
    rbind (XskConfig_from oc (op_sender opt)) (\<lambda>sender.
    rbind (XskConfig_from oc (op_receiver opt)) (\<lambda>receiver.
      Ret \<lparr>cf_multithreaded = op_multithreaded opt, cf_poll_ms_timeout = op_poll_ms_timeout opt,
           cf_payload_size = op_payload_size opt, cf_max_batch_size = op_max_batch_size opt,
           cf_num_packets_to_send = op_num_packets_to_send opt, cf_sender = sender,
           cf_receiver = receiver\<rparr>))"

section \<open>Sockets\<close>

definition build_umem_and_socket_config :: "bool \<Rightarrow> 'w libxdp \<Rightarrow> XskConfig
    \<Rightarrow> (UmemConfig \<times> SocketConfig) rust" where
  "build_umem_and_socket_config oc X config =
    rbind (UmemConfigBuilder_build oc X (UmemConfigBuilder_comp_queue_size
        (UmemConfigBuilder_fill_queue_size (UmemConfigBuilder_frame_size (UmemConfig_builder X)
          (xc_frame_size config)) (xc_fq_size config)) (xc_cq_size config))) (\<lambda>res.
    rbind (unwrap res) (\<lambda>umem_config.
      Ret (umem_config, SocketConfigBuilder_build (SocketConfigBuilder_bind_flags
        (SocketConfigBuilder_tx_queue_size (SocketConfigBuilder_rx_queue_size (SocketConfig_builder X)
          (xc_rx_q_size config)) (xc_tx_q_size config)) XDP_USE_NEED_WAKEUP))))"

text \<open>\<^verbatim>\<open>NonZeroU32\<close> in an argument position: the conversion panics on zero.\<close>

definition nonzero_u32 :: "u32 \<Rightarrow> u32 rust" where
  "nonzero_u32 n = (if n = 0 then Panic else Ret n)"

definition build_socket_and_umem :: "bool \<Rightarrow> 'w libc \<Rightarrow> 'w libxdp \<Rightarrow> ('w, 'z) socket_store_scheme
    \<Rightarrow> UmemConfig \<Rightarrow> SocketConfig \<Rightarrow> u32 \<Rightarrow> Interface \<Rightarrow> u32
    \<Rightarrow> (Xsk \<times> ('w, 'z) socket_store_scheme) rust" where
  "build_socket_and_umem oc L X st umem_config socket_config frame_count if_name queue_id =
    rbind (Umem_new oc L X st umem_config frame_count False) (\<lambda>(r1, st1).
    rbind (unwrap r1) (\<lambda>(umem, frames).
    rbind (Socket_new oc L X st1 socket_config umem if_name queue_id) (\<lambda>(r2, st2).
    rbind (unwrap r2) (\<lambda>(tx_q, rx_q, fq_and_cq).
    rbind (unwrap_option fq_and_cq) (\<lambda>(fq, cq).
      Ret (\<lparr>xk_umem = umem, xk_fq = fq, xk_cq = cq, xk_tx_q = tx_q, xk_rx_q = rx_q,
            xk_descs = frames\<rparr>, st2))))))"

text \<open>\<^verbatim>\<open>run_example\<close> up to the choice of the loop: the two sockets.\<close>

definition run_example_sockets :: "bool \<Rightarrow> 'w libc \<Rightarrow> 'w libxdp \<Rightarrow> ('w, 'z) socket_store_scheme
    \<Rightarrow> Config \<Rightarrow> VethDevConfig \<Rightarrow> VethDevConfig
    \<Rightarrow> (Xsk \<times> Xsk \<times> ('w, 'z) socket_store_scheme) rust" where
  "run_example_sockets oc L X st config dev_tx dev_rx =
    rbind (build_umem_and_socket_config oc X (cf_sender config)) (\<lambda>(umem_config_tx, socket_config_tx).
    rbind (build_umem_and_socket_config oc X (cf_receiver config)) (\<lambda>(umem_config_rx, socket_config_rx).
    rbind (nonzero_u32 (xc_frame_count (cf_sender config))) (\<lambda>count_tx.
    rbind (unwrap (Interface_from_str (vd_if_name dev_tx))) (\<lambda>if_tx.
    rbind (build_socket_and_umem oc L X st umem_config_tx socket_config_tx count_tx if_tx 0)
      (\<lambda>(xsk_tx, st1).
    rbind (nonzero_u32 (xc_frame_count (cf_receiver config))) (\<lambda>count_rx.
    rbind (unwrap (Interface_from_str (vd_if_name dev_rx))) (\<lambda>if_rx.
    rbind (build_socket_and_umem oc L X st1 umem_config_rx socket_config_rx count_rx if_rx 0)
      (\<lambda>(xsk_rx, st2).
      Ret (xsk_tx, xsk_rx, st2)))))))))"

section \<open>Writing packets\<close>

text \<open>One element of the closure \<^verbatim>\<open>pkts\<close>.\<close>

definition next_packet :: "'w packet_lib \<Rightarrow> 'w \<Rightarrow> PacketGenerator \<Rightarrow> usize \<Rightarrow> (u8 list \<times> 'w) rust" where
  "next_packet P w g payload_size =
    (let (r, w') = PacketGenerator_generate_packet P w g 1234 1234 payload_size
     in rbind (unwrap r) (\<lambda>pkt. Ret (pkt, w')))"

text \<open>\<^verbatim>\<open>umem.data_mut(desc).cursor().write_all(&pkt).unwrap()\<close>.\<close>

definition write_packet :: "bool \<Rightarrow> Umem \<Rightarrow> u8 list \<Rightarrow> FrameDesc \<Rightarrow> u8 list
    \<Rightarrow> (u8 list \<times> FrameDesc) rust" where
  "write_packet oc u mem desc pkt =
    rbind (Umem_data_mut u mem desc) (\<lambda>d.
    rbind (Cursor_write_all oc (DataMut_cursor d) pkt) (\<lambda>(r, c).
    rbind (unwrap r) (\<lambda>_. Ret (data_mut_back mem desc (DataMut_cursor_back d c)))))"

text \<open>The loop over a slice of descriptors.\<close>

fun write_packets :: "bool \<Rightarrow> 'w packet_lib \<Rightarrow> PacketGenerator \<Rightarrow> usize \<Rightarrow> Umem \<Rightarrow> 'w \<Rightarrow> u8 list
    \<Rightarrow> FrameDesc list \<Rightarrow> (FrameDesc list \<times> u8 list \<times> 'w) rust" where
  "write_packets oc P g payload_size u w mem [] = Ret ([], mem, w)"
| "write_packets oc P g payload_size u w mem (desc # descs) =
    rbind (next_packet P w g payload_size) (\<lambda>(pkt, w1).
    rbind (write_packet oc u mem desc pkt) (\<lambda>(mem1, desc').
    rbind (write_packets oc P g payload_size u w1 mem1 descs) (\<lambda>(descs', mem2, w2).
      Ret (desc' # descs', mem2, w2))))"

text \<open>A packet changes the length of a descriptor, never its address.\<close>

lemma write_packet_addr: "write_packet oc u mem d pkt = Ret (mem', d') \<Longrightarrow> fd_addr d' = fd_addr d"
  by (auto simp: write_packet_def data_mut_back_def rbind_Ret_iff split: prod.splits)

lemma write_packets_addrs:
  "write_packets oc P g n u w mem ds = Ret (ds', mem', w') \<Longrightarrow> map fd_addr ds' = map fd_addr ds"
  by (induction ds arbitrary: w mem ds' mem' w')
    (fastforce simp: rbind_Ret_iff split: prod.splits dest: write_packet_addr)+

text \<open>Reading a data segment, and borrowing it mutably, for a descriptor of the region.\<close>

lemma Umem_data_view:
  assumes "wf_region (um_mem u) n" and "desc_of (um_mem u) n d i" and "length mem = unat (rg_len (um_mem u))"
  shows "Umem_data u mem d = Ret (Data (seg mem (data_off (rg_layout (um_mem u)) i) (unat (sl_data (fd_lengths d)))))"
    and "Umem_data_mut u mem d = Ret \<lparr>dm_len = sl_data (fd_lengths d),
      dm_buf = seg mem (data_off (rg_layout (um_mem u)) i) (unat (fl_mtu (rg_layout (um_mem u))))\<rparr>"
  using desc_pointers [OF assms(1,2)] assms(2,3)
  by (simp_all add: Umem_data_def Umem_data_mut_def view_defs desc_of_def)

lemma Umem_data_other:
  assumes "wf_region (um_mem u) n" and "length mem = unat (rg_len (um_mem u))" and "i < n"
    and "length b = unat (fl_mtu (rg_layout (um_mem u)))" and e: "desc_of (um_mem u) n e j" "j \<noteq> i"
  shows "Umem_data u (overwrite mem (data_off (rg_layout (um_mem u)) i) b) e = Umem_data u mem e"
proof -
  let ?l = "rg_layout (um_mem u)"
  have len: "length mem = n * frame_bytes ?l" and j: "j < n" "unat (sl_data (fd_lengths e)) \<le> unat (fl_mtu ?l)"
    using assms by (simp_all add: wf_region_def desc_of_def)
  have fit: "data_off ?l i + unat (fl_mtu ?l) \<le> length mem" "data_off ?l j + unat (fl_mtu ?l) \<le> length mem"
    using data_off_end assms(3) j(1) len by simp_all
  have "data_off ?l j + unat (fl_mtu ?l) \<le> data_off ?l i \<or> data_off ?l i + unat (fl_mtu ?l) \<le> data_off ?l j"
    using e(2) frame_separate [of i j ?l] frame_separate [of j i ?l] headroom_off_data_off [of ?l i]
      headroom_off_data_off [of ?l j] by linarith
  with fit j(2) assms(4)
  have "seg (overwrite mem (data_off ?l i) b) (data_off ?l j) (unat (sl_data (fd_lengths e)))
      = seg mem (data_off ?l j) (unat (sl_data (fd_lengths e)))"
    by (intro seg_overwrite_disjoint) auto
  with fit assms(2,4) show ?thesis
    by (simp add: Umem_data_view(1) [OF assms(1) e(1)])
qed

text \<open>The core of the property below.\<close>

lemma write_packet_effect:
  assumes wf: "wf_region (um_mem u) n" "desc_of (um_mem u) n d i" "length mem = unat (rg_len (um_mem u))"
    and pkt: "wf_slice pkt"
    and old: "old = seg mem (data_off (rg_layout (um_mem u)) i) (unat (sl_data (fd_lengths d)))"
  shows "if length old + length pkt \<le> unat (fl_mtu (rg_layout (um_mem u)))
    then \<exists>mem' d'. write_packet oc u mem d pkt = Ret (mem', d')
      \<and> Umem_data u mem' d' = Ret (Data (old @ pkt)) \<and> unat (xd_len (tx_entry d')) = length old + length pkt
      \<and> fd_addr d' = fd_addr d \<and> desc_of (um_mem u) n d' i \<and> length mem' = length mem
      \<and> (\<forall>e j. desc_of (um_mem u) n e j \<and> j \<noteq> i \<longrightarrow> Umem_data u mem' e = Umem_data u mem e)
    else write_packet oc u mem d pkt = Panic"
proof -
  let ?l = "rg_layout (um_mem u)" and ?len = "sl_data (fd_lengths d)"
  let ?b = "seg mem (data_off ?l i) (unat (fl_mtu ?l))"
  let ?dm = "\<lparr>dm_len = ?len, dm_buf = ?b\<rparr>"
  have i: "i < n" "unat ?len \<le> unat (fl_mtu ?l)" using wf(2) by (simp_all add: desc_of_def)
  have fit: "data_off ?l i + unat (fl_mtu ?l) \<le> length mem"
    using data_off_end [OF i(1), of ?l] wf(1,3) by (simp add: wf_region_def)
  have mtu: "unat (fl_mtu ?l) < 2 ^ 32" using wf(1) by (simp add: wf_region_def wf_layout_def frame_bytes_def)
  have b: "length ?b = unat (fl_mtu ?l)" "take (unat ?len) ?b = old" "length old = unat ?len"
    using fit i(2) by (simp_all add: old length_seg_in take_seg del: length_seg)
  then have wfb: "wf_slice (dm_buf ?dm)" "unat (dm_len ?dm) \<le> length (dm_buf ?dm)"
    using mtu i(2) by (simp_all add: wf_slice_def)
  let ?c = "Cursor_after (DataMut_cursor ?dm) pkt"
  note w = Cursor_write_all_eq [OF dseg.cursor_wf [THEN iffD2, OF conjI [OF wfb]] pkt, of oc]
  have space: "Cursor_space (DataMut_cursor ?dm) = unat (fl_mtu ?l) - length old"
    using b by (simp add: Cursor_space_def segment_defs)
  show ?thesis
  proof (cases "length old + length pkt \<le> unat (fl_mtu ?l)")
    case False
    then show ?thesis
      using w space b i by (simp add: write_packet_def Umem_data_view(2) [OF wf] unwrap_def)
  next
    case True
    let ?dm' = "DataMut_cursor_back ?dm ?c"
    define mem' where "mem' = overwrite mem (data_off ?l i) (dm_buf ?dm')"
    define d' where "d' = d\<lparr>fd_lengths := (fd_lengths d)\<lparr>sl_data := dm_len ?dm'\<rparr>\<rparr>"
    have "unat (dm_len ?dm) + length pkt \<le> length (dm_buf ?dm)" using True b by simp
    from dseg.cursor_after_contents [OF wfb this]
    have c: "DataMut_contents ?dm' = Ret (old @ pkt)" "length (dm_buf ?dm') = unat (fl_mtu ?l)"
      using b by simp_all
    from c(1) have c': "take (unat (dm_len ?dm')) (dm_buf ?dm') = old @ pkt" "unat (dm_len ?dm') \<le> length (dm_buf ?dm')"
      by (auto simp: DataMut_contents_def slice_to_def split: if_splits)
    from arg_cong [OF c'(1), of length] c'(2)
    have len: "unat (dm_len ?dm') = length old + length pkt" by (simp add: min_absorb2)
    have mem': "length mem' = length mem" using fit c(2) by (simp add: mem'_def)
    have desc: "desc_of (um_mem u) n d' i" using wf(2) len True by (simp add: desc_of_def d'_def)
    have "seg mem' (data_off ?l i) (unat (dm_len ?dm')) = old @ pkt"
      using fit c(2) c' take_seg [OF c'(2), of mem' "data_off ?l i"]
      by (simp add: mem'_def seg_overwrite_same)
    then have "Umem_data u mem' d' = Ret (Data (old @ pkt))"
      using mem' wf(3) Umem_data_view(1) [OF wf(1) desc, of mem'] by (simp add: d'_def)
    moreover have "write_packet oc u mem d pkt = Ret (mem', d')"
      using True w space b desc_pointers(4) [OF wf(1,2)]
      by (simp add: write_packet_def Umem_data_view(2) [OF wf] unwrap_def data_mut_back_def mem'_def d'_def)
    moreover have "unat (xd_len (tx_entry d')) = length old + length pkt"
      using len True mtu unat_ucast_u64_u32 [of "dm_len ?dm'"] by (simp add: tx_entry_def d'_def)
    moreover have "Umem_data u mem' e = Umem_data u mem e" if "desc_of (um_mem u) n e j" "j \<noteq> i" for e j
      unfolding mem'_def using Umem_data_other [OF wf(1,3) i(1) c(2) that] .
    ultimately show ?thesis using True desc mem' by (auto simp: d'_def)
  qed
qed

text \<open>
  C37: writing a packet into a frame, through the UMEM, the mutable view and the cursor. When
  the packet fits behind the data that is there, the frame then holds the old data followed by
  the packet, the descriptor carries the new length, and no other frame changes; when it does
  not fit, the program panics.
\<close>

theorem write_packet_spec:
  assumes wf: "wf_region (um_mem u) n" "desc_of (um_mem u) n d i" "length mem = unat (rg_len (um_mem u))"
    and pkt: "wf_slice pkt"
    and old: "old = seg mem (data_off (rg_layout (um_mem u)) i) (unat (sl_data (fd_lengths d)))"
  shows "if length old + length pkt \<le> unat (fl_mtu (rg_layout (um_mem u)))
    then \<exists>mem' d'. write_packet oc u mem d pkt = Ret (mem', d')
      \<and> Umem_data u mem' d' = Ret (Data (old @ pkt)) \<and> unat (xd_len (tx_entry d')) = length old + length pkt
      \<and> fd_addr d' = fd_addr d \<and> desc_of (um_mem u) n d' i \<and> length mem' = length mem
      \<and> (\<forall>e j. desc_of (um_mem u) n e j \<and> j \<noteq> i \<longrightarrow> Umem_data u mem' e = Umem_data u mem e)
    else write_packet oc u mem d pkt = Panic"
  using assms by (rule write_packet_effect)

theorem write_packet_spec_witness:
  "(\<exists>mem' d'. write_packet True ref_umem (replicate 16 1) ref_desc [7] = Ret (mem', d')
      \<and> Umem_data ref_umem mem' d' = Ret (Data [1, 1, 1, 7]))
    \<and> write_packet True ref_umem (replicate 16 1) ref_desc [7, 8] = Panic"
proof -
  let ?u = "ref_umem" and ?mem = "replicate 16 1 :: u8 list"
  have u: "wf_region (um_mem ?u) 2" "desc_of (um_mem ?u) 2 ref_desc 1" "length ?mem = unat (rg_len (um_mem ?u))"
    using ref_region_ok by (simp_all add: ref_umem_def)
  have old: "[1, 1, 1] = seg ?mem (data_off (rg_layout (um_mem ?u)) 1) (unat (sl_data (fd_lengths ref_desc)))"
    and mtu: "unat (fl_mtu (rg_layout (um_mem ?u))) = 4"
    by code_simp+
  from write_packet_spec [OF u _ old, of "[7]" True] write_packet_spec [OF u _ old, of "[7, 8]" True] show ?thesis
    unfolding mtu by (auto simp: wf_slice_def)
qed

section \<open>Pieces the loops share\<close>

text \<open>Wake the kernel's receive side if it asks for it.\<close>

definition wake_fill :: "'w libc \<Rightarrow> 'w libxdp \<Rightarrow> 'w \<Rightarrow> Xsk \<Rightarrow> i32 \<Rightarrow> (Xsk \<times> 'w) rust" where
  "wake_fill L X w x ms =
    (if FillQueue_needs_wakeup X w (xk_fq x) then
       (let fd = RxQueue_fd_mut (xk_rx_q x);
            (r, fd', w') = FillQueue_wakeup L w (xk_fq x) fd ms
        in rbind (unwrap r) (\<lambda>_. Ret (x\<lparr>xk_rx_q := RxQueue_fd_mut_back (xk_rx_q x) fd'\<rparr>, w')))
     else Ret (x, w))"

text \<open>One attempt to give \<open>n\<close> frames back to the fill queue; the loop repeats it until it succeeds.\<close>

definition refill :: "bool \<Rightarrow> 'w libc \<Rightarrow> 'w libxdp \<Rightarrow> 'w \<Rightarrow> Xsk \<Rightarrow> usize \<Rightarrow> i32 \<Rightarrow> (bool \<times> Xsk \<times> 'w) rust" where
  "refill oc L X w x n ms =
    (let fd = RxQueue_fd_mut (xk_rx_q x) in
     rbind (prefix_slice (xk_descs x) n) (\<lambda>descs.
     rbind (FillQueue_produce_and_wakeup oc L X w (xk_fq x) descs fd ms) (\<lambda>(r, fq, fd', w').
     rbind (unwrap r) (\<lambda>m.
       Ret (m = n, x\<lparr>xk_fq := fq, xk_rx_q := RxQueue_fd_mut_back (xk_rx_q x) fd'\<rparr>, w')))))"

text \<open>Wake the kernel's transmit side if it asks for it.\<close>

definition wake_tx :: "'w libc \<Rightarrow> 'w libxdp \<Rightarrow> 'w \<Rightarrow> Xsk \<Rightarrow> 'w rust" where
  "wake_tx L X w x =
    (if TxQueue_needs_wakeup X w (xk_tx_q x) then
       (let (r, w') = TxQueue_wakeup L w (xk_tx_q x) in rbind (unwrap r) (\<lambda>_. Ret w'))
     else Ret w)"

text \<open>Write new packets into the first \<open>n\<close> frames.\<close>

definition write_batch :: "bool \<Rightarrow> 'w packet_lib \<Rightarrow> PacketGenerator \<Rightarrow> usize \<Rightarrow> 'w \<Rightarrow> u8 list \<Rightarrow> Xsk \<Rightarrow> usize
    \<Rightarrow> (Xsk \<times> u8 list \<times> 'w) rust" where
  "write_batch oc P g payload_size w mem x n =
    rbind (prefix_slice (xk_descs x) n) (\<lambda>descs.
    rbind (write_packets oc P g payload_size (xk_umem x) w mem descs) (\<lambda>(descs', mem', w').
      Ret (x\<lparr>xk_descs := prefix_slice_back (xk_descs x) descs'\<rparr>, mem', w')))"

text \<open>How many of the \<open>frames_rcvd\<close> frames that came back are sent again.\<close>

definition frames_to_send :: "bool \<Rightarrow> usize \<Rightarrow> usize \<Rightarrow> usize \<Rightarrow> usize \<Rightarrow> usize rust" where
  "frames_to_send oc frames_rcvd max_batch_size num_packets sent =
    rbind (sub_oc oc num_packets sent) (\<lambda>left. Ret (min frames_rcvd (min max_batch_size left)))"

text \<open>One attempt to submit the first \<open>n\<close> frames.\<close>

definition resend :: "bool \<Rightarrow> 'w libc \<Rightarrow> 'w libxdp \<Rightarrow> 'w \<Rightarrow> Xsk \<Rightarrow> usize \<Rightarrow> (bool \<times> Xsk \<times> 'w) rust" where
  "resend oc L X w x n =
    rbind (prefix_slice (xk_descs x) n) (\<lambda>descs.
    rbind (TxQueue_produce_and_wakeup oc L X w (xk_tx_q x) descs) (\<lambda>(r, tx, w').
    rbind (unwrap r) (\<lambda>m. Ret (m = n, x\<lparr>xk_tx_q := tx\<rparr>, w'))))"

text \<open>The first batch: packets in the first frames, and all of them submitted.\<close>

definition first_batch :: "bool \<Rightarrow> 'w libxdp \<Rightarrow> 'w packet_lib \<Rightarrow> PacketGenerator \<Rightarrow> Config \<Rightarrow> 'w \<Rightarrow> u8 list
    \<Rightarrow> Xsk \<Rightarrow> (usize \<times> Xsk \<times> u8 list \<times> 'w) rust" where
  "first_batch oc X P g config w mem x =
    rbind (write_batch oc P g (cf_payload_size config) w mem x (cf_max_batch_size config)) (\<lambda>(x1, mem1, w1).
    rbind (prefix_slice (xk_descs x1) (cf_max_batch_size config)) (\<lambda>descs.
    rbind (TxQueue_produce oc X w1 (xk_tx_q x1) descs) (\<lambda>(n, tx, w2).
      if n \<noteq> cf_max_batch_size config then Panic
      else Ret (n, x1\<lparr>xk_tx_q := tx\<rparr>, mem1, w2))))"

text \<open>The receiver's first step: the first \<open>fq_size\<close> frames go to the fill queue.\<close>

definition fill_first :: "bool \<Rightarrow> 'w libxdp \<Rightarrow> XskConfig \<Rightarrow> 'w \<Rightarrow> Xsk \<Rightarrow> (Xsk \<times> 'w) rust" where
  "fill_first oc X rx_cfg w x =
    (let size = ucast (QueueSize_get (xc_fq_size rx_cfg)) in
     rbind (prefix_slice (xk_descs x) size) (\<lambda>descs.
     rbind (FillQueue_produce oc X w (xk_fq x) descs) (\<lambda>(frames_filled, fq, w').
       if frames_filled \<noteq> size then Panic else Ret (x\<lparr>xk_fq := fq\<rparr>, w'))))"

section \<open>Running a thread\<close>

text \<open>
  A thread is a function that makes one step: one test of a loop condition or one pass
  through an innermost loop. The states it reaches are the results of iterating it.
\<close>

fun steps :: "nat \<Rightarrow> ('s \<Rightarrow> 's rust) \<Rightarrow> 's \<Rightarrow> 's rust" where
  "steps 0 f s = Ret s"
| "steps (Suc k) f s = rbind (f s) (steps k f)"

lemma steps_invariant:
  assumes "\<And>s s'. I s \<Longrightarrow> f s = Ret s' \<Longrightarrow> I s'" and "I s" and "steps k f s = Ret s'"
  shows "I s'"
  using assms(2,3) by (induction k arbitrary: s) (auto simp: rbind_Ret_iff intro: assms(1))

lemma steps_Suc_end: "steps (Suc k) f s = rbind (steps k f s) f"
proof (induction k arbitrary: s)
  case 0
  show ?case by (cases "f s") simp_all
next
  case (Suc k)
  then show ?case by (cases "f s") simp_all
qed

text \<open>
  A loop with an invariant and a measure that every turn decreases until the thread is in a
  final state, where it stays: after as many turns as the measure says it is there.
\<close>

lemma steps_reach:
  assumes step: "\<And>s. I s \<Longrightarrow> \<exists>s'. f s = Ret s' \<and> I s' \<and> (if final s then s' = s else m s' < m s)"
    and zero: "\<And>s. I s \<Longrightarrow> m s = 0 \<Longrightarrow> final s"
    and I: "I s" and k: "m s \<le> k"
  shows "\<exists>s'. steps k f s = Ret s' \<and> I s' \<and> final s'"
  using I k
proof (induction k arbitrary: s)
  case 0
  with zero show ?case by simp
next
  case (Suc k)
  from step [OF Suc.prems(1)] obtain s' where s': "f s = Ret s'" "I s'" "if final s then s' = s else m s' < m s"
    by blast
  show ?case
  proof (cases "final s \<and> m s = Suc k")
    case True
    have stay: "\<exists>s'. steps j f s = Ret s' \<and> I s' \<and> final s'" for j
      using True s' by (induction j) simp_all
    then show ?thesis .
  next
    case False
    with s'(3) Suc.prems(2) have "m s' \<le> k" by (auto split: if_splits)
    with Suc.IH [OF s'(2)] s'(1) show ?thesis by simp
  qed
qed

section \<open>A socket to compute with\<close>

text \<open>A socket on the reference interface with the given descriptors, and a small configuration.\<close>

definition ref_xsk :: "FrameDesc list \<Rightarrow> Xsk" where
  "ref_xsk ds = (let s = \<lparr>so_fd = Fd_new (ref_libc :: ref_world libc) 7, so_inner = 0\<rparr> in
     \<lparr>xk_umem = ref_umem, xk_fq = FillQueue_new (XskRingProd (ref_prod 100)) ref_umem,
      xk_cq = CompQueue_new (XskRingCons (ref_cons 200)) ref_umem,
      xk_tx_q = TxQueue_new (XskRingProd (ref_prod 400)) s,
      xk_rx_q = RxQueue_new (XskRingCons (ref_cons 300)) s, xk_descs = ds\<rparr>)"

definition ref_xsk_config :: XskConfig where
  "ref_xsk_config = \<lparr>xc_tx_q_size = QueueSize 2, xc_rx_q_size = QueueSize 2, xc_cq_size = QueueSize 1,
     xc_fq_size = QueueSize 2, xc_frame_size = FrameSize 2048, xc_frame_count = 3\<rparr>"

definition ref_config :: Config where
  "ref_config = \<lparr>cf_multithreaded = True, cf_poll_ms_timeout = 100, cf_payload_size = 2,
     cf_max_batch_size = 1, cf_num_packets_to_send = 3, cf_sender = ref_xsk_config,
     cf_receiver = ref_xsk_config\<rparr>"

text \<open>A packet library that draws zeros and leaves the payload as it is.\<close>

definition ref_packets :: "'w packet_lib" where
  "ref_packets = \<lparr>random_u8 = (\<lambda>w. (0, w)), udp_packet = (\<lambda>_ _ _ _ _ _ _ payload. Inr payload)\<rparr>"

definition ref_generator :: PacketGenerator where
  "ref_generator = (let d = \<lparr>vd_if_name = [], vd_addr = [], vd_ip_addr = \<lparr>ip_addr_octets = [], ip_prefix_len = 24\<rparr>\<rparr>
     in PacketGenerator_new d d)"

end
