(* ===== verification/Xsk_Frame_Path.thy ===== *)
theory Xsk_Frame_Path
  imports Xsk_Queue "HOL-Library.Multiset"
begin

text \<open>
  The way of a frame through the kernel: handed over on a producer ring, held by the kernel,
  given back on a consumer ring. For receiving these are the fill and the receive ring, for
  sending the transmit and the completion ring. The contract says that the two rings share no
  memory and that a system call moves frames along this way and neither makes nor loses
  one; what follows is what the two loops of queue operations add to and take from it.
\<close>

text \<open>The frames on the way: in the producer ring, with the kernel, in the consumer ring.\<close>

definition path_frames :: "('e \<Rightarrow> nat) \<Rightarrow> ('f \<Rightarrow> nat) \<Rightarrow> ('w \<Rightarrow> 'p \<Rightarrow> 'e list) \<Rightarrow> ('w \<Rightarrow> nat multiset)
    \<Rightarrow> ('w \<Rightarrow> 'c \<Rightarrow> 'f list) \<Rightarrow> 'w \<Rightarrow> 'p \<Rightarrow> 'c \<Rightarrow> nat multiset" where
  "path_frames pframe cframe queued inside avail w p c =
     image_mset pframe (mset (queued w p)) + inside w + image_mset cframe (mset (avail w c))"

text \<open>Parts of a list of distinct frames.\<close>

lemma frames_once:
  assumes "distinct (map f xs)" and "M \<subseteq># image_mset f (mset xs)"
  shows "count M i \<le> 1"
proof -
  have "count M i \<le> count (mset (map f xs)) i" using mset_subset_eq_count [OF assms(2), of i] by simp
  also have "\<dots> \<le> 1" using assms(1) by (metis distinct_count_atmost_1 le_numeral_extra(4) zero_le)
  finally show ?thesis .
qed

lemma mset_take_mono: "m \<le> n \<Longrightarrow> mset (take m xs) \<subseteq># mset (take n xs)"
  by (metis append_take_drop_id mset_append mset_subset_eq_add_left min_absorb1 take_take)

text \<open>A state between two operations: nothing is reserved, nothing is peeked.\<close>

definition path_settled :: "('w \<Rightarrow> 'p \<Rightarrow> bool) \<Rightarrow> ('w \<Rightarrow> 'p \<Rightarrow> 'e list) \<Rightarrow> ('w \<Rightarrow> 'c \<Rightarrow> bool)
    \<Rightarrow> ('w \<Rightarrow> 'c \<Rightarrow> 'f list) \<Rightarrow> ('p \<Rightarrow> 'c \<Rightarrow> bool) \<Rightarrow> 'w \<Rightarrow> 'p \<Rightarrow> 'c \<Rightarrow> bool" where
  "path_settled pinv staged cinv held apart w p c \<longleftrightarrow>
     apart p c \<and> pinv w p \<and> staged w p = [] \<and> cinv w c \<and> held w c = []"

locale frame_path =
  prod_ring reserve slot_set submit pinv queued staged pbase room +
  cons: cons_ring peek slot_get release cinv avail held cbase
  for reserve :: "'w \<Rightarrow> 'p \<Rightarrow> u32 \<Rightarrow> u32 \<Rightarrow> u32 \<times> u32 \<times> 'p \<times> 'w"
    and slot_set :: "'w \<Rightarrow> 'p \<Rightarrow> u32 \<Rightarrow> 'e \<Rightarrow> 'w"
    and submit :: "'w \<Rightarrow> 'p \<Rightarrow> u32 \<Rightarrow> 'p \<times> 'w"
    and pinv queued staged pbase room
    and peek :: "'w \<Rightarrow> 'c \<Rightarrow> u32 \<Rightarrow> u32 \<Rightarrow> u32 \<times> u32 \<times> 'c \<times> 'w"
    and slot_get :: "'w \<Rightarrow> 'c \<Rightarrow> u32 \<Rightarrow> 'f"
    and release :: "'w \<Rightarrow> 'c \<Rightarrow> u32 \<Rightarrow> 'c \<times> 'w"
    and cinv avail held cbase +
  fixes apart :: "'p \<Rightarrow> 'c \<Rightarrow> bool"
    and inside :: "'w \<Rightarrow> nat multiset"
    and pframe :: "'e \<Rightarrow> nat"
    and cframe :: "'f \<Rightarrow> nat"
    and syscall :: "'w \<Rightarrow> 'w \<Rightarrow> bool"
  assumes reserve_apart:
    "apart p c \<Longrightarrow> reserve w p nb i = (n, i', p', w') \<Longrightarrow> apart p' c \<and> inside w' = inside w
       \<and> cinv w' c = cinv w c \<and> avail w' c = avail w c \<and> held w' c = held w c"
    and slot_set_apart:
    "apart p c \<Longrightarrow> inside (slot_set w p i e) = inside w \<and> cinv (slot_set w p i e) c = cinv w c
       \<and> avail (slot_set w p i e) c = avail w c \<and> held (slot_set w p i e) c = held w c"
    and submit_apart:
    "apart p c \<Longrightarrow> submit w p n = (p', w') \<Longrightarrow> apart p' c \<and> inside w' = inside w
       \<and> cinv w' c = cinv w c \<and> avail w' c = avail w c \<and> held w' c = held w c"
    and peek_apart:
    "apart p c \<Longrightarrow> peek w c nb i = (n, i', c', w') \<Longrightarrow> apart p c' \<and> inside w' = inside w
       \<and> pinv w' p = pinv w p \<and> queued w' p = queued w p \<and> staged w' p = staged w p"
    and release_apart:
    "apart p c \<Longrightarrow> release w c n = (c', w') \<Longrightarrow> apart p c' \<and> inside w' = inside w
       \<and> pinv w' p = pinv w p \<and> queued w' p = queued w p \<and> staged w' p = staged w p"
    and syscall_moves:
    "apart p c \<Longrightarrow> pinv w p \<Longrightarrow> staged w p = [] \<Longrightarrow> cinv w c \<Longrightarrow> held w c = [] \<Longrightarrow> syscall w w' \<Longrightarrow>
     pinv w' p \<and> staged w' p = [] \<and> cinv w' c \<and> held w' c = []
     \<and> path_frames pframe cframe queued inside avail w' p c = path_frames pframe cframe queued inside avail w p c"
begin

abbreviation path :: "'w \<Rightarrow> 'p \<Rightarrow> 'c \<Rightarrow> nat multiset" where
  "path \<equiv> path_frames pframe cframe queued inside avail"

abbreviation settled :: "'w \<Rightarrow> 'p \<Rightarrow> 'c \<Rightarrow> bool" where
  "settled \<equiv> path_settled pinv staged cinv held apart"

lemma syscall_path: "settled w p c \<Longrightarrow> syscall w w' \<Longrightarrow> settled w' p c \<and> path w' p c = path w p c"
  using syscall_moves [of p c w w'] by (simp add: path_settled_def path_frames_def)

lemma write_run_apart:
  "apart p c \<Longrightarrow> inside (write_run slot_set w p i es) = inside w
     \<and> cinv (write_run slot_set w p i es) c = cinv w c
     \<and> avail (write_run slot_set w p i es) c = avail w c \<and> held (write_run slot_set w p i es) c = held w c"
  by (induction es arbitrary: w i) (simp_all add: slot_set_apart)

text \<open>A batch handed over joins the frames on the way.\<close>

lemma produce_path:
  assumes s: "settled w p c" and k: "k = length ds mod 2 ^ 32" "k \<noteq> 0"
    and res: "reserve w p (ucast (slice_len ds)) idx = (cnt, idx', p1, w1)"
    and sub: "submit (write_run slot_set w1 p1 idx' (map entry (take (unat cnt) ds))) p1 cnt = (p2, w2)"
  shows "cnt = 0 \<and> settled w1 p1 c \<and> path w1 p1 c = path w p c
    \<or> cnt \<noteq> 0 \<and> unat cnt = k \<and> settled w2 p2 c
      \<and> path w2 p2 c = path w p c + image_mset (\<lambda>d. pframe (entry d)) (mset (take k ds))"
proof -
  note a1 = reserve_apart [OF _ res, of c]
  have s': "apart p c" "pinv w p" "staged w p = []" "cinv w c" "held w c = []" using s by (simp_all add: path_settled_def)
  then have p1: "apart p1 c" using a1 by blast
  have c1: "inside w1 = inside w" "cinv w1 c" "avail w1 c = avail w c" "held w1 c = []"
    using a1 s' by simp_all
  have c2: "apart p2 c" "inside w2 = inside w" "cinv w2 c" "avail w2 c = avail w c" "held w2 c = []"
    using submit_apart [OF p1 sub] write_run_apart [OF p1] c1 by simp_all
  have e: "image_mset pframe (mset (map entry xs)) = image_mset (\<lambda>d. pframe (entry d)) (mset xs)" for xs
    by (simp add: image_mset.compositionality comp_def)
  from produce_batch [OF s'(2,3) k(1) res sub] k(2) show ?thesis
    using p1 c1 c2 e by (auto simp: path_settled_def path_frames_def)
qed

text \<open>What is consumed leaves it.\<close>

lemma consume_path:
  assumes s: "settled w p c" and ds: "length ds mod 2 ^ 32 \<noteq> 0"
    and pk: "peek w c (ucast (slice_len ds)) idx = (cnt, idx', c1, w1)"
    and rel: "release w1 c1 cnt = (c2, w2)"
  shows "cnt = 0 \<and> settled w1 p c1 \<and> path w1 p c1 = path w p c
    \<or> cnt \<noteq> 0 \<and> unat cnt \<le> length ds \<and> settled w2 p c2
      \<and> path w p c = image_mset cframe (mset (read_run slot_get w1 c1 idx' (unat cnt))) + path w2 p c2"
proof -
  have s': "apart p c" "pinv w p" "staged w p = []" "cinv w c" "held w c = []" using s by (simp_all add: path_settled_def)
  note a1 = peek_apart [OF s'(1) pk]
  then have c1: "apart p c1" "inside w1 = inside w" "pinv w1 p" "queued w1 p = queued w p" "staged w1 p = []"
    using s' by simp_all
  note a2 = release_apart [OF c1(1) rel]
  then have c2: "apart p c2" "inside w2 = inside w" "pinv w2 p" "queued w2 p = queued w p" "staged w2 p = []"
    using c1 by simp_all
  have split: "mset (avail w c) = mset (take n (avail w c)) + mset (drop n (avail w c))" for n
    by (metis append_take_drop_id mset_append)
  from cons.consume_batch [OF s'(4,5) pk rel] ds consider
      (none) "cnt = 0" "avail w c = []" "cinv w1 c1" "held w1 c1 = []" "avail w1 c1 = []"
    | (some) "cnt \<noteq> 0" "unat cnt \<le> length ds"
        "read_run slot_get w1 c1 idx' (unat cnt) = take (unat cnt) (avail w c)"
        "cinv w2 c2" "held w2 c2 = []" "avail w2 c2 = drop (unat cnt) (avail w c)" by blast
  then show ?thesis
  proof cases
    case none
    with c1 show ?thesis by (simp add: path_settled_def path_frames_def)
  next
    case some
    with c2 split [of "unat cnt"] show ?thesis by (simp add: path_settled_def path_frames_def)
  qed
qed

end

end
