(* ===== verification/Xsk_Ref_Kernel.thy ===== *)
theory Xsk_Ref_Kernel
  imports Xsk_Reference Xsk_Frame_Path
begin

text \<open>
  A kernel for the reference interface: it takes one entry at a time from a producer ring in
  the shared memory and publishes it on a consumer ring, when that has room. On the receive
  side it moves addresses from the fill ring to the receive ring, on the transmit side
  descriptors from the transmit ring to the completion ring. Both ways are shown to be frame
  paths.
\<close>

section \<open>Rings at fixed places\<close>

definition p_at :: "ptr \<Rightarrow> xsk_ring_prod \<Rightarrow> bool" where
  "p_at a r \<longleftrightarrow> rp_mask r = 3 \<and> rp_size r = 4 \<and> rp_producer r = a \<and> rp_consumer r = a + 4 \<and> rp_ring r = a + 8"

definition c_at :: "ptr \<Rightarrow> xsk_ring_cons \<Rightarrow> bool" where
  "c_at b r \<longleftrightarrow> rc_mask r = 3 \<and> rc_size r = 4 \<and> rc_producer r = b \<and> rc_consumer r = b + 4 \<and> rc_ring r = b + 8"

definition kernel_move :: "(ref_world \<Rightarrow> ptr \<Rightarrow> u32 \<Rightarrow> 'e) \<Rightarrow> (ref_world \<Rightarrow> ptr \<Rightarrow> u32 \<Rightarrow> 'f \<Rightarrow> ref_world)
    \<Rightarrow> ('e \<Rightarrow> 'f) \<Rightarrow> ptr \<Rightarrow> ptr \<Rightarrow> ref_world \<Rightarrow> ref_world" where
  "kernel_move get put conv a b w =
    (let C = rw_words w (a + 4); Q = rw_words w b in
     if rw_words w a = C \<or> 4 \<le> Q - rw_words w (b + 4) then w
     else ref_word_put (ref_word_put (put w (b + 8) (Q AND 3) (conv (get w (a + 8) (C AND 3))))
            (a + 4) (C + 1)) b (Q + 1))"

text \<open>What is read of a ring depends on its two words and its slots only.\<close>

lemma read_run_at:
  assumes "get w' (a + 8) = get w (a + 8)"
  shows "p_at a p \<Longrightarrow> read_run (prod_slot get) w' p i n = read_run (prod_slot get) w p i n"
    and "c_at a c \<Longrightarrow> read_run (cons_slot get) w' c i n = read_run (cons_slot get) w c i n"
  by (induction n arbitrary: i; simp add: prod_slot_def cons_slot_def p_at_def c_at_def assms)+

lemma p_view:
  assumes "p_at a p" and "rw_words w' a = rw_words w a" and "rw_words w' (a + 4) = rw_words w (a + 4)"
  shows "ref_prod_ok w' p = ref_prod_ok w p" and "p_queued w' p = p_queued w p" and "p_staged w' p = p_staged w p"
    and "get w' (a + 8) = get w (a + 8) \<Longrightarrow> ref_queued get w' p = ref_queued get w p"
    and "get w' (a + 8) = get w (a + 8) \<Longrightarrow> ref_staged get w' p = ref_staged get w p"
  using assms read_run_at(1) [of get w' a w p]
  by (simp_all add: ref_prod_ok_def p_queued_def p_staged_def ref_queued_def ref_staged_def p_at_def)

lemma c_view:
  assumes "c_at b c" and "rw_words w' b = rw_words w b" and "rw_words w' (b + 4) = rw_words w (b + 4)"
  shows "ref_cons_ok w' c = ref_cons_ok w c" and "c_avail w' c = c_avail w c" and "c_held w' c = c_held w c"
    and "get w' (b + 8) = get w (b + 8) \<Longrightarrow> ref_avail get w' c = ref_avail get w c"
    and "get w' (b + 8) = get w (b + 8) \<Longrightarrow> ref_held get w' c = ref_held get w c"
  using assms read_run_at(2) [of get w' b w c]
  by (simp_all add: ref_cons_ok_def c_avail_def c_held_def ref_avail_def ref_held_def c_at_def)

lemma no_staged: "ref_staged get w p = [] \<longleftrightarrow> p_staged w p = 0"
  by (metis ref_staged_def length_read_run length_0_conv)

lemma no_held: "ref_held get w c = [] \<longleftrightarrow> c_held w c = 0"
  by (metis ref_held_def length_read_run length_0_conv)

section \<open>One move\<close>

locale kernel_link =
  slot_area get put + other: slot_area get' put'
  for get :: "ref_world \<Rightarrow> ptr \<Rightarrow> u32 \<Rightarrow> 'e" and put
    and get' :: "ref_world \<Rightarrow> ptr \<Rightarrow> u32 \<Rightarrow> 'f" and put' +
  fixes conv :: "'e \<Rightarrow> 'f" and a b :: ptr
  assumes get_put': "get (put' w p i e') = get w" and get'_put: "get' (put w p i e) = get' w"
    and places: "distinct [a, a + 4, b, b + 4]"
begin

abbreviation move :: "ref_world \<Rightarrow> ref_world" where
  "move \<equiv> kernel_move get put' conv a b"

lemma move_cases:
  obtains (idle) "move w = w"
  | (moved) "rw_words w a \<noteq> rw_words w (a + 4)" "rw_words w b - rw_words w (b + 4) < 4"
    "rw_words (move w) = (rw_words w)(a + 4 := rw_words w (a + 4) + 1, b := rw_words w b + 1)"
    "get (move w) = get w"
    "\<And>j. get' (move w) (b + 8) j = (if j = rw_words w b AND 3
       then conv (get w (a + 8) (rw_words w (a + 4) AND 3)) else get' w (b + 8) j)"
proof (cases "rw_words w a = rw_words w (a + 4) \<or> 4 \<le> rw_words w b - rw_words w (b + 4)")
  case True
  then have "move w = w" by (simp add: kernel_move_def)
  then show ?thesis by (rule idle)
next
  case False
  let ?w = "put' w (b + 8) (rw_words w b AND 3) (conv (get w (a + 8) (rw_words w (a + 4) AND 3)))"
  have m: "move w = ref_word_put (ref_word_put ?w (a + 4) (rw_words w (a + 4) + 1)) b (rw_words w b + 1)"
    using False by (simp add: kernel_move_def Let_def)
  show ?thesis
  proof (rule moved)
    show "rw_words (move w) = (rw_words w)(a + 4 := rw_words w (a + 4) + 1, b := rw_words w b + 1)"
      by (simp add: m ref_word_put_def other.put_words)
    show "get (move w) = get w" by (simp add: m get_word_put get_put')
    show "get' (move w) (b + 8) j = (if j = rw_words w b AND 3
        then conv (get w (a + 8) (rw_words w (a + 4) AND 3)) else get' w (b + 8) j)" for j
      by (simp add: m other.get_word_put other.get_put)
  qed (use False in \<open>simp_all add: not_le\<close>)
qed

lemma move_from:
  assumes p: "p_at a p" and ok: "ref_prod_ok w p" and st: "p_staged w p = 0"
    and ne: "rw_words w a \<noteq> rw_words w (a + 4)"
    and w': "rw_words w' a = rw_words w a" "rw_words w' (a + 4) = rw_words w (a + 4) + 1" "get w' = get w"
  shows "ref_prod_ok w' p \<and> p_staged w' p = 0
    \<and> ref_queued get w p = get w (a + 8) (rw_words w (a + 4) AND 3) # ref_queued get w' p"
proof -
  let ?P = "rw_words w a" and ?C = "rw_words w (a + 4)"
  have pos: "0 < p_queued w p" using ne p by (simp add: p_queued_def p_at_def unat_gt_0)
  then have "unat (?P - (?C + 1)) = unat (?P - ?C) - unat (1::u32)"
    using p by (intro unat_diff_step) (simp add: p_queued_def p_at_def)
  then have q: "p_queued w p = Suc (p_queued w' p)"
    using pos p by (simp add: p_queued_def p_at_def w')
  have "read_run (prod_slot get) w p ?C (p_queued w p)
      = get w (a + 8) (?C AND 3) # read_run (prod_slot get) w' p (?C + 1) (p_queued w' p)"
    using p read_run_at(1) [of get w' a w p] by (simp add: q w' prod_slot_def p_at_def)
  with p ok st q show ?thesis
    by (simp add: ref_prod_ok_def p_staged_def ref_queued_def p_at_def w')
qed

lemma move_to:
  assumes c: "c_at b c" and ok: "ref_cons_ok w c" and h: "c_held w c = 0"
    and room: "rw_words w b - rw_words w (b + 4) < 4"
    and w': "rw_words w' b = rw_words w b + 1" "rw_words w' (b + 4) = rw_words w (b + 4)"
      "\<And>j. get' w' (b + 8) j = (if j = rw_words w b AND 3 then e else get' w (b + 8) j)"
  shows "ref_cons_ok w' c \<and> c_held w' c = 0 \<and> ref_avail get' w' c = ref_avail get' w c @ [e]"
proof -
  let ?Q = "rw_words w b" and ?n = "c_avail w c"
  have cc: "rc_cached_cons c = rw_words w (b + 4)"
    using h c by (simp add: c_held_def c_at_def unat_eq_zero)
  have n: "?n < 4" using room c by (simp add: c_avail_def c_at_def cc word_less_nat_alt)
  have Q: "?Q = rc_cached_cons c + of_nat ?n" using c by (simp add: c_avail_def c_at_def)
  have "unat (?Q - rc_cached_cons c) + unat (?Q + 1 - ?Q) < 2 ^ 32"
    using n c by (simp add: c_avail_def c_at_def)
  from unat_diff_add [OF this] have n': "c_avail w' c = Suc ?n"
    using c by (simp add: c_avail_def c_at_def w')
  have shape: "ring_shape 4 3" by (auto simp: ring_shape_def intro!: exI [of _ 2])
  have run: "read_run (cons_slot get') w' c (rc_cached_cons c) ?n
      = read_run (cons_slot get') w c (rc_cached_cons c) ?n"
  proof (rule nth_equalityI)
    fix i assume "i < length (read_run (cons_slot get') w' c (rc_cached_cons c) ?n)"
    then have i: "i < ?n" by simp
    have "(rc_cached_cons c + of_nat i) AND 3 \<noteq> ?Q AND 3"
      using masked_inject [OF shape, of i ?n "rc_cached_cons c"] i n Q by auto
    then show "read_run (cons_slot get') w' c (rc_cached_cons c) ?n ! i
        = read_run (cons_slot get') w c (rc_cached_cons c) ?n ! i"
      using c i by (simp add: nth_read_run cons_slot_def c_at_def w')
  qed simp
  have last: "cons_slot get' w' c ?Q = e" using c by (simp add: cons_slot_def c_at_def w')
  have "ref_avail get' w' c = ref_avail get' w c @ [e]"
    unfolding ref_avail_def n' using read_run_append [of "cons_slot get'" w' c "rc_cached_cons c" ?n 1]
    by (simp add: run last flip: Q)
  moreover have "ref_cons_ok w' c \<and> c_held w' c = 0"
    using ok h n n' c by (simp add: ref_cons_ok_def c_held_def c_at_def w')
  ultimately show ?thesis by simp
qed

lemma move_own:
  assumes "p_at a p" "c_at b c" "ref_prod_ok w p" "ref_staged get w p = []" "ref_cons_ok w c" "ref_held get' w c = []"
  shows "ref_prod_ok (move w) p \<and> ref_staged get (move w) p = [] \<and> ref_cons_ok (move w) c
    \<and> ref_held get' (move w) c = []
    \<and> (ref_queued get (move w) p = ref_queued get w p \<and> ref_avail get' (move w) c = ref_avail get' w c
      \<or> (\<exists>e es. ref_queued get w p = e # es \<and> ref_queued get (move w) p = es
          \<and> ref_avail get' (move w) c = ref_avail get' w c @ [conv e]))"
proof (cases rule: move_cases [of w])
  case idle
  with assms show ?thesis by simp
next
  case moved
  have "rw_words (move w) a = rw_words w a" "rw_words (move w) (a + 4) = rw_words w (a + 4) + 1"
    "rw_words (move w) b = rw_words w b + 1" "rw_words (move w) (b + 4) = rw_words w (b + 4)"
    using places by (auto simp: moved(3))
  with move_from [of p w "move w"] move_to [of c w "move w", OF _ _ _ _ _ _ moved(5)] moved(1,2,4) assms
  show ?thesis by (simp add: no_staged no_held)
qed

lemmas from_view = p_view(1) [of a] p_view(4,5) [of a _ _ _ get]
lemmas to_view = c_view(1) [of b] c_view(4,5) [of b _ _ _ get']

text \<open>A step that touches neither ring.\<close>

definition elsewhere :: "ref_world \<Rightarrow> ref_world \<Rightarrow> bool" where
  "elsewhere w w' \<longleftrightarrow> (\<forall>x \<in> {a, a + 4, b, b + 4}. rw_words w' x = rw_words w x)
     \<and> get w' (a + 8) = get w (a + 8) \<and> get' w' (b + 8) = get' w (b + 8)"

lemma step_moves:
  assumes conv: "\<And>e. cframe (conv e) = pframe e" and step: "w' = move w \<or> elsewhere w w'"
    and ok: "p_at a p" "c_at b c" "ref_prod_ok w p" "ref_staged get w p = []" "ref_cons_ok w c" "ref_held get' w c = []"
  shows "ref_prod_ok w' p \<and> ref_staged get w' p = [] \<and> ref_cons_ok w' c \<and> ref_held get' w' c = []
    \<and> path_frames pframe cframe (ref_queued get) (\<lambda>_. {#}) (ref_avail get') w' p c
      = path_frames pframe cframe (ref_queued get) (\<lambda>_. {#}) (ref_avail get') w p c"
  using step
proof
  assume "w' = move w"
  with move_own [OF ok] show ?thesis by (auto simp: path_frames_def conv)
next
  assume "elsewhere w w'"
  then have "rw_words w' a = rw_words w a" "rw_words w' (a + 4) = rw_words w (a + 4)"
    "rw_words w' b = rw_words w b" "rw_words w' (b + 4) = rw_words w (b + 4)"
    "get w' (a + 8) = get w (a + 8)" "get' w' (b + 8) = get' w (b + 8)" by (simp_all add: elsewhere_def)
  with from_view [OF ok(1), of w' w] to_view [OF ok(2), of w' w] ok show ?thesis
    by (simp add: path_frames_def)
qed

lemma link_path:
  assumes conv: "\<And>e. cframe (conv e) = pframe e" and step: "\<And>w w'. step w w' \<Longrightarrow> w' = move w \<or> elsewhere w w'"
  shows "frame_path ref_reserve (prod_slot_put put) ref_submit ref_prod_ok (ref_queued get) (ref_staged get)
    ref_base ref_room ref_peek (cons_slot get') ref_release ref_cons_ok (ref_avail get') (ref_held get')
    ref_cons_base (\<lambda>p c. p_at a p \<and> c_at b c) (\<lambda>_. {#}) pframe cframe step\<^sup>*\<^sup>*"
proof (rule frame_path.intro [OF rp.prod_ring_axioms other.rc.cons_ring_axioms], rule frame_path_axioms.intro)
  fix p c w nb i n i' p' w'
  assume "p_at a p \<and> c_at b c" "ref_reserve w p nb i = (n, i', p', w')"
  then show "(p_at a p' \<and> c_at b c) \<and> {#} = {#} \<and> ref_cons_ok w' c = ref_cons_ok w c
      \<and> ref_avail get' w' c = ref_avail get' w c \<and> ref_held get' w' c = ref_held get' w c"
    by (auto simp: ref_reserve_def p_at_def Let_def split: if_splits)
next
  fix p c w i e
  assume at: "p_at a p \<and> c_at b c"
  let ?w = "prod_slot_put put w p i e"
  have "rw_words ?w = rw_words w" "get' ?w = get' w" by (simp_all add: prod_slot_put_def put_words get'_put)
  with at to_view [of c ?w w] show "{#} = {#} \<and> ref_cons_ok ?w c = ref_cons_ok w c
      \<and> ref_avail get' ?w c = ref_avail get' w c \<and> ref_held get' ?w c = ref_held get' w c" by simp
next
  fix p c w n p' w'
  assume at: "p_at a p \<and> c_at b c" and "ref_submit w p n = (p', w')"
  then have w': "p' = p" "w' = ref_word_put w a (rw_words w a + n)" by (auto simp: ref_submit_def p_at_def)
  have "rw_words w' b = rw_words w b" "rw_words w' (b + 4) = rw_words w (b + 4)" "get' w' = get' w"
    using places by (auto simp: w' ref_word_put_def other.get_word_put [unfolded ref_word_put_def])
  with at w' to_view [of c w' w] show "(p_at a p' \<and> c_at b c) \<and> {#} = {#} \<and> ref_cons_ok w' c = ref_cons_ok w c
      \<and> ref_avail get' w' c = ref_avail get' w c \<and> ref_held get' w' c = ref_held get' w c" by simp
next
  fix p c w nb i n i' c' w'
  assume "p_at a p \<and> c_at b c" "ref_peek w c nb i = (n, i', c', w')"
  then show "(p_at a p \<and> c_at b c') \<and> {#} = {#} \<and> ref_prod_ok w' p = ref_prod_ok w p
      \<and> ref_queued get w' p = ref_queued get w p \<and> ref_staged get w' p = ref_staged get w p"
    by (auto simp: ref_peek_def c_at_def Let_def split: if_splits)
next
  fix p c w n c' w'
  assume at: "p_at a p \<and> c_at b c" and "ref_release w c n = (c', w')"
  then have w': "c' = c" "w' = ref_word_put w (b + 4) (rw_words w (b + 4) + n)" by (auto simp: ref_release_def c_at_def)
  have "rw_words w' a = rw_words w a" "rw_words w' (a + 4) = rw_words w (a + 4)" "get w' = get w"
    using places by (auto simp: w' ref_word_put_def get_word_put [unfolded ref_word_put_def])
  with at w' from_view [of p w' w] show "(p_at a p \<and> c_at b c') \<and> {#} = {#} \<and> ref_prod_ok w' p = ref_prod_ok w p
      \<and> ref_queued get w' p = ref_queued get w p \<and> ref_staged get w' p = ref_staged get w p" by simp
next
  fix p c w w'
  assume at: "p_at a p \<and> c_at b c" and ok: "ref_prod_ok w p" "ref_staged get w p = []" "ref_cons_ok w c" "ref_held get' w c = []"
    and "step\<^sup>*\<^sup>* w w'"
  from this(6) show "ref_prod_ok w' p \<and> ref_staged get w' p = [] \<and> ref_cons_ok w' c \<and> ref_held get' w' c = []
    \<and> path_frames pframe cframe (ref_queued get) (\<lambda>_. {#}) (ref_avail get') w' p c
      = path_frames pframe cframe (ref_queued get) (\<lambda>_. {#}) (ref_avail get') w p c"
  proof (induction rule: rtranclp_induct)
    case base
    with ok show ?case by simp
  next
    case (step v w')
    note one = step_moves [of cframe pframe, OF conv assms(2) [OF step.hyps(2)], of p c]
    show ?case using one at step.IH by simp
  qed
qed

end

section \<open>The two ways\<close>

definition ref_rx_conv :: "u64 \<Rightarrow> xdp_desc" where
  "ref_rx_conv a = \<lparr>xd_addr = a, xd_len = 60, xd_options = 0\<rparr>"

definition ref_rx_move :: "ref_world \<Rightarrow> ref_world" where
  "ref_rx_move = kernel_move rw_addrs ref_desc_put ref_rx_conv 100 300"

definition ref_tx_move :: "ref_world \<Rightarrow> ref_world" where
  "ref_tx_move = kernel_move rw_descs ref_addr_put xd_addr 400 200"

definition ref_kernel :: "ref_world \<Rightarrow> ref_world \<Rightarrow> bool" where
  "ref_kernel w w' \<longleftrightarrow> w' = ref_rx_move w \<or> w' = ref_tx_move w"

interpretation rx_link: kernel_link rw_addrs ref_addr_put rw_descs ref_desc_put ref_rx_conv 100 300
  by unfold_locales (simp_all add: ref_addr_put_def ref_desc_put_def ref_word_put_def)

interpretation tx_link: kernel_link rw_descs ref_desc_put rw_addrs ref_addr_put xd_addr 400 200
  by unfold_locales (simp_all add: ref_addr_put_def ref_desc_put_def ref_word_put_def)

lemma ref_kernel_rx: "ref_kernel w w' \<Longrightarrow> w' = rx_link.move w \<or> rx_link.elsewhere w w'"
  by (auto simp: ref_kernel_def ref_rx_move_def ref_tx_move_def rx_link.elsewhere_def kernel_move_def
    ref_word_put_def ref_addr_put_def Let_def)

lemma ref_kernel_tx: "ref_kernel w w' \<Longrightarrow> w' = tx_link.move w \<or> tx_link.elsewhere w w'"
  by (auto simp: ref_kernel_def ref_rx_move_def ref_tx_move_def tx_link.elsewhere_def kernel_move_def
    ref_word_put_def ref_desc_put_def Let_def)

lemma ref_rx_path:
  "frame_path ref_reserve (prod_slot_put ref_addr_put) ref_submit ref_prod_ok (ref_queued rw_addrs)
     (ref_staged rw_addrs) ref_base ref_room ref_peek (cons_slot rw_descs) ref_release ref_cons_ok
     (ref_avail rw_descs) (ref_held rw_descs) ref_cons_base (\<lambda>p c. p_at 100 p \<and> c_at 300 c) (\<lambda>_. {#})
     frame (\<lambda>d. frame (xd_addr d)) ref_kernel\<^sup>*\<^sup>*"
  by (rule rx_link.link_path) (simp_all add: ref_rx_conv_def ref_kernel_rx)

lemma ref_tx_path:
  "frame_path ref_reserve (prod_slot_put ref_desc_put) ref_submit ref_prod_ok (ref_queued rw_descs)
     (ref_staged rw_descs) ref_base ref_room ref_peek (cons_slot rw_addrs) ref_release ref_cons_ok
     (ref_avail rw_addrs) (ref_held rw_addrs) ref_cons_base (\<lambda>p c. p_at 400 p \<and> c_at 200 c) (\<lambda>_. {#})
     (\<lambda>d. frame (xd_addr d)) frame ref_kernel\<^sup>*\<^sup>*"
  by (rule tx_link.link_path) (simp_all add: ref_kernel_tx)

text \<open>A system interface in which polling and sending let this kernel run.\<close>

definition ref_os :: "ref_world libc" where
  "ref_os = ref_libc\<lparr>poll := \<lambda>w p n ms. (1, p\<lparr>pf_revents := pf_events p\<rparr>, ref_rx_move w),
     sendto := \<lambda>w fd b n f a al. (0, ref_tx_move w)\<rparr>"

lemma ref_os_syscalls:
  "poll ref_os w p n ms = (r, p', w') \<Longrightarrow> ref_kernel\<^sup>*\<^sup>* w w'"
  "sendto ref_os w fd b m f a al = (r', w') \<Longrightarrow> ref_kernel\<^sup>*\<^sup>* w w'"
  by (auto simp: ref_os_def ref_kernel_def intro!: r_into_rtranclp)

lemma ref_rings_at [simp]: "p_at a (ref_prod a)" "c_at b (ref_cons b)"
  by (simp_all add: p_at_def c_at_def ref_prod_def ref_cons_def)

end
