(* ===== verification/Xsk_Receiver.thy ===== *)
theory Xsk_Receiver
  imports Xsk_Example Xsk_Ref_Kernel
begin

text \<open>
  The receiving thread of \<^verbatim>\<open>examples/dev1_to_dev2.rs\<close>: it gives frames to the kernel, takes
  received ones and gives those back.
\<close>

section \<open>The thread\<close>

text \<open>Where it is: at the head of its loop, giving \<open>n\<close> frames back, or finished.\<close>

datatype rx_pc = RxLoop | RxRefill usize | RxDone

record 'w receiver =
  rv_world :: 'w
  rv_xsk :: Xsk
  rv_total :: usize
  rv_pc :: rx_pc

text \<open>
  Up to the loop. The go-ahead is sent to the sending thread; \<open>sender_there\<close> says whether that
  thread still exists.
\<close>

definition receiver_start :: "bool \<Rightarrow> 'w libxdp \<Rightarrow> XskConfig \<Rightarrow> bool \<Rightarrow> 'w \<Rightarrow> Xsk \<Rightarrow> 'w receiver rust" where
  "receiver_start oc X rx_cfg sender_there w x =
    rbind (fill_first oc X rx_cfg w x) (\<lambda>(x1, w1).
      Ret \<lparr>rv_world = w1, rv_xsk = x1, rv_total = 0, rv_pc = if sender_there then RxLoop else RxDone\<rparr>)"

text \<open>One step. \<open>sender_done\<close> reads the flag the sending thread sets when it has finished.\<close>

definition receiver_step :: "bool \<Rightarrow> 'w libc \<Rightarrow> 'w libxdp \<Rightarrow> ('w \<Rightarrow> bool) \<Rightarrow> Config
    \<Rightarrow> 'w receiver \<Rightarrow> 'w receiver rust" where
  "receiver_step oc L X sender_done config t = (case rv_pc t of
     RxLoop \<Rightarrow>
       (if rv_total t < cf_num_packets_to_send config then
          rbind (RxQueue_poll_and_consume oc L X (rv_world t) (xk_rx_q (rv_xsk t)) (xk_descs (rv_xsk t))
              (cf_poll_ms_timeout config)) (\<lambda>(r, descs, rx_q, w1).
          rbind (unwrap r) (\<lambda>frames_rcvd.
            let x1 = (rv_xsk t)\<lparr>xk_descs := descs, xk_rx_q := rx_q\<rparr> in
            if frames_rcvd = 0 then
              rbind (wake_fill L X w1 x1 (cf_poll_ms_timeout config)) (\<lambda>(x2, w2).
                Ret (t\<lparr>rv_world := w2, rv_xsk := x2, rv_pc := if sender_done w2 then RxDone else RxLoop\<rparr>))
            else Ret (t\<lparr>rv_world := w1, rv_xsk := x1, rv_pc := RxRefill frames_rcvd\<rparr>)))
        else Ret (t\<lparr>rv_pc := RxDone\<rparr>))
   | RxRefill frames_rcvd \<Rightarrow>
       rbind (refill oc L X (rv_world t) (rv_xsk t) frames_rcvd (cf_poll_ms_timeout config))
         (\<lambda>(all, x1, w1).
           if all then
             rbind (add_oc oc (rv_total t) frames_rcvd) (\<lambda>total.
               Ret (t\<lparr>rv_world := w1, rv_xsk := x1, rv_total := total, rv_pc := RxLoop\<rparr>))
           else Ret (t\<lparr>rv_world := w1, rv_xsk := x1\<rparr>))
   | RxDone \<Rightarrow> Ret t)"

text \<open>The frames the thread has taken and not yet given back.\<close>

definition in_hand :: "'w receiver \<Rightarrow> FrameDesc list" where
  "in_hand t = (case rv_pc t of RxRefill n \<Rightarrow> take (unat n) (xk_descs (rv_xsk t)) | _ \<Rightarrow> [])"

section \<open>The queues on a path\<close>

text \<open>
  The receive path of a socket: fill ring, kernel, receive ring. A fill entry is an address, a
  received descriptor has one; \<open>frame\<close> is the frame an address lies in.
\<close>

locale receive_path =
  frame_path "reserve X" "fill_addr_set X" "submit X" pinv queued staged pbase room
    "peek X" "rx_desc_get X" "release X" cinv avail held cbase apart inside frame
    "\<lambda>d. frame (xd_addr d)" syscall
  for X :: "'w libxdp" and pinv queued staged pbase room cinv avail held cbase apart inside
    and frame :: "u64 \<Rightarrow> nat" and syscall +
  fixes L :: "'w libc"
  assumes poll_syscall: "poll L w p n ms = (r, p', w') \<Longrightarrow> syscall w w'"
begin

abbreviation between :: "'w \<Rightarrow> Xsk \<Rightarrow> bool" where
  "between w x \<equiv> settled w (fq_raw (xk_fq x)) (rx_raw (xk_rx_q x))"

abbreviation on_way :: "'w \<Rightarrow> Xsk \<Rightarrow> nat multiset" where
  "on_way w x \<equiv> path w (fq_raw (xk_fq x)) (rx_raw (xk_rx_q x))"

abbreviation frames :: "FrameDesc list \<Rightarrow> nat multiset" where
  "frames ds \<equiv> image_mset (\<lambda>d. frame (fd_addr d)) (mset ds)"

lemma fill_path:
  assumes "settled w (fq_raw fq) c" and "FillQueue_produce oc X w fq ds = Ret (n, fq', w')"
    and "length ds < 2 ^ 32"
  shows "settled w' (fq_raw fq') c \<and> (n = 0 \<and> path w' (fq_raw fq') c = path w (fq_raw fq) c
    \<or> unat n = length ds \<and> path w' (fq_raw fq') c = path w (fq_raw fq) c + frames ds)"
proof -
  obtain cnt idx r w1 where res: "reserve X w (fq_raw fq) (ucast (slice_len ds)) 0 = (cnt, idx, r, w1)"
    by (rule prod_cases4)
  obtain r' w2 where sub: "submit X (write_run (fill_addr_set X) w1 r idx (map fd_addr (take (unat cnt) ds))) r cnt
      = (r', w2)" by (rule prod.exhaust)
  note eq = FillQueue_produce_eq [OF res sub, of oc]
  show ?thesis
  proof (cases "length ds mod 2 ^ 32 = 0")
    case True
    with eq assms(1,2) show ?thesis by simp
  next
    case False
    then have "take (length ds mod 2 ^ 32) ds = ds" using assms(3) by simp
    with produce_path [OF assms(1) refl False res sub] eq assms(2,3) False show ?thesis
      by (auto split: if_splits)
  qed
qed

lemma consume_rx_path:
  assumes "settled w p (rx_raw rx)" and "RxQueue_consume oc X w rx ds = Ret (n, ds', rx', w')"
  shows "settled w' p (rx_raw rx') \<and> (\<exists>got. length got = unat n \<and> unat n \<le> length ds
    \<and> ds' = got @ drop (unat n) ds \<and> path w p (rx_raw rx) = frames got + path w' p (rx_raw rx'))"
proof -
  obtain cnt idx r w1 where pk: "peek X w (rx_raw rx) (ucast (slice_len ds)) 0 = (cnt, idx, r, w1)"
    by (rule prod_cases4)
  obtain r' w2 where rel: "release X w1 r cnt = (r', w2)" by (rule prod.exhaust)
  note eq = RxQueue_consume_eq [OF pk rel, of oc]
  let ?got = "map rx_frame (read_run (rx_desc_get X) w1 r idx (unat cnt))"
  have frames: "frames ?got = image_mset (\<lambda>d. frame (xd_addr d)) (mset (read_run (rx_desc_get X) w1 r idx (unat cnt)))"
    by (simp add: image_mset.compositionality comp_def rx_frame_def)
  consider (nil) "length ds mod 2 ^ 32 = 0" | (none) "length ds mod 2 ^ 32 \<noteq> 0" "cnt = 0"
    | (some) "length ds mod 2 ^ 32 \<noteq> 0" "cnt \<noteq> 0" by blast
  then show ?thesis
  proof cases
    case nil
    with eq assms show ?thesis by simp
  next
    case none
    with eq assms consume_path [OF assms(1) none(1) pk rel] show ?thesis by simp
  next
    case some
    note c = consume_path [OF assms(1) some(1) pk rel]
    from eq assms(2) some c have "n = ucast cnt" "ds' = ?got @ drop (unat cnt) ds" "rx' = rx\<lparr>rx_ring := XskRingCons r'\<rparr>" "w' = w2"
      by (auto simp: min_absorb2 split: if_splits)
    with c some frames show ?thesis by (auto intro!: exI [of _ ?got])
  qed
qed

lemma poll_read_path:
  assumes "settled w p c" and "Fd_poll_read L w f ms = (r, f', w')"
  shows "settled w' p c \<and> path w' p c = path w p c"
proof -
  from assms(2) obtain pf n ms' ret pf' where "poll L w pf n ms' = (ret, pf', w')"
    by (auto simp: Fd_poll_read_def PollFd_poll_def Let_def split: prod.splits if_splits)
  then show ?thesis by (intro syscall_path [OF assms(1)] poll_syscall)
qed

lemma poll_and_consume_path:
  assumes "between w x"
    and "RxQueue_poll_and_consume oc L X w (xk_rx_q x) (xk_descs x) ms = Ret (Inr n, ds', rx', w')"
  shows "between w' (x\<lparr>xk_descs := ds', xk_rx_q := rx'\<rparr>) \<and> (\<exists>got. length got = unat n
    \<and> unat n \<le> length (xk_descs x) \<and> ds' = got @ drop (unat n) (xk_descs x)
    \<and> on_way w x = frames got + on_way w' (x\<lparr>xk_descs := ds', xk_rx_q := rx'\<rparr>))"
proof -
  obtain r f w1 where poll: "Fd_poll_read L w (so_fd (rx_socket (xk_rx_q x))) ms = (r, f, w1)"
    by (rule prod_cases3)
  note p = poll_read_path [OF assms(1) poll]
  let ?rx = "(xk_rx_q x)\<lparr>rx_socket := (rx_socket (xk_rx_q x))\<lparr>so_fd := f\<rparr>\<rparr>"
  have polled: "RxQueue_poll L w (xk_rx_q x) ms = (r, ?rx, w1)" by (simp add: RxQueue_poll_def poll)
  from assms(2) consider "r = Inr False" "n = 0" "ds' = xk_descs x" "rx' = ?rx" "w' = w1"
    | "RxQueue_consume oc X w1 ?rx (xk_descs x) = Ret (n, ds', rx', w')"
    by (auto simp: RxQueue_poll_and_consume_def polled rbind_Ret_iff split: sum.splits bool.splits)
  then show ?thesis
  proof cases
    case 1
    with p show ?thesis by simp
  next
    case 2
    have "settled w1 (fq_raw (xk_fq x)) (rx_raw ?rx)" using p by simp
    from consume_rx_path [OF this 2] p show ?thesis by simp
  qed
qed

lemma wake_fill_path:
  assumes "between w x" and "wake_fill L X w x ms = Ret (x', w')"
  shows "between w' x' \<and> on_way w' x' = on_way w x \<and> xk_descs x' = xk_descs x"
  using assms(2) poll_read_path [OF assms(1)] assms(1)
  by (fastforce simp: wake_fill_def FillQueue_wakeup_def RxQueue_fd_mut_back_def rbind_Ret_iff Let_def
    split: prod.splits sum.splits if_splits)

lemma refill_path:
  assumes b: "between w x" and "refill oc L X w x n ms = Ret (all, x', w')" and n: "n \<noteq> 0"
    and len: "length (xk_descs x) < 2 ^ 32"
  shows "between w' x' \<and> unat n \<le> length (xk_descs x) \<and> xk_descs x' = xk_descs x
    \<and> on_way w' x' = on_way w x + (if all then frames (take (unat n) (xk_descs x)) else {#})"
proof -
  let ?ds = "take (unat n) (xk_descs x)" and ?c = "rx_raw (xk_rx_q x)"
  from assms(2) obtain m fq fd' where le: "unat n \<le> length (xk_descs x)"
    and p: "FillQueue_produce_and_wakeup oc L X w (xk_fq x) ?ds (RxQueue_fd_mut (xk_rx_q x)) ms
      = Ret (Inr m, fq, fd', w')"
    and x': "x' = x\<lparr>xk_fq := fq, xk_rx_q := RxQueue_fd_mut_back (xk_rx_q x) fd'\<rparr>" "all \<longleftrightarrow> m = n"
    by (auto simp: refill_def rbind_Ret_iff Let_def prefix_slice_Ret_iff split: prod.splits)
  from p obtain w1 where f: "FillQueue_produce oc X w (xk_fq x) ?ds = Ret (m, fq, w1)"
    and w': "w' = w1 \<or> (\<exists>f r f'. Fd_poll_read L w1 f ms = (r, f', w'))"
    by (auto simp: FillQueue_produce_and_wakeup_def FillQueue_wakeup_after_def FillQueue_wakeup_def
      rbind_Ret_iff split: prod.splits sum.splits if_splits)
  have ds: "length ?ds = unat n" "length ?ds < 2 ^ 32" using le len by simp_all
  note filled = fill_path [OF b f ds(2)]
  have "settled w' (fq_raw fq) ?c \<and> path w' (fq_raw fq) ?c = path w1 (fq_raw fq) ?c"
    using w' filled poll_read_path [of w1 "fq_raw fq" ?c] by blast
  moreover have "all \<longleftrightarrow> unat m = length ?ds" using x' ds by (auto intro: unsigned_word_eqI)
  ultimately show ?thesis
    using filled x' le n ds by (auto simp: RxQueue_fd_mut_back_def)
qed

text \<open>
  The invariant of the thread: the frames on the way and those it holds while giving them
  back are those it started with, and its other descriptors are untouched.
\<close>

definition conserves :: "nat multiset \<Rightarrow> FrameDesc list \<Rightarrow> 'w receiver \<Rightarrow> bool" where
  "conserves T ds0 t \<longleftrightarrow> between (rv_world t) (rv_xsk t) \<and> length (xk_descs (rv_xsk t)) = length ds0
     \<and> drop (size T) (xk_descs (rv_xsk t)) = drop (size T) ds0
     \<and> on_way (rv_world t) (rv_xsk t) + frames (in_hand t) = T
     \<and> (\<forall>n. rv_pc t = RxRefill n \<longrightarrow> n \<noteq> 0 \<and> unat n \<le> length ds0)"

lemma receiver_step_conserves:
  assumes c: "conserves T ds0 t" and len: "length ds0 < 2 ^ 32"
    and step: "receiver_step oc L X sender_done config t = Ret t'"
  shows "conserves T ds0 t'"
proof (cases "rv_pc t")
  case RxDone
  with c step show ?thesis by (simp add: receiver_step_def)
next
  case RxLoop
  let ?w = "rv_world t" and ?x = "rv_xsk t" and ?ms = "cf_poll_ms_timeout config"
  from c RxLoop have b: "between ?w ?x" "on_way ?w ?x = T" "length (xk_descs ?x) = length ds0"
    "drop (size T) (xk_descs ?x) = drop (size T) ds0"
    by (simp_all add: conserves_def in_hand_def)
  show ?thesis
  proof (cases "rv_total t < cf_num_packets_to_send config")
    case False
    with c RxLoop step show ?thesis by (auto simp: receiver_step_def conserves_def in_hand_def)
  next
    case True
    with RxLoop step obtain n ds rx w1 where
      p: "RxQueue_poll_and_consume oc L X ?w (xk_rx_q ?x) (xk_descs ?x) ?ms = Ret (Inr n, ds, rx, w1)"
      by (auto simp: receiver_step_def rbind_Ret_iff split: prod.splits)
    let ?x1 = "?x\<lparr>xk_descs := ds, xk_rx_q := rx\<rparr>"
    obtain got where b1: "between w1 ?x1" and got: "length got = unat n" "unat n \<le> length (xk_descs ?x)"
      "ds = got @ drop (unat n) (xk_descs ?x)" "on_way ?w ?x = frames got + on_way w1 ?x1"
      using poll_and_consume_path [OF b(1) p] by blast
    have "size (frames got) \<le> size T" using got(4) b(2) by (metis size_union le_add1)
    then have n: "unat n \<le> size T" using got(1) by simp
    have "drop (size T) ds = drop (size T) (xk_descs ?x)" using got(1,3) n by simp
    then have ds: "length ds = length ds0" "drop (size T) ds = drop (size T) ds0" "take (unat n) ds = got"
      using got(1-3) b by simp_all
    show ?thesis
    proof (cases "n = 0")
      case True
      with p step RxLoop \<open>rv_total t < _\<close> obtain x2 w2 where "wake_fill L X w1 ?x1 ?ms = Ret (x2, w2)"
        and t': "t' = t\<lparr>rv_world := w2, rv_xsk := x2, rv_pc := if sender_done w2 then RxDone else RxLoop\<rparr>"
        by (auto simp: receiver_step_def rbind_Ret_iff Let_def split: prod.splits)
      with wake_fill_path [OF b1] got True b ds show ?thesis
        by (auto simp: conserves_def in_hand_def)
    next
      case False
      with p step RxLoop \<open>rv_total t < _\<close>
      have "t' = t\<lparr>rv_world := w1, rv_xsk := ?x1, rv_pc := RxRefill n\<rparr>"
        by (auto simp: receiver_step_def rbind_Ret_iff Let_def split: prod.splits)
      with b1 got b ds False show ?thesis by (auto simp: conserves_def in_hand_def)
    qed
  qed
next
  case (RxRefill n)
  let ?w = "rv_world t" and ?x = "rv_xsk t" and ?ms = "cf_poll_ms_timeout config"
  from RxRefill step obtain all x1 w1 where r: "refill oc L X ?w ?x n ?ms = Ret (all, x1, w1)"
    by (auto simp: receiver_step_def rbind_Ret_iff split: prod.splits)
  then have t': "rv_world t' = w1" "rv_xsk t' = x1" "rv_pc t' = (if all then RxLoop else RxRefill n)"
    using step RxRefill by (cases all; auto simp: receiver_step_def rbind_Ret_iff)+
  from c RxRefill have b: "between ?w ?x" "n \<noteq> 0" "length (xk_descs ?x) < 2 ^ 32"
    using len by (simp_all add: conserves_def)
  from refill_path [OF b(1) r b(2,3)] c RxRefill t' show ?thesis
    by (auto simp: conserves_def in_hand_def)
qed

lemma receiver_start_conserves:
  assumes b: "between w x" and way: "on_way w x = {#}" and len: "length (xk_descs x) < 2 ^ 32"
    and start: "receiver_start oc X rx_cfg there w x = Ret t"
    and n: "n = unat (QueueSize_get (xc_fq_size rx_cfg))"
  shows "conserves (frames (take n (xk_descs x))) (xk_descs x) t \<and> n \<le> length (xk_descs x)"
proof -
  let ?ds = "take n (xk_descs x)"
  from start obtain m fq w1 where p: "FillQueue_produce oc X w (xk_fq x) ?ds = Ret (m, fq, w1)"
    and le: "n \<le> length (xk_descs x)" and m: "unat m = n"
    and t: "t = \<lparr>rv_world = w1, rv_xsk = x\<lparr>xk_fq := fq\<rparr>, rv_total = 0, rv_pc = if there then RxLoop else RxDone\<rparr>"
    by (auto simp: receiver_start_def fill_first_def rbind_Ret_iff Let_def prefix_slice_Ret_iff n split: if_splits)
  have "length ?ds < 2 ^ 32" "size (frames ?ds) = n" using le len by simp_all
  with fill_path [OF b p] way le m show ?thesis
    by (auto simp: t conserves_def in_hand_def)
qed

lemma run_conserves:
  assumes "between w x" "on_way w x = {#}" "length (xk_descs x) < 2 ^ 32"
    and "receiver_start oc X rx_cfg there w x = Ret t0" "n = unat (QueueSize_get (xc_fq_size rx_cfg))"
    and "steps k (receiver_step oc L X sender_done config) t0 = Ret t"
  shows "conserves (frames (take n (xk_descs x))) (xk_descs x) t \<and> n \<le> length (xk_descs x)"
proof -
  note start = receiver_start_conserves [OF assms(1-5)]
  have "conserves (frames (take n (xk_descs x))) (xk_descs x) t"
  proof (rule steps_invariant [where I = "conserves (frames (take n (xk_descs x))) (xk_descs x)"])
    show "conserves (frames (take n (xk_descs x))) (xk_descs x) t0" using start by simp
  qed (use assms(3,6) in \<open>auto intro: receiver_step_conserves\<close>)
  with start show ?thesis by blast
qed

end

interpretation ref_receive: receive_path ref_libxdp ref_prod_ok "ref_queued rw_addrs" "ref_staged rw_addrs"
  ref_base ref_room ref_cons_ok "ref_avail rw_descs" "ref_held rw_descs" ref_cons_base
  "\<lambda>p c. p_at 100 p \<and> c_at 300 c" "\<lambda>_. {#}" frame "ref_kernel\<^sup>*\<^sup>*" ref_os for frame
  by (rule receive_path.intro [OF _ receive_path_axioms.intro])
    (simp_all add: ref_rx_path ref_os_syscalls)

section \<open>Properties\<close>

text \<open>
  C10: the receiving thread obeys the crate's rule for frames. In every state it reaches, each
  frame of its UMEM is in exactly one place: on the way through fill ring, kernel and receive
  ring, in the thread's hand (received and about to be given back), or among the descriptors
  that were never given away. So no frame is lost, none is given to the kernel twice, and none
  that the kernel has is touched. Assumed is the contract of the rings and that a system call
  moves frames along this way and neither makes nor loses one.
\<close>

theorem receiver_conserves_frames:
  assumes path: "receive_path X pinv queued staged pbase room cinv avail held cbase apart inside frame syscall L"
    and rings: "apart (fq_raw (xk_fq x)) (rx_raw (xk_rx_q x))" "pinv w (fq_raw (xk_fq x))" "cinv w (rx_raw (xk_rx_q x))"
    and empty: "queued w (fq_raw (xk_fq x)) = []" "staged w (fq_raw (xk_fq x)) = []" "inside w = {#}"
      "avail w (rx_raw (xk_rx_q x)) = []" "held w (rx_raw (xk_rx_q x)) = []"
    and len: "length (xk_descs x) < 2 ^ 32" and n: "n = unat (QueueSize_get (xc_fq_size rx_cfg))"
    and start: "receiver_start oc X rx_cfg there w x = Ret t0"
    and run: "steps k (receiver_step oc L X sender_done config) t0 = Ret t"
    and way: "way = path_frames frame (\<lambda>d. frame (xd_addr d)) queued inside avail (rv_world t)
      (fq_raw (xk_fq (rv_xsk t))) (rx_raw (xk_rx_q (rv_xsk t)))"
    and hand: "hand = image_mset (\<lambda>d. frame (fd_addr d)) (mset (in_hand t))"
  shows "way + hand + image_mset (\<lambda>d. frame (fd_addr d)) (mset (drop n (xk_descs (rv_xsk t))))
      = image_mset (\<lambda>d. frame (fd_addr d)) (mset (xk_descs x))
    \<and> drop n (xk_descs (rv_xsk t)) = drop n (xk_descs x)
    \<and> (distinct (map (\<lambda>d. frame (fd_addr d)) (xk_descs x)) \<longrightarrow> set_mset way \<inter> set_mset hand = {})"
proof -
  let ?f = "\<lambda>d. frame (fd_addr d)"
  have s: "path_settled pinv staged cinv held apart w (fq_raw (xk_fq x)) (rx_raw (xk_rx_q x))"
    using rings empty by (simp add: path_settled_def)
  have "path_frames frame (\<lambda>d. frame (xd_addr d)) queued inside avail w (fq_raw (xk_fq x)) (rx_raw (xk_rx_q x)) = {#}"
    using empty by (simp add: path_frames_def)
  from receive_path.run_conserves [OF path s this len start n run]
  have c: "way + hand = image_mset ?f (mset (take n (xk_descs x)))" "n \<le> length (xk_descs x)"
    "drop n (xk_descs (rv_xsk t)) = drop n (xk_descs x)"
    by (auto simp: receive_path.conserves_def [OF path] way hand min_absorb2)
  have all: "image_mset ?f (mset (take n (xk_descs x))) + image_mset ?f (mset (drop n (xk_descs x)))
      = image_mset ?f (mset (xk_descs x))"
    by (metis append_take_drop_id image_mset_union mset_append)
  have "set_mset way \<inter> set_mset hand = {}" if "distinct (map ?f (xk_descs x))"
  proof -
    have "distinct (map ?f (take n (xk_descs x)))" using that by (simp add: distinct_take flip: take_map)
    then have one: "count (way + hand) i \<le> 1" for i
      by (rule frames_once) (simp add: c(1))
    show ?thesis
    proof (rule equals0I)
      fix i assume "i \<in> set_mset way \<inter> set_mset hand"
      then have "0 < count way i" "0 < count hand i" by simp_all
      with one [of i] show False by simp
    qed
  qed
  with c all show ?thesis by simp
qed

text \<open>Two frames of three are filled; after one poll the kernel has delivered the first.\<close>

definition ref_descs :: "FrameDesc list" where
  "ref_descs = map FrameDesc_new [256, 2304, 4352]"

definition ref_receiver_at :: "nat \<Rightarrow> ref_world receiver rust" where
  "ref_receiver_at k = rbind (receiver_start False ref_libxdp ref_xsk_config True ref_zero (ref_xsk ref_descs))
     (steps k (receiver_step False ref_os ref_libxdp (\<lambda>_. False) ref_config))"

lemma ref_receiver_pc:
  "(case ref_receiver_at 1 of Ret t \<Rightarrow> rv_pc t = RxRefill 1 | _ \<Rightarrow> False)"
  by code_simp

theorem receiver_conserves_frames_witness:
  "\<exists>t. ref_receiver_at 1 = Ret t \<and> rv_pc t = RxRefill 1
    \<and> path_frames unat (\<lambda>d. unat (xd_addr d)) (ref_queued rw_addrs) (\<lambda>_. {#}) (ref_avail rw_descs) (rv_world t)
        (fq_raw (xk_fq (rv_xsk t))) (rx_raw (xk_rx_q (rv_xsk t)))
      + image_mset (\<lambda>d. unat (fd_addr d)) (mset (in_hand t)) + {#4352#} = {#256, 2304, 4352#}"
proof -
  let ?x = "ref_xsk ref_descs"
  obtain t where at: "ref_receiver_at 1 = Ret t" and pc: "rv_pc t = RxRefill 1"
    using ref_receiver_pc by (auto split: rust.splits)
  then obtain t0 where start: "receiver_start False ref_libxdp ref_xsk_config True ref_zero ?x = Ret t0"
    and run: "steps 1 (receiver_step False ref_os ref_libxdp (\<lambda>_. False) ref_config) t0 = Ret t"
    by (auto simp: ref_receiver_at_def rbind_Ret_iff)
  have avail: "ref_avail rw_descs ref_zero (ref_cons 300) = []"
    by (simp add: ref_avail_def c_avail_def ref_zero_def ref_cons_def)
  have x: "xk_fq ?x = FillQueue_new (XskRingProd (ref_prod 100)) ref_umem"
    "rx_ring (xk_rx_q ?x) = XskRingCons (ref_cons 300)" "xk_descs ?x = ref_descs"
    by (simp_all add: ref_xsk_def Let_def RxQueue_new_def)
  have len: "length ref_descs < 2 ^ 32" by (simp add: ref_descs_def)
  have two: "2 = unat (QueueSize_get (xc_fq_size ref_xsk_config))" by (simp add: ref_xsk_config_def)
  from receiver_conserves_frames [OF ref_receive.receive_path_axioms [of unat] _ _ _ _ _ _ _ _ _ two start run refl refl]
  have "path_frames unat (\<lambda>d. unat (xd_addr d)) (ref_queued rw_addrs) (\<lambda>_. {#}) (ref_avail rw_descs) (rv_world t)
        (fq_raw (xk_fq (rv_xsk t))) (rx_raw (xk_rx_q (rv_xsk t)))
      + image_mset (\<lambda>d. unat (fd_addr d)) (mset (in_hand t))
      + image_mset (\<lambda>d. unat (fd_addr d)) (mset (drop 2 ref_descs)) = image_mset (\<lambda>d. unat (fd_addr d)) (mset ref_descs)"
    using avail len by (auto simp: x FillQueue_new_def)
  with at pc show ?thesis by (simp add: ref_descs_def FrameDesc_new_def)
qed

end
