(* ===== verification/Xsk_Receiver_Progress.thy ===== *)
theory Xsk_Receiver_Progress
  imports Xsk_Receiver
begin

text \<open>
  The receiving thread of \<^verbatim>\<open>examples/dev1_to_dev2.rs\<close> comes to an end once the sending one has
  set its flag: then a poll without a frame ends the loop, and every other turn takes frames
  that are counted. Without the flag and without traffic it stays in its loop for ever.
\<close>

section \<open>A kernel that can be polled\<close>

text \<open>A kernel to which no frame comes.\<close>

definition nothing_arrives :: "('w \<Rightarrow> 'p \<Rightarrow> 'c \<Rightarrow> bool) \<Rightarrow> ('w \<Rightarrow> 'c \<Rightarrow> 'f list) \<Rightarrow> 'w libc \<Rightarrow> bool" where
  "nothing_arrives settled avail L \<longleftrightarrow> (\<forall>w p c pf one ms r pf' w'. settled w p c \<longrightarrow> avail w c = [] \<longrightarrow>
     poll L w pf one ms = (r, pf', w') \<longrightarrow> avail w' c = [])"

text \<open>
  The documented behaviour: a fill ring takes as many addresses as it has slots, and \<open>poll\<close>
  does not fail, or is interrupted.
\<close>

locale receive_progress = receive_path X pinv queued staged pbase room cinv avail held cbase apart inside frame syscall L
  for X :: "'w libxdp" and pinv queued staged pbase room cinv avail held cbase apart inside
    and frame :: "u64 \<Rightarrow> nat" and syscall and L :: "'w libc" +
  fixes capacity :: nat
  assumes capacity: "settled w p c \<Longrightarrow> room w p + length (queued w p) = capacity"
    and polls: "settled w p c \<Longrightarrow> poll L w pf one ms = (r, pf', w') \<Longrightarrow> 0 \<le> sint r \<or> get_errno L w' = EINTR L"
begin

lemmas fill_outcome = fill_ring.produce_outcome [OF fill_ring.intro [OF prod_ring_axioms]]
lemmas recv_outcome = recv_ring.consume_outcome [OF recv_ring.intro [OF cons.cons_ring_axioms]]

text \<open>The calls of one turn do not fail.\<close>

lemma poll_read_succeeds:
  assumes "settled w p c"
  shows "\<exists>ready f' w'. Fd_poll_read L w f ms = (Inr ready, f', w')"
proof -
  obtain r pf w' where poll: "poll L w (PollFd_raw (f_pollfd_read f)) 1 ms = (r, pf, w')" by (rule prod_cases3)
  from polls [OF assms poll] show ?thesis
    by (auto simp: Fd_poll_read_def PollFd_poll_def poll not_less)
qed

lemma poll_and_consume_succeeds:
  assumes b: "between w x"
  shows "\<exists>n ds rx w'. RxQueue_poll_and_consume False L X w (xk_rx_q x) (xk_descs x) ms = Ret (Inr n, ds, rx, w')"
proof -
  obtain ready f w1 where poll: "Fd_poll_read L w (so_fd (rx_socket (xk_rx_q x))) ms = (Inr ready, f, w1)"
    using poll_read_succeeds [OF b] by blast
  let ?rx = "(xk_rx_q x)\<lparr>rx_socket := (rx_socket (xk_rx_q x))\<lparr>so_fd := f\<rparr>\<rparr>"
  have "settled w1 (fq_raw (xk_fq x)) (rx_raw ?rx)" using poll_read_path [OF b poll] by simp
  then have "cinv w1 (rx_raw ?rx) \<and> held w1 (rx_raw ?rx) = []" by (simp add: path_settled_def)
  from recv_outcome [OF this, of "xk_descs x"] show ?thesis
    by (cases ready) (auto simp: RxQueue_poll_and_consume_def RxQueue_poll_def poll)
qed

lemma wake_fill_succeeds:
  assumes b: "between w x"
  shows "\<exists>x' w'. wake_fill L X w x ms = Ret (x', w')"
proof -
  obtain ready f w1 where "Fd_poll_read L w (RxQueue_fd_mut (xk_rx_q x)) ms = (Inr ready, f, w1)"
    using poll_read_succeeds [OF b] by blast
  then show ?thesis by (simp add: wake_fill_def FillQueue_wakeup_def unwrap_def)
qed

lemma refill_succeeds:
  assumes b: "between w x" and n: "unat n \<le> length (xk_descs x)" "length (xk_descs x) < 2 ^ 32"
    and fits: "size (on_way w x) + unat n \<le> capacity"
  shows "\<exists>x' w'. refill False L X w x n ms = Ret (True, x', w')"
proof -
  let ?ds = "take (unat n) (xk_descs x)" and ?q = "xk_fq x"
  have len: "unat n = length ?ds mod 2 ^ 32" using n by simp
  have "length (queued w (fq_raw ?q)) \<le> size (on_way w x)" by (simp add: path_frames_def)
  with fits capacity [OF b] have room: "unat n \<le> room w (fq_raw ?q)" by simp
  have "pinv w (fq_raw ?q) \<and> staged w (fq_raw ?q) = []" using b by (simp add: path_settled_def)
  from fill_outcome [OF this len] room obtain m q1 w1 where
    sub: "FillQueue_produce False X w ?q ?ds = Ret (m, q1, w1)" "unat m = unat n" by (auto split: if_splits)
  then have m: "m = n" by (auto intro: unsigned_word_eqI)
  have "settled w1 (fq_raw q1) (rx_raw (xk_rx_q x))" using fill_path [OF b sub(1)] n by simp
  from poll_read_succeeds [OF this] obtain ready f w2 where
    "Fd_poll_read L w1 (RxQueue_fd_mut (xk_rx_q x)) ms = (Inr ready, f, w2)" by blast
  then have "\<exists>fd w3. FillQueue_wakeup_after L X w1 q1 (RxQueue_fd_mut (xk_rx_q x)) ms n = (Inr n, q1, fd, w3)"
    by (simp add: FillQueue_wakeup_after_def FillQueue_wakeup_def)
  with sub m n(1) show ?thesis
    by (auto simp: refill_def prefix_slice_def FillQueue_produce_and_wakeup_def unwrap_def)
qed

section \<open>With the flag set\<close>

text \<open>What is left to do: the packets not yet counted, each worth taking and giving back a frame.\<close>

definition left :: "Config \<Rightarrow> 'w receiver \<Rightarrow> nat" where
  "left config t = 2 * (unat (cf_num_packets_to_send config) - unat (rv_total t))
     + (case rv_pc t of RxLoop \<Rightarrow> 1 | _ \<Rightarrow> 0)"

definition counting :: "nat multiset \<Rightarrow> FrameDesc list \<Rightarrow> Config \<Rightarrow> 'w receiver \<Rightarrow> bool" where
  "counting T ds0 config t \<longleftrightarrow> conserves T ds0 t
     \<and> (\<forall>n. rv_pc t = RxRefill n \<longrightarrow> rv_total t < cf_num_packets_to_send config)"

lemma refill_step:
  assumes c: "counting T ds0 config t" and pc: "rv_pc t = RxRefill n" and T: "size T \<le> capacity" and len: "length ds0 < 2 ^ 32"
    and big: "unat (cf_num_packets_to_send config) + size T < 2 ^ 64"
  shows "\<exists>t'. receiver_step False L X flag config t = Ret t' \<and> rv_pc t' = RxLoop \<and> left config t' < left config t"
proof -
  let ?x = "rv_xsk t"
  have k: "between (rv_world t) ?x" "n \<noteq> 0" "unat n \<le> length (xk_descs ?x)" "length (xk_descs ?x) < 2 ^ 32"
    "on_way (rv_world t) ?x + frames (take (unat n) (xk_descs ?x)) = T" "rv_total t < cf_num_packets_to_send config"
    using c pc len by (simp_all add: counting_def conserves_def in_hand_def)
  have T': "size (on_way (rv_world t) ?x) + unat n = size T" using k(3) arg_cong [OF k(5), of size] by simp
  from refill_succeeds [OF k(1,3,4)] T T' obtain x' w' where
    r: "refill False L X (rv_world t) ?x n (cf_poll_ms_timeout config) = Ret (True, x', w')" by force
  have pos: "0 < unat n" using k(2) by (simp add: unat_gt_0)
  have "unat (rv_total t) + unat n < 2 ^ 64" using k(6) T' big by (simp add: word_less_nat_alt)
  then have "unat (rv_total t + n) = unat (rv_total t) + unat n" by (simp add: unat_add_lem [THEN iffD1])
  with r pc k(6) pos show ?thesis
    by (simp add: receiver_step_def add_oc_def left_def word_less_nat_alt)
qed

lemma loop_step:
  assumes c: "counting T ds0 config t" and pc: "rv_pc t = RxLoop"
  shows "\<exists>t'. receiver_step False L X flag config t = Ret t' \<and> rv_total t' = rv_total t
    \<and> (rv_pc t' = RxLoop \<and> (\<exists>w. \<not> flag w) \<or> rv_pc t' = RxDone
      \<or> (\<exists>n. rv_pc t' = RxRefill n) \<and> rv_total t < cf_num_packets_to_send config)"
proof (cases "rv_total t < cf_num_packets_to_send config")
  case False
  with pc show ?thesis by (simp add: receiver_step_def)
next
  case True
  let ?x = "rv_xsk t" and ?ms = "cf_poll_ms_timeout config"
  have b: "between (rv_world t) ?x" using c by (simp add: counting_def conserves_def)
  obtain n ds rx w1 where
    p: "RxQueue_poll_and_consume False L X (rv_world t) (xk_rx_q ?x) (xk_descs ?x) ?ms = Ret (Inr n, ds, rx, w1)"
    using poll_and_consume_succeeds [OF b] by blast
  have "between w1 (?x\<lparr>xk_descs := ds, xk_rx_q := rx\<rparr>)" using poll_and_consume_path [OF b p] by blast
  from wake_fill_succeeds [OF this] obtain x2 w2 where
    "wake_fill L X w1 (?x\<lparr>xk_descs := ds, xk_rx_q := rx\<rparr>) ?ms = Ret (x2, w2)" by blast
  with p pc True show ?thesis
    by (cases "n = 0"; cases "flag w2") (auto simp: receiver_step_def unwrap_def Let_def)
qed

lemma finishing_step:
  assumes c: "counting T ds0 config t" and T: "size T \<le> capacity" and len: "length ds0 < 2 ^ 32"
    and big: "unat (cf_num_packets_to_send config) + size T < 2 ^ 64"
  shows "\<exists>t'. receiver_step False L X (\<lambda>_. True) config t = Ret t' \<and> counting T ds0 config t'
    \<and> (if rv_pc t = RxDone then t' = t else left config t' < left config t)"
proof (cases "rv_pc t")
  case RxDone
  with c show ?thesis by (simp add: receiver_step_def)
next
  case (RxRefill n)
  from refill_step [OF c RxRefill T len big] obtain t' where
    t': "receiver_step False L X (\<lambda>_. True) config t = Ret t'" "rv_pc t' = RxLoop" "left config t' < left config t" by blast
  have "conserves T ds0 t'" using receiver_step_conserves [OF _ len t'(1)] c by (simp add: counting_def)
  with t' RxRefill show ?thesis by (simp add: counting_def)
next
  case RxLoop
  from loop_step [OF c RxLoop, of "\<lambda>_. True"] obtain t' where
    t': "receiver_step False L X (\<lambda>_. True) config t = Ret t'" "rv_total t' = rv_total t"
      "rv_pc t' = RxDone \<or> (\<exists>n. rv_pc t' = RxRefill n) \<and> rv_total t < cf_num_packets_to_send config" by auto
  have "conserves T ds0 t'" using receiver_step_conserves [OF _ len t'(1)] c by (simp add: counting_def)
  with t' RxLoop show ?thesis by (auto simp: counting_def left_def)
qed

text \<open>Whatever the flag was before, the thread has not panicked and counts below the target while it refills.\<close>

lemma any_step:
  assumes c: "counting T ds0 config t" and T: "size T \<le> capacity" and len: "length ds0 < 2 ^ 32"
    and big: "unat (cf_num_packets_to_send config) + size T < 2 ^ 64"
  shows "\<exists>t'. receiver_step False L X flag config t = Ret t' \<and> counting T ds0 config t'"
proof (cases "rv_pc t")
  case RxDone
  with c show ?thesis by (simp add: receiver_step_def)
next
  case (RxRefill n)
  from refill_step [OF c RxRefill T len big, of flag] obtain t' where
    t': "receiver_step False L X flag config t = Ret t'" "rv_pc t' = RxLoop" by blast
  have "conserves T ds0 t'" using receiver_step_conserves [OF _ len t'(1)] c by (simp add: counting_def)
  with t' show ?thesis by (simp add: counting_def)
next
  case RxLoop
  from loop_step [OF c RxLoop, of flag] obtain t' where
    t': "receiver_step False L X flag config t = Ret t'" "rv_total t' = rv_total t"
      "rv_pc t' = RxLoop \<or> rv_pc t' = RxDone \<or> (\<exists>n. rv_pc t' = RxRefill n) \<and> rv_total t < cf_num_packets_to_send config" by auto
  have "conserves T ds0 t'" using receiver_step_conserves [OF _ len t'(1)] c by (simp add: counting_def)
  with t' show ?thesis by (auto simp: counting_def)
qed

lemma run_returns:
  assumes c: "counting T ds0 config t" and T: "size T \<le> capacity" and len: "length ds0 < 2 ^ 32"
    and big: "unat (cf_num_packets_to_send config) + size T < 2 ^ 64"
  shows "\<exists>t'. steps k (receiver_step False L X flag config) t = Ret t' \<and> counting T ds0 config t'"
proof (induction k)
  case 0
  with c show ?case by simp
next
  case (Suc k)
  then obtain t' where t': "steps k (receiver_step False L X flag config) t = Ret t'" "counting T ds0 config t'" by blast
  from any_step [OF t'(2) T len big, of flag] t'(1) show ?case
    by (auto simp: steps_Suc_end simp del: steps.simps(2))
qed

lemma receiver_start_succeeds:
  assumes b: "between w x" and empty: "on_way w x = {#}" and len: "length (xk_descs x) < 2 ^ 32"
    and n: "n = unat (QueueSize_get (xc_fq_size rx_cfg))" "n \<le> capacity" "n \<le> length (xk_descs x)"
  shows "\<exists>t. receiver_start False X rx_cfg there w x = Ret t"
proof -
  let ?ds = "take n (xk_descs x)" and ?size = "ucast (QueueSize_get (xc_fq_size rx_cfg)) :: usize"
  have ds: "n = length ?ds mod 2 ^ 32" using n(3) len by simp
  have "queued w (fq_raw (xk_fq x)) = []" using empty by (simp add: path_frames_def)
  with capacity [OF b] n(2) have room: "n \<le> room w (fq_raw (xk_fq x))" by simp
  have "pinv w (fq_raw (xk_fq x)) \<and> staged w (fq_raw (xk_fq x)) = []" using b by (simp add: path_settled_def)
  from fill_outcome [OF this ds] room obtain m q w1 where
    sub: "FillQueue_produce False X w (xk_fq x) ?ds = Ret (m, q, w1)" "unat m = n" by (auto split: if_splits)
  have size: "unat ?size = n" by (simp add: n(1))
  then have "unat m = unat ?size" using sub(2) by simp
  then have "m = ?size" by (rule unsigned_word_eqI)
  with sub(1) size n(3) show ?thesis
    by (simp add: receiver_start_def fill_first_def prefix_slice_def Let_def)
qed

lemma receiver_reaches_end:
  assumes b: "between w x" and empty: "on_way w x = {#}" and len: "length (xk_descs x) < 2 ^ 32"
    and n: "n = unat (QueueSize_get (xc_fq_size rx_cfg))" "n \<le> capacity" "n \<le> length (xk_descs x)"
    and big: "unat (cf_num_packets_to_send config) + n < 2 ^ 64"
    and k: "2 * unat (cf_num_packets_to_send config) + 1 \<le> k"
  shows "\<exists>t0 t t'. receiver_start False X rx_cfg there w x = Ret t0
    \<and> steps j (receiver_step False L X flag config) t0 = Ret t
    \<and> steps k (receiver_step False L X (\<lambda>_. True) config) t = Ret t' \<and> rv_pc t' = RxDone"
proof -
  let ?T = "frames (take n (xk_descs x))"
  obtain t0 where start: "receiver_start False X rx_cfg there w x = Ret t0"
    using receiver_start_succeeds [OF b empty len n] by blast
  note T = receiver_start_conserves [OF b empty len start n(1)]
  then have size: "size ?T = n" by (simp add: min_absorb2)
  have "\<forall>m. rv_pc t0 \<noteq> RxRefill m" using start by (auto simp: receiver_start_def rbind_Ret_iff split: if_splits)
  with T have c0: "counting ?T (xk_descs x) config t0" by (simp add: counting_def)
  from run_returns [OF c0 _ len] n(2) big size obtain t where
    t: "steps j (receiver_step False L X flag config) t0 = Ret t" "counting ?T (xk_descs x) config t" by auto
  have "\<exists>t'. steps k (receiver_step False L X (\<lambda>_. True) config) t = Ret t'
      \<and> counting ?T (xk_descs x) config t' \<and> rv_pc t' = RxDone"
  proof (rule steps_reach [where m = "left config"])
    fix t assume c: "counting ?T (xk_descs x) config t"
    show "\<exists>t'. receiver_step False L X (\<lambda>_. True) config t = Ret t' \<and> counting ?T (xk_descs x) config t'
        \<and> (if rv_pc t = RxDone then t' = t else left config t' < left config t)"
      using finishing_step [OF c _ len] n(2) big size by simp
    show "left config t = 0 \<Longrightarrow> rv_pc t = RxDone"
      using c by (auto simp: left_def counting_def word_less_nat_alt split: rx_pc.splits)
  next
    show "left config t \<le> k" using k by (auto simp: left_def split: rx_pc.split)
  qed (rule t(2))
  with start t(1) show ?thesis by blast
qed

section \<open>Without the flag\<close>

text \<open>When no frame ever arrives, a turn only polls and perhaps wakes the kernel.\<close>

definition idle_rx :: "'w \<Rightarrow> Xsk \<Rightarrow> bool" where
  "idle_rx w x \<longleftrightarrow> between w x \<and> avail w (rx_raw (xk_rx_q x)) = []"

lemma idle_poll:
  assumes quiet: "nothing_arrives settled avail L"
    and i: "settled w p c" "avail w c = []" and poll: "Fd_poll_read L w f ms = (r, f', w')"
  shows "settled w' p c \<and> avail w' c = []"
proof -
  from poll obtain pf n ms' ret pf' where "poll L w pf n ms' = (ret, pf', w')"
    by (auto simp: Fd_poll_read_def PollFd_poll_def Let_def split: prod.splits if_splits)
  with quiet i have "avail w' c = []" unfolding nothing_arrives_def by blast
  with poll_read_path [OF i(1) poll] show ?thesis by simp
qed

lemma idle_step:
  assumes quiet: "nothing_arrives settled avail L"
    and i: "idle_rx (rv_world t) (rv_xsk t)" and pc: "rv_pc t = RxLoop"
    and more: "rv_total t < cf_num_packets_to_send config"
  shows "\<exists>t'. receiver_step False L X (\<lambda>_. False) config t = Ret t' \<and> idle_rx (rv_world t') (rv_xsk t')
    \<and> rv_pc t' = RxLoop \<and> rv_total t' = rv_total t"
proof -
  let ?x = "rv_xsk t" and ?ms = "cf_poll_ms_timeout config"
  have s: "settled (rv_world t) (fq_raw (xk_fq ?x)) (rx_raw (xk_rx_q ?x))" "avail (rv_world t) (rx_raw (xk_rx_q ?x)) = []"
    using i by (simp_all add: idle_rx_def)
  obtain ready f w1 where poll: "Fd_poll_read L (rv_world t) (so_fd (rx_socket (xk_rx_q ?x))) ?ms = (Inr ready, f, w1)"
    using poll_read_succeeds [OF s(1)] by blast
  note s1 = idle_poll [OF quiet s poll]
  let ?rx = "(xk_rx_q ?x)\<lparr>rx_socket := (rx_socket (xk_rx_q ?x))\<lparr>so_fd := f\<rparr>\<rparr>"
  have "cinv w1 (rx_raw ?rx) \<and> held w1 (rx_raw ?rx) = []" using s1 by (simp add: path_settled_def)
  from recv_outcome [OF this, of "xk_descs ?x"] s1 obtain q w2 where
    c: "RxQueue_consume False X w1 ?rx (xk_descs ?x) = Ret (0, xk_descs ?x, q, w2)" and a2: "avail w2 (rx_raw q) = []" by auto
  have s2: "settled w2 (fq_raw (xk_fq ?x)) (rx_raw q)" using consume_rx_path [OF _ c] s1 by simp
  have "\<exists>rx w'. RxQueue_poll_and_consume False L X (rv_world t) (xk_rx_q ?x) (xk_descs ?x) ?ms = Ret (Inr 0, xk_descs ?x, rx, w')
      \<and> settled w' (fq_raw (xk_fq ?x)) (rx_raw rx) \<and> avail w' (rx_raw rx) = []"
    using c a2 s2 s1 by (cases ready) (simp_all add: RxQueue_poll_and_consume_def RxQueue_poll_def poll)
  then obtain rx w' where p: "RxQueue_poll_and_consume False L X (rv_world t) (xk_rx_q ?x) (xk_descs ?x) ?ms
      = Ret (Inr 0, xk_descs ?x, rx, w')" and s3: "settled w' (fq_raw (xk_fq ?x)) (rx_raw rx)" "avail w' (rx_raw rx) = []"
    by blast
  let ?x1 = "?x\<lparr>xk_descs := xk_descs ?x, xk_rx_q := rx\<rparr>"
  obtain r3 f3 w3 where p3: "Fd_poll_read L w' (so_fd (rx_socket rx)) ?ms = (Inr r3, f3, w3)"
    using poll_read_succeeds [OF s3(1)] by blast
  then have "\<exists>x2 w4. wake_fill L X w' ?x1 ?ms = Ret (x2, w4) \<and> idle_rx w4 x2"
    using idle_poll [OF quiet s3 p3] s3
    by (simp add: wake_fill_def FillQueue_wakeup_def RxQueue_fd_mut_def RxQueue_fd_mut_back_def unwrap_def idle_rx_def)
  with p pc more show ?thesis by (auto simp: receiver_step_def unwrap_def)
qed

lemma idle_run:
  assumes quiet: "nothing_arrives settled avail L"
    and i: "idle_rx (rv_world t) (rv_xsk t)" "rv_pc t = RxLoop" "rv_total t < cf_num_packets_to_send config"
  shows "\<exists>t'. steps k (receiver_step False L X (\<lambda>_. False) config) t = Ret t' \<and> idle_rx (rv_world t') (rv_xsk t')
    \<and> rv_pc t' = RxLoop \<and> rv_total t' = rv_total t"
proof (induction k)
  case 0
  with i show ?case by simp
next
  case (Suc k)
  then obtain t' where t': "steps k (receiver_step False L X (\<lambda>_. False) config) t = Ret t'"
    "idle_rx (rv_world t') (rv_xsk t')" "rv_pc t' = RxLoop" "rv_total t' = rv_total t" by blast
  from idle_step [OF quiet t'(2,3)] t'(1,4) i(3) show ?case
    by (auto simp: steps_Suc_end simp del: steps.simps(2))
qed

lemma start_idle:
  assumes b: "between w x" and empty: "on_way w x = {#}" and len: "length (xk_descs x) < 2 ^ 32"
    and n: "n = unat (QueueSize_get (xc_fq_size rx_cfg))" "n \<le> capacity" "n \<le> length (xk_descs x)"
    and start: "receiver_start False X rx_cfg there w x = Ret t"
  shows "idle_rx (rv_world t) (rv_xsk t)"
proof -
  let ?ds = "take n (xk_descs x)"
  from start obtain m fq w1 where p: "FillQueue_produce False X w (xk_fq x) ?ds = Ret (m, fq, w1)"
    and t: "rv_world t = w1" "rv_xsk t = x\<lparr>xk_fq := fq\<rparr>"
    by (auto simp: receiver_start_def fill_first_def rbind_Ret_iff Let_def prefix_slice_Ret_iff n(1) split: if_splits)
  have ds: "n = length ?ds mod 2 ^ 32" "length ?ds < 2 ^ 32" using n(3) len by simp_all
  have q0: "queued w (fq_raw (xk_fq x)) = []" using empty by (simp add: path_frames_def)
  with capacity [OF b] n(2) have room: "n \<le> room w (fq_raw (xk_fq x))" by simp
  have "pinv w (fq_raw (xk_fq x)) \<and> staged w (fq_raw (xk_fq x)) = []" using b by (simp add: path_settled_def)
  from fill_outcome [OF this ds(1)] room p q0 n(3) have q: "length (queued w1 (fq_raw fq)) = n"
    by (auto split: if_splits)
  note f = fill_path [OF b p ds(2)]
  then have "size (path w1 (fq_raw fq) (rx_raw (xk_rx_q x))) \<le> n" using empty n(3) by auto
  with q have "avail w1 (rx_raw (xk_rx_q x)) = []" by (simp add: path_frames_def)
  with f t show ?thesis by (simp add: idle_rx_def)
qed

end

section \<open>The reference kernel\<close>

lemma ref_receive_progress:
  "receive_progress ref_libxdp ref_prod_ok (ref_queued rw_addrs) (ref_staged rw_addrs) ref_base ref_room
     ref_cons_ok (ref_avail rw_descs) (ref_held rw_descs) ref_cons_base (\<lambda>p c. p_at 100 p \<and> c_at 300 c)
     (\<lambda>_. {#}) frame ref_kernel\<^sup>*\<^sup>* ref_os 4"
proof (rule receive_progress.intro [OF ref_receive.receive_path_axioms], unfold_locales)
  fix w p c
  assume "path_settled ref_prod_ok (ref_staged rw_addrs) ref_cons_ok (ref_held rw_descs) (\<lambda>p c. p_at 100 p \<and> c_at 300 c) w p c"
  then have "p_at 100 p" "ref_prod_ok w p" "ref_staged rw_addrs w p = []" by (simp_all add: path_settled_def)
  then show "ref_room w p + length (ref_queued rw_addrs w p) = 4"
    by (simp add: ref_room_def ref_queued_def no_staged ref_prod_ok_def p_at_def)
qed (auto simp: ref_os_def)

interpretation ref_rx_progress: receive_progress ref_libxdp ref_prod_ok "ref_queued rw_addrs" "ref_staged rw_addrs"
  ref_base ref_room ref_cons_ok "ref_avail rw_descs" "ref_held rw_descs" ref_cons_base
  "\<lambda>p c. p_at 100 p \<and> c_at 300 c" "\<lambda>_. {#}" frame "ref_kernel\<^sup>*\<^sup>*" ref_os 4 for frame
  by (rule ref_receive_progress)

text \<open>The plain interface, on which nothing ever arrives.\<close>

lemma ref_quiet_progress:
  "receive_progress ref_libxdp ref_prod_ok (ref_queued rw_addrs) (ref_staged rw_addrs) ref_base ref_room
     ref_cons_ok (ref_avail rw_descs) (ref_held rw_descs) ref_cons_base (\<lambda>p c. p_at 100 p \<and> c_at 300 c)
     (\<lambda>_. {#}) frame ref_kernel\<^sup>*\<^sup>* ref_libc 4"
proof (rule receive_progress.intro)
  show "receive_path ref_libxdp ref_prod_ok (ref_queued rw_addrs) (ref_staged rw_addrs) ref_base ref_room
     ref_cons_ok (ref_avail rw_descs) (ref_held rw_descs) ref_cons_base (\<lambda>p c. p_at 100 p \<and> c_at 300 c)
     (\<lambda>_. {#}) frame ref_kernel\<^sup>*\<^sup>* ref_libc"
    by (rule receive_path.intro [OF ref_receive.frame_path_axioms receive_path_axioms.intro]) (simp add: ref_libc_def)
qed (unfold_locales, rule ref_rx_progress.capacity, auto simp: ref_libc_def)

lemma ref_start_state:
  fixes ds
  defines "x \<equiv> ref_xsk ds"
  shows "p_at 100 (fq_raw (xk_fq x)) \<and> c_at 300 (rx_raw (xk_rx_q x))" "ref_prod_ok ref_zero (fq_raw (xk_fq x))"
    "ref_cons_ok ref_zero (rx_raw (xk_rx_q x))" "ref_queued rw_addrs ref_zero (fq_raw (xk_fq x)) = []"
    "ref_staged rw_addrs ref_zero (fq_raw (xk_fq x)) = []" "ref_avail rw_descs ref_zero (rx_raw (xk_rx_q x)) = []"
    "ref_held rw_descs ref_zero (rx_raw (xk_rx_q x)) = []" "xk_descs x = ds"
proof -
  have avail: "ref_avail rw_descs ref_zero (ref_cons 300) = []"
    by (simp add: ref_avail_def c_avail_def ref_zero_def ref_cons_def)
  show "p_at 100 (fq_raw (xk_fq x)) \<and> c_at 300 (rx_raw (xk_rx_q x))" "ref_prod_ok ref_zero (fq_raw (xk_fq x))"
    "ref_cons_ok ref_zero (rx_raw (xk_rx_q x))" "ref_queued rw_addrs ref_zero (fq_raw (xk_fq x)) = []"
    "ref_staged rw_addrs ref_zero (fq_raw (xk_fq x)) = []" "ref_avail rw_descs ref_zero (rx_raw (xk_rx_q x)) = []"
    "ref_held rw_descs ref_zero (rx_raw (xk_rx_q x)) = []" "xk_descs x = ds"
    by (simp_all add: x_def ref_xsk_def Let_def RxQueue_new_def FillQueue_new_def avail)
qed

section \<open>Properties\<close>

text \<open>
  C16: the receiving thread finishes once the flag is set. Let the fill batch fit into the fill ring
  and let polling not fail. Then a release build gets through its start and any number of turns
  without a panic, whatever the flag says, and from wherever it then is, with the flag set, at most
  \<open>2 * num_packets_to_send + 1\<close> turns bring it to its end.
\<close>

theorem receiver_finishes:
  assumes kernel: "receive_progress X pinv queued staged pbase room cinv avail held cbase apart inside frame syscall L capacity"
    and rings: "apart (fq_raw (xk_fq x)) (rx_raw (xk_rx_q x))" "pinv w (fq_raw (xk_fq x))" "cinv w (rx_raw (xk_rx_q x))"
    and empty: "queued w (fq_raw (xk_fq x)) = []" "staged w (fq_raw (xk_fq x)) = []" "inside w = {#}"
      "avail w (rx_raw (xk_rx_q x)) = []" "held w (rx_raw (xk_rx_q x)) = []"
    and len: "length (xk_descs x) < 2 ^ 32"
    and n: "n = unat (QueueSize_get (xc_fq_size rx_cfg))" "n \<le> capacity" "n \<le> length (xk_descs x)"
    and big: "unat (cf_num_packets_to_send config) + n < 2 ^ 64"
    and k: "2 * unat (cf_num_packets_to_send config) + 1 \<le> k"
  shows "\<exists>t0 t t'. receiver_start False X rx_cfg there w x = Ret t0
    \<and> steps j (receiver_step False L X flag config) t0 = Ret t
    \<and> steps k (receiver_step False L X (\<lambda>_. True) config) t = Ret t' \<and> rv_pc t' = RxDone"
proof -
  have s: "path_settled pinv staged cinv held apart w (fq_raw (xk_fq x)) (rx_raw (xk_rx_q x))"
    using rings empty by (simp add: path_settled_def)
  have "path_frames frame (\<lambda>d. frame (xd_addr d)) queued inside avail w (fq_raw (xk_fq x)) (rx_raw (xk_rx_q x)) = {#}"
    using empty by (simp add: path_frames_def)
  from receive_progress.receiver_reaches_end [OF kernel s this len n big k] show ?thesis .
qed

text \<open>Two turns without the flag, then the flag is set: seven more are enough.\<close>

theorem receiver_finishes_witness:
  "\<exists>t0 t t'. receiver_start False ref_libxdp ref_xsk_config True ref_zero (ref_xsk ref_descs) = Ret t0
    \<and> steps 2 (receiver_step False ref_os ref_libxdp (\<lambda>_. False) ref_config) t0 = Ret t
    \<and> steps 7 (receiver_step False ref_os ref_libxdp (\<lambda>_. True) ref_config) t = Ret t' \<and> rv_pc t' = RxDone"
proof -
  have n: "2 = unat (QueueSize_get (xc_fq_size ref_xsk_config))" and num: "cf_num_packets_to_send ref_config = 3"
    by (simp_all add: ref_xsk_config_def ref_config_def)
  have ds: "length ref_descs = 3" by (simp add: ref_descs_def)
  show ?thesis
    by (rule receiver_finishes [OF ref_receive_progress [of unat] _ _ _ _ _ _ _ _ _ n])
      (simp_all only: ref_start_state, simp_all add: ds num)
qed

text \<open>
  C22: the receiving thread never stops by itself. Over the same kernel, when no frame ever
  arrives and the flag is never set, the thread is still in its loop with nothing received after
  any number of turns. So a sending thread that panics, and never sets its flag, keeps the
  program from ending.
\<close>

theorem receiver_waits_for_flag:
  assumes kernel: "receive_progress X pinv queued staged pbase room cinv avail held cbase apart inside frame syscall L capacity"
    and quiet: "nothing_arrives (path_settled pinv staged cinv held apart) avail L"
    and rings: "apart (fq_raw (xk_fq x)) (rx_raw (xk_rx_q x))" "pinv w (fq_raw (xk_fq x))" "cinv w (rx_raw (xk_rx_q x))"
    and empty: "queued w (fq_raw (xk_fq x)) = []" "staged w (fq_raw (xk_fq x)) = []" "inside w = {#}"
      "avail w (rx_raw (xk_rx_q x)) = []" "held w (rx_raw (xk_rx_q x)) = []"
    and len: "length (xk_descs x) < 2 ^ 32"
    and n: "n = unat (QueueSize_get (xc_fq_size rx_cfg))" "n \<le> capacity" "n \<le> length (xk_descs x)"
    and num: "0 < cf_num_packets_to_send config"
  shows "\<exists>t0 t. receiver_start False X rx_cfg True w x = Ret t0
    \<and> steps k (receiver_step False L X (\<lambda>_. False) config) t0 = Ret t \<and> rv_pc t = RxLoop \<and> rv_total t = 0"
proof -
  have s: "path_settled pinv staged cinv held apart w (fq_raw (xk_fq x)) (rx_raw (xk_rx_q x))"
    using rings empty by (simp add: path_settled_def)
  have way: "path_frames frame (\<lambda>d. frame (xd_addr d)) queued inside avail w (fq_raw (xk_fq x)) (rx_raw (xk_rx_q x)) = {#}"
    using empty by (simp add: path_frames_def)
  obtain t0 where start: "receiver_start False X rx_cfg True w x = Ret t0"
    using receive_progress.receiver_start_succeeds [OF kernel s way len n] by blast
  then have t0: "rv_pc t0 = RxLoop" "rv_total t0 = 0" by (auto simp: receiver_start_def rbind_Ret_iff)
  have "rv_total t0 < cf_num_packets_to_send config" using t0(2) num by simp
  from receive_progress.idle_run [OF kernel quiet receive_progress.start_idle [OF kernel s way len n start] t0(1) this, where k = k]
  obtain t where "steps k (receiver_step False L X (\<lambda>_. False) config) t0 = Ret t" "rv_pc t = RxLoop" "rv_total t = rv_total t0"
    by blast
  with start t0(2) show ?thesis by simp
qed

theorem receiver_waits_for_flag_witness:
  "\<forall>k. \<exists>t0 t. receiver_start False ref_libxdp ref_xsk_config True ref_zero (ref_xsk ref_descs) = Ret t0
    \<and> steps k (receiver_step False ref_libc ref_libxdp (\<lambda>_. False) ref_config) t0 = Ret t \<and> rv_pc t = RxLoop \<and> rv_total t = 0"
proof
  fix k
  have n: "2 = unat (QueueSize_get (xc_fq_size ref_xsk_config))" and num: "cf_num_packets_to_send ref_config = 3"
    by (simp_all add: ref_xsk_config_def ref_config_def)
  have ds: "length ref_descs = 3" by (simp add: ref_descs_def)
  show "\<exists>t0 t. receiver_start False ref_libxdp ref_xsk_config True ref_zero (ref_xsk ref_descs) = Ret t0
    \<and> steps k (receiver_step False ref_libc ref_libxdp (\<lambda>_. False) ref_config) t0 = Ret t \<and> rv_pc t = RxLoop \<and> rv_total t = 0"
    by (rule receiver_waits_for_flag [OF ref_quiet_progress [of unat] _ _ _ _ _ _ _ _ _ _ n])
      (simp_all only: ref_start_state, simp_all add: ds num nothing_arrives_def ref_libc_def)
qed

end
