(* ===== verification/Xsk_Sender.thy ===== *)
theory Xsk_Sender
  imports Xsk_Example Xsk_Ref_Kernel
begin

text \<open>
  The sending thread of \<^verbatim>\<open>examples/dev1_to_dev2.rs\<close>: it submits a first batch of frames, then
  takes frames back from the completion queue, writes new packets into them and submits them
  again until enough packets are on their way.
\<close>

section \<open>The thread\<close>

text \<open>
  Where it is: at the head of its loop, waiting until the socket can be written (with \<open>n\<close>
  frames back), submitting \<open>n\<close> frames, or finished.
\<close>

datatype tx_pc = TxLoop | TxPoll usize | TxSend usize | TxDone

record 'w sender =
  sd_world :: 'w
  sd_mem :: "u8 list"
  sd_xsk :: Xsk
  sd_sent :: usize
  sd_consumed :: usize
  sd_pc :: tx_pc

text \<open>Up to the loop; \<open>go_ahead\<close> says whether the receiving thread gave the go-ahead.\<close>

definition sender_start :: "bool \<Rightarrow> 'w libxdp \<Rightarrow> 'w packet_lib \<Rightarrow> PacketGenerator \<Rightarrow> Config \<Rightarrow> bool
    \<Rightarrow> 'w \<Rightarrow> u8 list \<Rightarrow> Xsk \<Rightarrow> 'w sender rust" where
  "sender_start oc X P g config go_ahead w mem x =
    rbind (first_batch oc X P g config w mem x) (\<lambda>(n, x1, mem1, w1).
      Ret \<lparr>sd_world = w1, sd_mem = mem1, sd_xsk = x1, sd_sent = n, sd_consumed = 0,
           sd_pc = if go_ahead then TxLoop else TxDone\<rparr>)"

definition sender_step :: "bool \<Rightarrow> 'w libc \<Rightarrow> 'w libxdp \<Rightarrow> 'w packet_lib \<Rightarrow> PacketGenerator \<Rightarrow> Config
    \<Rightarrow> 'w sender \<Rightarrow> 'w sender rust" where
  "sender_step oc L X P g config t = (case sd_pc t of
     TxLoop \<Rightarrow>
       (if sd_consumed t < cf_num_packets_to_send config then
          rbind (CompQueue_consume oc X (sd_world t) (xk_cq (sd_xsk t)) (xk_descs (sd_xsk t)))
            (\<lambda>(frames_rcvd, descs, cq, w1).
            let x1 = (sd_xsk t)\<lparr>xk_descs := descs, xk_cq := cq\<rparr> in
            if frames_rcvd = 0 then
              rbind (wake_tx L X w1 x1) (\<lambda>w2. Ret (t\<lparr>sd_world := w2, sd_xsk := x1\<rparr>))
            else
              rbind (add_oc oc (sd_consumed t) frames_rcvd) (\<lambda>consumed.
                if sd_sent t < cf_num_packets_to_send config then
                  rbind (write_batch oc P g (cf_payload_size config) w1 (sd_mem t) x1 frames_rcvd)
                    (\<lambda>(x2, mem2, w2).
                      Ret (t\<lparr>sd_world := w2, sd_mem := mem2, sd_xsk := x2, sd_consumed := consumed,
                             sd_pc := TxPoll frames_rcvd\<rparr>))
                else Ret (t\<lparr>sd_world := w1, sd_xsk := x1, sd_consumed := consumed\<rparr>)))
        else Ret (t\<lparr>sd_pc := TxDone\<rparr>))
   | TxPoll frames_rcvd \<Rightarrow>
       (let (r, tx_q, w1) = TxQueue_poll L (sd_world t) (xk_tx_q (sd_xsk t)) (cf_poll_ms_timeout config);
            t1 = t\<lparr>sd_world := w1, sd_xsk := (sd_xsk t)\<lparr>xk_tx_q := tx_q\<rparr>\<rparr>
        in rbind (unwrap r) (\<lambda>ready.
             if \<not> ready then Ret t1
             else rbind (frames_to_send oc frames_rcvd (cf_max_batch_size config)
                 (cf_num_packets_to_send config) (sd_sent t)) (\<lambda>n. Ret (t1\<lparr>sd_pc := TxSend n\<rparr>))))
   | TxSend n \<Rightarrow>
       rbind (resend oc L X (sd_world t) (sd_xsk t) n) (\<lambda>(all, x1, w1).
         if all then
           rbind (add_oc oc (sd_sent t) n) (\<lambda>sent.
             Ret (t\<lparr>sd_world := w1, sd_xsk := x1, sd_sent := sent, sd_pc := TxLoop\<rparr>))
         else Ret (t\<lparr>sd_world := w1, sd_xsk := x1\<rparr>))
   | TxDone \<Rightarrow> Ret t)"

text \<open>The frames the thread has taken back and is about to submit again.\<close>

definition to_submit :: "'w sender \<Rightarrow> FrameDesc list" where
  "to_submit t = (case sd_pc t of TxPoll n \<Rightarrow> take (unat n) (xk_descs (sd_xsk t))
     | TxSend n \<Rightarrow> take (unat n) (xk_descs (sd_xsk t)) | _ \<Rightarrow> [])"

section \<open>The queues on a path\<close>

text \<open>
  The transmit path of a socket: transmit ring, kernel, completion ring. Drawing random bytes
  is a system call like polling and sending.
\<close>

locale send_path =
  frame_path "reserve X" "tx_desc_set X" "submit X" pinv queued staged pbase room
    "peek X" "comp_addr_get X" "release X" cinv avail held cbase apart inside
    "\<lambda>d. frame (xd_addr d)" frame syscall
  for X :: "'w libxdp" and pinv queued staged pbase room cinv avail held cbase apart inside
    and frame :: "u64 \<Rightarrow> nat" and syscall +
  fixes L :: "'w libc" and P :: "'w packet_lib"
  assumes poll_syscall: "poll L w p n ms = (r, p', w') \<Longrightarrow> syscall w w'"
    and sendto_syscall: "sendto L w fd b m f a al = (r', w') \<Longrightarrow> syscall w w'"
    and random_syscall: "random_u8 P w = (byte, w') \<Longrightarrow> syscall w w'"
begin

abbreviation between :: "'w \<Rightarrow> Xsk \<Rightarrow> bool" where
  "between w x \<equiv> settled w (tx_raw (xk_tx_q x)) (cq_raw (xk_cq x))"

abbreviation on_way :: "'w \<Rightarrow> Xsk \<Rightarrow> nat multiset" where
  "on_way w x \<equiv> path w (tx_raw (xk_tx_q x)) (cq_raw (xk_cq x))"

abbreviation frames :: "FrameDesc list \<Rightarrow> nat multiset" where
  "frames ds \<equiv> image_mset (\<lambda>d. frame (fd_addr d)) (mset ds)"

lemma frames_addrs: "map fd_addr ds = map fd_addr ds' \<Longrightarrow> frames ds = frames ds'"
  by (metis (mono_tags, lifting) list.map_comp map_eq_conv comp_def mset_map)

lemma submit_path:
  assumes "settled w (tx_raw q) c" and "TxQueue_produce oc X w q ds = Ret (n, q', w')"
    and "length ds < 2 ^ 32"
  shows "settled w' (tx_raw q') c \<and> (n = 0 \<and> path w' (tx_raw q') c = path w (tx_raw q) c
    \<or> unat n = length ds \<and> path w' (tx_raw q') c = path w (tx_raw q) c + frames ds)"
proof -
  obtain cnt idx r w1 where res: "reserve X w (tx_raw q) (ucast (slice_len ds)) 0 = (cnt, idx, r, w1)"
    by (rule prod_cases4)
  obtain r' w2 where sub: "submit X (write_run (tx_desc_set X) w1 r idx (map tx_entry (take (unat cnt) ds))) r cnt
      = (r', w2)" by (rule prod.exhaust)
  note eq = TxQueue_produce_eq [OF res sub, of oc]
  show ?thesis
  proof (cases "length ds mod 2 ^ 32 = 0")
    case True
    with eq assms(1,2) show ?thesis by simp
  next
    case False
    then have "take (length ds mod 2 ^ 32) ds = ds" using assms(3) by simp
    with produce_path [OF assms(1) refl False res sub] eq assms(2,3) False show ?thesis
      by (auto simp: tx_entry_def split: if_splits)
  qed
qed

lemma consume_comp_path:
  assumes "settled w p (cq_raw q)" and "CompQueue_consume oc X w q ds = Ret (n, ds', q', w')"
  shows "settled w' p (cq_raw q') \<and> (\<exists>got. length got = unat n \<and> unat n \<le> length ds
    \<and> ds' = got @ drop (unat n) ds \<and> path w p (cq_raw q) = frames got + path w' p (cq_raw q'))"
proof -
  obtain cnt idx r w1 where pk: "peek X w (cq_raw q) (ucast (slice_len ds)) 0 = (cnt, idx, r, w1)"
    by (rule prod_cases4)
  obtain r' w2 where rel: "release X w1 r cnt = (r', w2)" by (rule prod.exhaust)
  note eq = CompQueue_consume_eq [OF pk rel, of oc]
  let ?got = "map FrameDesc_new (read_run (comp_addr_get X) w1 r idx (unat cnt))"
  have frames: "frames ?got = image_mset frame (mset (read_run (comp_addr_get X) w1 r idx (unat cnt)))"
    by (simp add: image_mset.compositionality comp_def FrameDesc_new_def)
  consider (nil) "length ds mod 2 ^ 32 = 0" | (none) "length ds mod 2 ^ 32 \<noteq> 0" "cnt = 0"
    | (some) "length ds mod 2 ^ 32 \<noteq> 0" "cnt \<noteq> 0" by blast
  then show ?thesis
  proof cases
    case nil
    with eq assms show ?thesis by simp
  next
    case none
    with eq assms consume_path [OF assms(1) none(1) pk rel] show ?thesis by simp
  next
    case some
    note c = consume_path [OF assms(1) some(1) pk rel]
    from eq assms(2) some c have "n = ucast cnt" "ds' = ?got @ drop (unat cnt) ds" "q' = q\<lparr>cq_ring := XskRingCons r'\<rparr>" "w' = w2"
      by (auto simp: min_absorb2 split: if_splits)
    with c some frames show ?thesis by (auto intro!: exI [of _ ?got])
  qed
qed

lemma poll_tx_path:
  assumes "settled w p c" and "TxQueue_poll L w q ms = (r, q', w')"
  shows "settled w' p c \<and> path w' p c = path w p c \<and> tx_raw q' = tx_raw q"
proof -
  from assms(2) obtain pf n ms' ret pf' where "poll L w pf n ms' = (ret, pf', w')" and "tx_raw q' = tx_raw q"
    by (auto simp: TxQueue_poll_def Fd_poll_write_def PollFd_poll_def Let_def split: prod.splits if_splits)
  with syscall_path [OF assms(1) poll_syscall] show ?thesis by blast
qed

lemma wakeup_tx_path:
  assumes "settled w p c" and "TxQueue_wakeup L w q = (r, w')"
  shows "settled w' p c \<and> path w' p c = path w p c"
  using assms(2) syscall_path [OF assms(1) sendto_syscall]
  by (auto simp: TxQueue_wakeup_def Let_def split: prod.splits)

lemma wake_tx_path:
  assumes "between w x" and "wake_tx L X w x = Ret w'"
  shows "between w' x \<and> on_way w' x = on_way w x"
  using assms(2) wakeup_tx_path [OF assms(1)] assms(1)
  by (auto simp: wake_tx_def rbind_Ret_iff Let_def split: prod.splits if_splits)

lemma random_bytes_path:
  "settled w p c \<Longrightarrow> generate_random_bytes P w n = (bs, w') \<Longrightarrow> settled w' p c \<and> path w' p c = path w p c"
proof (induction n arbitrary: w bs w')
  case 0
  then show ?case by simp
next
  case (Suc n)
  obtain b w1 where b: "random_u8 P w = (b, w1)" by (rule prod.exhaust)
  obtain cs w2 where cs: "generate_random_bytes P w1 n = (cs, w2)" by (rule prod.exhaust)
  from syscall_path [OF Suc.prems(1) random_syscall [OF b]] Suc.IH [OF _ cs] Suc.prems(2) b cs
  show ?case by simp
qed

lemma write_packets_path:
  "settled w p c \<Longrightarrow> write_packets oc P g n u w mem ds = Ret (ds', mem', w')
    \<Longrightarrow> settled w' p c \<and> path w' p c = path w p c"
proof (induction ds arbitrary: w mem ds' mem' w')
  case Nil
  then show ?case by simp
next
  case (Cons d ds)
  from Cons.prems(2) obtain pkt w1 mem1 d' ds1 mem2 where
    pkt: "next_packet P w g n = Ret (pkt, w1)" and "write_packet oc u mem d pkt = Ret (mem1, d')"
    and ds1: "write_packets oc P g n u w1 mem1 ds = Ret (ds1, mem2, w')"
    by (auto simp: rbind_Ret_iff split: prod.splits)
  from pkt have "settled w1 p c \<and> path w1 p c = path w p c"
    using random_bytes_path [OF Cons.prems(1)]
    by (auto simp: next_packet_def PacketGenerator_generate_packet_def Let_def rbind_Ret_iff split: prod.splits)
  with Cons.IH [OF _ ds1] show ?case by simp
qed

lemma write_batch_path:
  assumes "between w x" and "write_batch oc P g k w mem x n = Ret (x', mem', w')"
  shows "between w' x' \<and> on_way w' x' = on_way w x \<and> unat n \<le> length (xk_descs x)
    \<and> map fd_addr (xk_descs x') = map fd_addr (xk_descs x)"
proof -
  from assms(2) obtain ds where le: "unat n \<le> length (xk_descs x)"
    and w: "write_packets oc P g k (xk_umem x) w mem (take (unat n) (xk_descs x)) = Ret (ds, mem', w')"
    and x': "x' = x\<lparr>xk_descs := prefix_slice_back (xk_descs x) ds\<rparr>"
    by (auto simp: write_batch_def rbind_Ret_iff prefix_slice_Ret_iff split: prod.splits)
  note a = write_packets_addrs [OF w]
  then have "length ds = unat n" using le by (metis length_map length_take min_absorb2)
  then have "map fd_addr (prefix_slice_back (xk_descs x) ds) = map fd_addr (xk_descs x)"
    using a by (metis prefix_slice_back_def map_append append_take_drop_id)
  with write_packets_path [OF assms(1) w] x' le show ?thesis by simp
qed

lemma resend_path:
  assumes b: "between w x" and "resend oc L X w x n = Ret (all, x', w')" and n: "n \<noteq> 0"
    and len: "length (xk_descs x) < 2 ^ 32"
  shows "between w' x' \<and> unat n \<le> length (xk_descs x) \<and> xk_descs x' = xk_descs x
    \<and> on_way w' x' = on_way w x + (if all then frames (take (unat n) (xk_descs x)) else {#})"
proof -
  let ?ds = "take (unat n) (xk_descs x)" and ?c = "cq_raw (xk_cq x)"
  from assms(2) obtain m q where le: "unat n \<le> length (xk_descs x)"
    and p: "TxQueue_produce_and_wakeup oc L X w (xk_tx_q x) ?ds = Ret (Inr m, q, w')"
    and x': "x' = x\<lparr>xk_tx_q := q\<rparr>" "all \<longleftrightarrow> m = n"
    by (auto simp: resend_def rbind_Ret_iff prefix_slice_Ret_iff split: prod.splits)
  from p obtain m1 q1 w1 where f: "TxQueue_produce oc X w (xk_tx_q x) ?ds = Ret (m1, q1, w1)"
    and after: "TxQueue_wakeup_after L X w1 q1 m1 = (Inr m, q, w')"
    by (auto simp: TxQueue_produce_and_wakeup_def rbind_Ret_iff)
  obtain r w2 where wk: "TxQueue_wakeup L w1 q1 = (r, w2)" by (rule prod.exhaust)
  with after have q1: "m1 = m" "q1 = q" "w' = w1 \<or> w' = w2"
    by (auto simp: TxQueue_wakeup_after_def split: sum.splits if_splits)
  have ds: "length ?ds = unat n" "length ?ds < 2 ^ 32" using le len by simp_all
  note sent = submit_path [OF b f [unfolded q1(1,2)] ds(2)]
  have "settled w' (tx_raw q) ?c \<and> path w' (tx_raw q) ?c = path w1 (tx_raw q) ?c"
    using q1 sent wakeup_tx_path [OF _ wk, of "tx_raw q" ?c] by blast
  moreover have "all \<longleftrightarrow> unat m = length ?ds" using x' ds by (auto intro: unsigned_word_eqI)
  ultimately show ?thesis using sent x' le n ds by auto
qed

text \<open>
  The invariant of the thread, with \<open>F\<close> the frames of its first batch: what it counted as sent
  and not as consumed is on the way; as long as packets are left, the whole batch is either on
  the way or about to be submitted again.
\<close>

abbreviation way :: "'w sender \<Rightarrow> nat multiset" where
  "way t \<equiv> on_way (sd_world t) (sd_xsk t)"

definition counted :: "nat multiset \<Rightarrow> FrameDesc list \<Rightarrow> Config \<Rightarrow> 'w sender \<Rightarrow> bool" where
  "counted F ds0 config t \<longleftrightarrow> between (sd_world t) (sd_xsk t) \<and> length (xk_descs (sd_xsk t)) = length ds0
     \<and> map fd_addr (drop (size F) (xk_descs (sd_xsk t))) = map fd_addr (drop (size F) ds0)
     \<and> unat (sd_consumed t) + size (way t) = unat (sd_sent t)
     \<and> unat (sd_sent t) \<le> max (size F) (unat (cf_num_packets_to_send config))
     \<and> way t + frames (to_submit t) \<subseteq># F"

definition batch_kept :: "nat multiset \<Rightarrow> FrameDesc list \<Rightarrow> bool \<Rightarrow> Config \<Rightarrow> 'w sender \<Rightarrow> bool" where
  "batch_kept F ds0 go config t = (case sd_pc t of
       TxLoop \<Rightarrow> (sd_sent t < cf_num_packets_to_send config \<longrightarrow> way t = F)
     | TxPoll n \<Rightarrow> n \<noteq> 0 \<and> unat n \<le> length ds0 \<and> sd_sent t < cf_num_packets_to_send config \<and> way t + frames (to_submit t) = F
     | TxSend n \<Rightarrow> n \<noteq> 0 \<and> unat n \<le> length ds0 \<and> unat (sd_sent t) + unat n \<le> unat (cf_num_packets_to_send config)
         \<and> (unat (sd_sent t) + unat n < unat (cf_num_packets_to_send config) \<longrightarrow> way t + frames (to_submit t) = F)
     | TxDone \<Rightarrow> go \<longrightarrow> cf_num_packets_to_send config \<le> sd_consumed t)"

definition accounts :: "nat multiset \<Rightarrow> FrameDesc list \<Rightarrow> bool \<Rightarrow> Config \<Rightarrow> 'w sender \<Rightarrow> bool" where
  "accounts F ds0 go config t \<longleftrightarrow> counted F ds0 config t \<and> batch_kept F ds0 go config t"

lemma accounts_loop:
  assumes a: "accounts F ds0 go config t" and pc: "sd_pc t = TxLoop"
    and step: "sender_step oc L X P g config t = Ret t'"
  shows "accounts F ds0 go config t'"
proof (cases "sd_consumed t < cf_num_packets_to_send config")
  case False
  with a pc step show ?thesis
    by (auto simp: sender_step_def accounts_def counted_def batch_kept_def to_submit_def)
next
  case True
  let ?w = "sd_world t" and ?x = "sd_xsk t"
  have b: "between ?w ?x" "length (xk_descs ?x) = length ds0"
    "map fd_addr (drop (size F) (xk_descs ?x)) = map fd_addr (drop (size F) ds0)"
    "unat (sd_consumed t) + size (way t) = unat (sd_sent t)"
    "unat (sd_sent t) \<le> max (size F) (unat (cf_num_packets_to_send config))"
    "way t \<subseteq># F" "sd_sent t < cf_num_packets_to_send config \<longrightarrow> way t = F"
    using a pc by (simp_all add: accounts_def counted_def batch_kept_def to_submit_def)
  obtain n ds cq w1 where c: "CompQueue_consume oc X ?w (xk_cq ?x) (xk_descs ?x) = Ret (n, ds, cq, w1)"
    using step pc True by (auto simp: sender_step_def rbind_Ret_iff Let_def)
  let ?x1 = "?x\<lparr>xk_descs := ds, xk_cq := cq\<rparr>"
  obtain got where b1: "between w1 ?x1" and got: "length got = unat n" "unat n \<le> length (xk_descs ?x)"
      "ds = got @ drop (unat n) (xk_descs ?x)" "way t = frames got + on_way w1 ?x1"
    using consume_comp_path [OF b(1) c] by auto
  have sz: "size (way t) = unat n + size (on_way w1 ?x1)" using got(1,4) by simp
  then have n: "unat n \<le> size F" using size_mset_mono [OF b(6)] by simp
  have ds: "length ds = length ds0" "drop (size F) ds = drop (size F) (xk_descs ?x)" "take (unat n) ds = got"
    using got(1-3) n b(2) by simp_all
  have "on_way w1 ?x1 \<subseteq># way t" unfolding got(4) by (rule mset_subset_eq_add_right)
  then have sub: "on_way w1 ?x1 \<subseteq># F" using b(6) by (rule subset_mset.order_trans)
  show ?thesis
  proof (cases "n = 0")
    case True
    with step pc c \<open>sd_consumed t < _\<close> obtain w2 where "wake_tx L X w1 ?x1 = Ret w2"
      and t': "t' = t\<lparr>sd_world := w2, sd_xsk := ?x1\<rparr>"
      by (auto simp: sender_step_def rbind_Ret_iff Let_def)
    with wake_tx_path [OF b1] got True b ds pc show ?thesis
      by (auto simp: accounts_def counted_def batch_kept_def to_submit_def)
  next
    case False
    have cons: "add_oc oc (sd_consumed t) n = Ret (sd_consumed t + n)"
      "unat (sd_consumed t + n) = unat (sd_consumed t) + unat n"
      using b(4) sz unat_u64_bound [of "sd_sent t"] by (simp_all add: add_oc_in_range unat_add_lem [THEN iffD1])
    show ?thesis
    proof (cases "sd_sent t < cf_num_packets_to_send config")
      case True
      with step pc c \<open>n \<noteq> 0\<close> \<open>sd_consumed t < _\<close> cons(1) obtain x2 mem2 w2 where
        wb: "write_batch oc P g (cf_payload_size config) w1 (sd_mem t) ?x1 n = Ret (x2, mem2, w2)"
        and t': "t' = t\<lparr>sd_world := w2, sd_mem := mem2, sd_xsk := x2, sd_consumed := sd_consumed t + n,
          sd_pc := TxPoll n\<rparr>"
        by (auto simp: sender_step_def rbind_Ret_iff Let_def)
      note p = write_batch_path [OF b1 wb]
      then have addrs: "map fd_addr (xk_descs x2) = map fd_addr ds" by simp
      then have "frames (take (unat n) (xk_descs x2)) = frames got"
        by (intro frames_addrs) (metis take_map ds(3))
      moreover have "map fd_addr (drop (size F) (xk_descs x2)) = map fd_addr (drop (size F) ds0)"
        using addrs ds(2) b(3) by (metis drop_map)
      moreover have "length (xk_descs x2) = length ds0" using addrs ds(1) by (metis length_map)
      ultimately show ?thesis
        using p b got sz t' True False cons(2)
        by (auto simp: accounts_def counted_def batch_kept_def to_submit_def add.commute)
    next
      case sent: False
      with step pc c \<open>n \<noteq> 0\<close> \<open>sd_consumed t < _\<close> cons(1)
      have "t' = t\<lparr>sd_world := w1, sd_xsk := ?x1, sd_consumed := sd_consumed t + n\<rparr>"
        by (auto simp: sender_step_def rbind_Ret_iff Let_def)
      with b1 b sz ds sub sent pc cons(2) show ?thesis
        by (auto simp: accounts_def counted_def batch_kept_def to_submit_def)
    qed
  qed
qed

lemma accounts_poll:
  assumes a: "accounts F ds0 go config t" and pc: "sd_pc t = TxPoll n"
    and F: "size F = unat (cf_max_batch_size config)"
    and step: "sender_step oc L X P g config t = Ret t'"
  shows "accounts F ds0 go config t'"
proof -
  let ?x = "sd_xsk t" and ?num = "cf_num_packets_to_send config"
  obtain r q w1 where poll: "TxQueue_poll L (sd_world t) (xk_tx_q ?x) (cf_poll_ms_timeout config) = (r, q, w1)"
    by (rule prod_cases3)
  let ?t = "t\<lparr>sd_world := w1, sd_xsk := ?x\<lparr>xk_tx_q := q\<rparr>\<rparr>"
  have b: "between (sd_world t) ?x" using a by (simp add: accounts_def counted_def)
  from poll_tx_path [OF b poll] have p: "between w1 (sd_xsk ?t)" "way ?t = way t" by simp_all
  then have a1: "accounts F ds0 go config ?t"
    using a pc by (simp add: accounts_def counted_def batch_kept_def to_submit_def)
  have k: "n \<noteq> 0" "unat n \<le> length ds0" "length (xk_descs ?x) = length ds0" "sd_sent t < ?num"
    "way t + frames (take (unat n) (xk_descs ?x)) = F"
    using a pc by (simp_all add: accounts_def counted_def batch_kept_def to_submit_def)
  then have "size (frames (take (unat n) (xk_descs ?x))) \<le> size F" by (metis le_add2 size_union)
  then have nF: "unat n \<le> unat (cf_max_batch_size config)" using k F by simp
  define m where "m = min n (min (cf_max_batch_size config) (?num - sd_sent t))"
  have left: "unat (?num - sd_sent t) = unat ?num - unat (sd_sent t)" "unat (sd_sent t) < unat ?num"
    using k(4) by (simp_all add: unat_sub_if' word_less_nat_alt)
  have um: "unat m = min (unat n) (unat ?num - unat (sd_sent t))"
    using nF left by (auto simp: m_def min_def word_le_nat_alt)
  then have m: "m \<noteq> 0" "unat m \<le> unat n" "unat (sd_sent t) + unat m \<le> unat ?num"
    "unat (sd_sent t) + unat m < unat ?num \<Longrightarrow> m = n"
    using k(1) left(2) by (auto simp: unat_eq_zero min_def intro: unsigned_word_eqI split: if_splits)
  from step pc poll k(4) consider "t' = ?t" | "t' = ?t\<lparr>sd_pc := TxSend m\<rparr>"
    by (auto simp: sender_step_def frames_to_send_def m_def rbind_Ret_iff Let_def sub_oc_in_range split: if_splits)
  then show ?thesis
  proof cases
    case 1
    with a1 show ?thesis by simp
  next
    case 2
    have "frames (take (unat m) (xk_descs ?x)) \<subseteq># frames (take (unat n) (xk_descs ?x))"
      using m(2) by (intro image_mset_subseteq_mono) (rule mset_take_mono)
    then have "way t + frames (take (unat m) (xk_descs ?x)) \<subseteq># F"
      using k(5) by (metis subset_mset.add_left_mono)
    with 2 a1 pc p m k show ?thesis
      by (auto simp: accounts_def counted_def batch_kept_def to_submit_def)
  qed
qed

lemma accounts_send:
  assumes a: "accounts F ds0 go config t" and pc: "sd_pc t = TxSend n" and len: "length ds0 < 2 ^ 32"
    and step: "sender_step oc L X P g config t = Ret t'"
  shows "accounts F ds0 go config t'"
proof -
  let ?x = "sd_xsk t" and ?num = "cf_num_packets_to_send config"
  from step pc obtain all x1 w1 where r: "resend oc L X (sd_world t) ?x n = Ret (all, x1, w1)"
    by (auto simp: sender_step_def rbind_Ret_iff split: prod.splits)
  have k: "n \<noteq> 0" "between (sd_world t) ?x" "length (xk_descs ?x) < 2 ^ 32"
    "unat (sd_sent t) + unat n \<le> unat ?num"
    using a pc len by (simp_all add: accounts_def counted_def batch_kept_def)
  then have sent: "add_oc oc (sd_sent t) n = Ret (sd_sent t + n)" "unat (sd_sent t + n) = unat (sd_sent t) + unat n"
    using unat_u64_bound [of ?num] by (simp_all add: add_oc_in_range unat_add_lem [THEN iffD1])
  note p = resend_path [OF k(2) r k(1,3)]
  show ?thesis
  proof (cases all)
    case True
    with step pc r sent have "t' = t\<lparr>sd_world := w1, sd_xsk := x1, sd_sent := sd_sent t + n, sd_pc := TxLoop\<rparr>"
      by (simp add: sender_step_def)
    with True a pc p k sent show ?thesis
      by (auto simp: accounts_def counted_def batch_kept_def to_submit_def word_less_nat_alt)
  next
    case False
    with step pc r have "t' = t\<lparr>sd_world := w1, sd_xsk := x1\<rparr>" by (simp add: sender_step_def)
    with False a pc p show ?thesis
      by (auto simp: accounts_def counted_def batch_kept_def to_submit_def)
  qed
qed

lemma sender_step_accounts:
  assumes "accounts F ds0 go config t" and "size F = unat (cf_max_batch_size config)" and "length ds0 < 2 ^ 32"
    and "sender_step oc L X P g config t = Ret t'"
  shows "accounts F ds0 go config t'"
proof (cases "sd_pc t")
  case TxDone
  with assms show ?thesis by (simp add: sender_step_def)
qed (use assms in \<open>auto intro: accounts_loop accounts_poll accounts_send\<close>)

lemma sender_start_accounts:
  assumes b: "between w x" and empty: "on_way w x = {#}" and len: "length (xk_descs x) < 2 ^ 32"
    and start: "sender_start oc X P g config go w mem x = Ret t" and n: "n = unat (cf_max_batch_size config)"
  shows "accounts (frames (take n (xk_descs x))) (xk_descs x) go config t \<and> n \<le> length (xk_descs x)"
proof -
  from start obtain x1 mem1 w1 q w2 where
    wb: "write_batch oc P g (cf_payload_size config) w mem x (cf_max_batch_size config) = Ret (x1, mem1, w1)"
    and sub: "TxQueue_produce oc X w1 (xk_tx_q x1) (take n (xk_descs x1)) = Ret (cf_max_batch_size config, q, w2)"
    and t: "t = \<lparr>sd_world = w2, sd_mem = mem1, sd_xsk = x1\<lparr>xk_tx_q := q\<rparr>, sd_sent = cf_max_batch_size config,
      sd_consumed = 0, sd_pc = if go then TxLoop else TxDone\<rparr>"
    by (auto simp: sender_start_def first_batch_def rbind_Ret_iff prefix_slice_Ret_iff n split: if_splits)
  note p = write_batch_path [OF b wb]
  then have le: "n \<le> length (xk_descs x)" and addrs: "map fd_addr (xk_descs x1) = map fd_addr (xk_descs x)"
    by (simp_all add: n)
  have len1: "length (xk_descs x1) = length (xk_descs x)" using addrs by (metis length_map)
  have fr: "frames (take n (xk_descs x1)) = frames (take n (xk_descs x))"
    by (intro frames_addrs) (metis take_map addrs)
  have dr: "map fd_addr (drop n (xk_descs x1)) = map fd_addr (drop n (xk_descs x))"
    by (metis drop_map addrs)
  have "settled w1 (tx_raw (xk_tx_q x1)) (cq_raw (xk_cq x1))" using p by simp
  moreover have "length (take n (xk_descs x1)) < 2 ^ 32" using len len1 by simp
  ultimately have s: "settled w2 (tx_raw q) (cq_raw (xk_cq x1))" "cf_max_batch_size config = 0
      \<and> path w2 (tx_raw q) (cq_raw (xk_cq x1)) = {#} \<or> path w2 (tx_raw q) (cq_raw (xk_cq x1)) = frames (take n (xk_descs x))"
    using submit_path [OF _ sub, of "cq_raw (xk_cq x1)"] p fr empty by auto
  have zero: "cf_max_batch_size config = 0 \<Longrightarrow> n = 0" by (simp add: n)
  have "on_way w2 (x1\<lparr>xk_tx_q := q\<rparr>) = frames (take n (xk_descs x))" "between w2 (x1\<lparr>xk_tx_q := q\<rparr>)"
    using s zero by auto
  moreover have "size (frames (take n (xk_descs x))) = n" using le by simp
  ultimately show ?thesis
    using le len1 dr by (auto simp: t accounts_def counted_def batch_kept_def to_submit_def n)
qed

lemma run_accounts:
  assumes "between w x" "on_way w x = {#}" "length (xk_descs x) < 2 ^ 32"
    and "sender_start oc X P g config go w mem x = Ret t0" "n = unat (cf_max_batch_size config)"
    and "steps k (sender_step oc L X P g config) t0 = Ret t"
  shows "accounts (frames (take n (xk_descs x))) (xk_descs x) go config t \<and> n \<le> length (xk_descs x)"
proof -
  note start = sender_start_accounts [OF assms(1-5)]
  then have "size (frames (take n (xk_descs x))) = unat (cf_max_batch_size config)"
    by (simp add: assms(5) min_absorb2)
  note step = sender_step_accounts [OF _ this assms(3)]
  have "accounts (frames (take n (xk_descs x))) (xk_descs x) go config t"
  proof (rule steps_invariant [where I = "accounts (frames (take n (xk_descs x))) (xk_descs x) go config"])
    show "accounts (frames (take n (xk_descs x))) (xk_descs x) go config t0" using start by simp
  qed (use assms(6) in \<open>auto intro: step\<close>)
  with start show ?thesis by blast
qed

end

interpretation ref_send: send_path ref_libxdp ref_prod_ok "ref_queued rw_descs" "ref_staged rw_descs"
  ref_base ref_room ref_cons_ok "ref_avail rw_addrs" "ref_held rw_addrs" ref_cons_base
  "\<lambda>p c. p_at 400 p \<and> c_at 200 c" "\<lambda>_. {#}" frame "ref_kernel\<^sup>*\<^sup>*" ref_os ref_packets for frame
  by (rule send_path.intro [OF _ send_path_axioms.intro])
    (simp_all add: ref_tx_path ref_os_syscalls ref_packets_def)

section \<open>Properties\<close>

text \<open>
  C11: the sending thread keeps account of its frames. In every state it reaches, the frames it
  has submitted and not taken back are exactly the difference of its two counters (which never
  wrap around), it never submits more packets than asked for or than its first batch, every
  frame on the way or about to be submitted again is one of the first batch and there at most
  once, the whole batch stays in use while packets are left, the addresses of the other
  descriptors are untouched, and when it finishes the packets asked for have been sent.
  Assumed is the contract of the rings and that a system call moves frames along the transmit
  path and neither makes nor loses one.
\<close>

theorem sender_accounts_for_frames:
  assumes path: "send_path X pinv queued staged pbase room cinv avail held cbase apart inside frame syscall L P"
    and rings: "apart (tx_raw (xk_tx_q x)) (cq_raw (xk_cq x))" "pinv w (tx_raw (xk_tx_q x))" "cinv w (cq_raw (xk_cq x))"
    and empty: "queued w (tx_raw (xk_tx_q x)) = []" "staged w (tx_raw (xk_tx_q x)) = []" "inside w = {#}"
      "avail w (cq_raw (xk_cq x)) = []" "held w (cq_raw (xk_cq x)) = []"
    and len: "length (xk_descs x) < 2 ^ 32" and n: "n = unat (cf_max_batch_size config)"
    and start: "sender_start oc X P g config go_ahead w mem x = Ret t0"
    and run: "steps k (sender_step oc L X P g config) t0 = Ret t"
    and way: "way = path_frames (\<lambda>d. frame (xd_addr d)) frame queued inside avail (sd_world t)
      (tx_raw (xk_tx_q (sd_xsk t))) (cq_raw (xk_cq (sd_xsk t)))"
    and again: "again = image_mset (\<lambda>d. frame (fd_addr d)) (mset (to_submit t))"
    and batch: "batch = image_mset (\<lambda>d. frame (fd_addr d)) (mset (take n (xk_descs x)))"
  shows "unat (sd_sent t) = unat (sd_consumed t) + size way
    \<and> unat (sd_sent t) \<le> max n (unat (cf_num_packets_to_send config))
    \<and> way + again \<subseteq># batch
    \<and> (distinct (map (\<lambda>d. frame (fd_addr d)) (xk_descs x)) \<longrightarrow> (\<forall>i. count (way + again) i \<le> 1))
    \<and> (sd_pc t = TxLoop \<and> sd_sent t < cf_num_packets_to_send config \<longrightarrow> way = batch)
    \<and> map fd_addr (drop n (xk_descs (sd_xsk t))) = map fd_addr (drop n (xk_descs x))
    \<and> (sd_pc t = TxDone \<and> go_ahead \<longrightarrow> cf_num_packets_to_send config \<le> sd_consumed t)"
proof -
  let ?f = "\<lambda>d. frame (fd_addr d)"
  have s: "path_settled pinv staged cinv held apart w (tx_raw (xk_tx_q x)) (cq_raw (xk_cq x))"
    using rings empty by (simp add: path_settled_def)
  have "path_frames (\<lambda>d. frame (xd_addr d)) frame queued inside avail w (tx_raw (xk_tx_q x)) (cq_raw (xk_cq x)) = {#}"
    using empty by (simp add: path_frames_def)
  note acc = send_path.run_accounts [OF path s this len start n run, folded batch]
  have size: "size batch = n" using acc by (simp add: batch min_absorb2)
  have c: "unat (sd_consumed t) + size way = unat (sd_sent t)"
    "unat (sd_sent t) \<le> max n (unat (cf_num_packets_to_send config))" "way + again \<subseteq># batch"
    "map fd_addr (drop n (xk_descs (sd_xsk t))) = map fd_addr (drop n (xk_descs x))"
    using acc unfolding send_path.accounts_def [OF path] send_path.counted_def [OF path] size way again
    by auto
  have k: "sd_pc t = TxLoop \<and> sd_sent t < cf_num_packets_to_send config \<longrightarrow> way = batch"
    "sd_pc t = TxDone \<and> go_ahead \<longrightarrow> cf_num_packets_to_send config \<le> sd_consumed t"
    using acc unfolding send_path.accounts_def [OF path] send_path.batch_kept_def [OF path] way
    by auto
  have "count (way + again) i \<le> 1" if "distinct (map ?f (xk_descs x))" for i
  proof (rule frames_once [of ?f "take n (xk_descs x)"])
    show "distinct (map ?f (take n (xk_descs x)))" using that by (simp add: distinct_take flip: take_map)
  qed (use c(3) batch in simp)
  with c k show ?thesis by simp
qed

text \<open>One frame of two is in the first batch; after two steps it has come back.\<close>

definition ref_tx_descs :: "FrameDesc list" where
  "ref_tx_descs = map FrameDesc_new [4, 8]"

definition ref_sender_at :: "nat \<Rightarrow> ref_world sender rust" where
  "ref_sender_at k = rbind (sender_start False ref_libxdp ref_packets ref_generator ref_config True ref_zero
       (replicate 8 0) (ref_xsk ref_tx_descs))
     (steps k (sender_step False ref_os ref_libxdp ref_packets ref_generator ref_config))"

lemma ref_sender_pc:
  "(case ref_sender_at 2 of Ret t \<Rightarrow> sd_pc t = TxPoll 1 \<and> sd_sent t = 1 \<and> sd_consumed t = 1 | _ \<Rightarrow> False)"
  by code_simp

theorem sender_accounts_for_frames_witness:
  "\<exists>t. ref_sender_at 2 = Ret t \<and> sd_pc t = TxPoll 1 \<and> unat (sd_sent t) \<le> 3
    \<and> path_frames (\<lambda>d. unat (xd_addr d)) unat (ref_queued rw_descs) (\<lambda>_. {#}) (ref_avail rw_addrs) (sd_world t)
        (tx_raw (xk_tx_q (sd_xsk t))) (cq_raw (xk_cq (sd_xsk t))) = {#}
    \<and> image_mset (\<lambda>d. unat (fd_addr d)) (mset (to_submit t)) \<subseteq># {#4#}"
proof -
  let ?x = "ref_xsk ref_tx_descs"
  obtain t where at: "ref_sender_at 2 = Ret t" and pc: "sd_pc t = TxPoll 1" "sd_sent t = 1" "sd_consumed t = 1"
    using ref_sender_pc by (auto split: rust.splits)
  then obtain t0 where start: "sender_start False ref_libxdp ref_packets ref_generator ref_config True ref_zero
      (replicate 8 0) ?x = Ret t0"
    and run: "steps 2 (sender_step False ref_os ref_libxdp ref_packets ref_generator ref_config) t0 = Ret t"
    by (auto simp: ref_sender_at_def rbind_Ret_iff)
  have avail: "ref_avail rw_addrs ref_zero (ref_cons 200) = []"
    by (simp add: ref_avail_def c_avail_def ref_zero_def ref_cons_def)
  have x: "tx_ring (xk_tx_q ?x) = XskRingProd (ref_prod 400)" "cq_ring (xk_cq ?x) = XskRingCons (ref_cons 200)"
    "xk_descs ?x = ref_tx_descs"
    by (simp_all add: ref_xsk_def Let_def TxQueue_new_def CompQueue_new_def)
  have len: "length ref_tx_descs < 2 ^ 32"
    and take: "image_mset (\<lambda>d. unat (fd_addr d)) (mset (take 1 ref_tx_descs)) = {#4#}"
    by (simp_all add: ref_tx_descs_def FrameDesc_new_def)
  have one: "1 = unat (cf_max_batch_size ref_config)" by (simp add: ref_config_def)
  note acc = sender_accounts_for_frames [OF ref_send.send_path_axioms [of unat] _ _ _ _ _ _ _ _ _ one start run refl refl refl]
  have "unat (sd_sent t) = unat (sd_consumed t) + size (path_frames (\<lambda>d. unat (xd_addr d)) unat (ref_queued rw_descs)
      (\<lambda>_. {#}) (ref_avail rw_addrs) (sd_world t) (tx_raw (xk_tx_q (sd_xsk t))) (cq_raw (xk_cq (sd_xsk t))))"
    and "path_frames (\<lambda>d. unat (xd_addr d)) unat (ref_queued rw_descs) (\<lambda>_. {#}) (ref_avail rw_addrs) (sd_world t)
        (tx_raw (xk_tx_q (sd_xsk t))) (cq_raw (xk_cq (sd_xsk t)))
      + image_mset (\<lambda>d. unat (fd_addr d)) (mset (to_submit t)) \<subseteq># {#4#}"
    using acc avail len take by (auto simp: x)
  with at pc show ?thesis by simp
qed

end
