(* ===== verification/Xsk_Sender_Progress.thy ===== *)
theory Xsk_Sender_Progress
  imports Xsk_Sender
begin

text \<open>
  The sending thread of \<^verbatim>\<open>examples/dev1_to_dev2.rs\<close> comes to an end. Its loops wait for the
  kernel, so this needs a kernel that goes on: it may take its time, a number of calls that is
  bounded, before it completes a frame or lets the socket be written. Then every turn of a loop
  brings the thread nearer to its end, and there is a number of turns after which it has
  finished; no call panics on the way. A batch size of zero, on the other hand, which the
  options admit, keeps the thread in its loop for ever.
\<close>

section \<open>Writing succeeds\<close>

text \<open>Fresh descriptors of the region take any packet that fits in a frame.\<close>

definition fresh_in :: "Umem \<Rightarrow> nat \<Rightarrow> FrameDesc \<Rightarrow> bool" where
  "fresh_in u cnt d \<longleftrightarrow> (\<exists>i. desc_of (um_mem u) cnt d i) \<and> sl_data (fd_lengths d) = 0"

lemma fresh_in_new: "fresh_in u cnt d \<Longrightarrow> fresh_in u cnt (FrameDesc_new (fd_addr d))"
  by (auto simp: fresh_in_def desc_of_def FrameDesc_new_def SegmentLengths_default_def)

definition packets_fit :: "'w packet_lib \<Rightarrow> PacketGenerator \<Rightarrow> usize \<Rightarrow> Umem \<Rightarrow> bool" where
  "packets_fit P g payload_size u \<longleftrightarrow> (\<forall>payload. length payload = unat payload_size \<longrightarrow>
     (\<exists>pkt. udp_packet P (vd_addr (pg_src g)) (vd_addr (pg_dst g)) (ip_addr_octets (vd_ip_addr (pg_src g)))
          (ip_addr_octets (vd_ip_addr (pg_dst g))) 20 1234 1234 payload = Inr pkt
        \<and> length pkt \<le> unat (fl_mtu (rg_layout (um_mem u)))))"

lemma length_random_bytes: "generate_random_bytes P w n = (bs, w') \<Longrightarrow> length bs = n"
  by (induction n arbitrary: w bs w') (auto simp: Let_def split: prod.splits)

lemma next_packet_fits:
  assumes "packets_fit P g k u"
  shows "\<exists>pkt w'. next_packet P w g k = Ret (pkt, w') \<and> length pkt \<le> unat (fl_mtu (rg_layout (um_mem u)))"
proof -
  obtain bs w' where b: "generate_random_bytes P w (unat k) = (bs, w')" by (rule prod.exhaust)
  with length_random_bytes [OF b] assms show ?thesis
    by (auto simp: packets_fit_def next_packet_def PacketGenerator_generate_packet_def unwrap_def)
qed

lemma write_packet_fresh:
  assumes wf: "wf_region (um_mem u) cnt" and mem: "length mem = unat (rg_len (um_mem u))"
    and d: "fresh_in u cnt d" and pkt: "length pkt \<le> unat (fl_mtu (rg_layout (um_mem u)))"
  shows "\<exists>mem' d'. write_packet oc u mem d pkt = Ret (mem', d') \<and> length mem' = length mem"
proof -
  from d obtain i where i: "desc_of (um_mem u) cnt d i" and z: "sl_data (fd_lengths d) = 0"
    by (auto simp: fresh_in_def)
  have "wf_slice pkt" using pkt wf by (simp add: wf_slice_def wf_region_def wf_layout_def frame_bytes_def)
  from write_packet_effect [OF wf i mem this refl, of oc] pkt z show ?thesis
    by (auto simp: seg_def)
qed

lemma write_packets_fresh:
  assumes wf: "wf_region (um_mem u) cnt" and fits: "packets_fit P g k u"
  shows "length mem = unat (rg_len (um_mem u)) \<Longrightarrow> \<forall>d \<in> set ds. fresh_in u cnt d \<Longrightarrow>
    \<exists>ds' mem' w'. write_packets oc P g k u w mem ds = Ret (ds', mem', w') \<and> length mem' = length mem"
proof (induction ds arbitrary: w mem)
  case Nil
  then show ?case by simp
next
  case (Cons d ds)
  obtain pkt w1 where pkt: "next_packet P w g k = Ret (pkt, w1)" "length pkt \<le> unat (fl_mtu (rg_layout (um_mem u)))"
    using next_packet_fits [OF fits] by blast
  obtain mem1 d' where d': "write_packet oc u mem d pkt = Ret (mem1, d')" "length mem1 = length mem"
    using write_packet_fresh [OF wf Cons.prems(1) _ pkt(2), of d oc] Cons.prems(2) by auto
  have "length mem1 = unat (rg_len (um_mem u))" using d'(2) Cons.prems(1) by simp
  from Cons.IH [OF this, of w1] Cons.prems(2) pkt(1) d' show ?case by auto
qed

lemma write_batch_fresh:
  assumes "wf_region (um_mem (xk_umem x)) cnt" and "packets_fit P g k (xk_umem x)"
    and "length mem = unat (rg_len (um_mem (xk_umem x)))" and "unat n \<le> length (xk_descs x)"
    and "\<forall>d \<in> set (take (unat n) (xk_descs x)). fresh_in (xk_umem x) cnt d"
  shows "\<exists>x' mem' w'. write_batch oc P g k w mem x n = Ret (x', mem', w')
    \<and> length mem' = length mem \<and> xk_umem x' = xk_umem x"
  using write_packets_fresh [OF assms(1,2,3,5), of oc w] assms(4)
  by (auto simp: write_batch_def prefix_slice_def)

section \<open>A kernel that goes on\<close>

text \<open>
  The documented behaviour: a transmit ring takes as many descriptors as it has slots;
  \<open>sendto\<close> on the socket fails at most with one of the errors that mean try again; \<open>poll\<close> does
  not fail; with a frame on the way and none completed the transmit ring asks to be woken up,
  and waking it up completes a frame after a bounded number of calls, as polling lets the
  socket be written after a bounded number of calls. \<open>lag\<close> is the number of calls still to go,
  at most \<open>patience\<close>.
\<close>

locale send_progress = send_path X pinv queued staged pbase room cinv avail held cbase apart inside frame syscall L P
  for X :: "'w libxdp" and pinv queued staged pbase room cinv avail held cbase apart inside
    and frame :: "u64 \<Rightarrow> nat" and syscall and L :: "'w libc" and P :: "'w packet_lib" +
  fixes capacity :: nat and lag :: "'w \<Rightarrow> nat" and patience :: nat
  assumes capacity: "settled w p c \<Longrightarrow> room w p + length (queued w p) = capacity"
    and wants: "settled w p c \<Longrightarrow> path w p c \<noteq> {#} \<Longrightarrow> avail w c = [] \<Longrightarrow> prod_needs_wakeup X w p \<noteq> 0"
    and sends: "settled w p c \<Longrightarrow> sendto L w fd b m f a al = (r', w') \<Longrightarrow>
      0 \<le> sint r' \<or> get_errno L w' \<in> {ENOBUFS L, EAGAIN L, EBUSY L, ENETDOWN L}"
    and completes: "settled w p c \<Longrightarrow> path w p c \<noteq> {#} \<Longrightarrow> avail w c = [] \<Longrightarrow>
      sendto L w fd b m f a al = (r', w') \<Longrightarrow> avail w' c \<noteq> [] \<or> lag w' < lag w"
    and writable: "settled w p c \<Longrightarrow> poll L w pf one ms = (r, pf', w') \<Longrightarrow> 0 < sint r \<or> r = 0 \<and> lag w' < lag w"
    and looking: "settled w p c \<Longrightarrow> peek X w c nb i = (n, i', c', w') \<Longrightarrow> lag w' = lag w"
    and lag: "lag w \<le> patience"
begin

lemmas comp_outcome = comp_ring.consume_outcome [OF comp_ring.intro [OF cons.cons_ring_axioms]]
lemmas send_outcome = send_ring.produce_outcome [OF send_ring.intro [OF prod_ring_axioms]]

text \<open>The calls of one turn.\<close>

lemma consume_nothing:
  assumes s: "settled w p (cq_raw q)" and none: "avail w (cq_raw q) = []"
    and run: "CompQueue_consume oc X w q ds = Ret (0, ds', q', w')" and ds: "length ds mod 2 ^ 32 \<noteq> 0"
  shows "lag w' = lag w"
proof -
  obtain cnt idx r w1 where pk: "peek X w (cq_raw q) (ucast (slice_len ds)) 0 = (cnt, idx, r, w1)"
    by (rule prod_cases4)
  obtain r' w2 where rel: "release X w1 r cnt = (r', w2)" by (rule prod.exhaust)
  have "cinv w (cq_raw q)" "held w (cq_raw q) = []" using s by (simp_all add: path_settled_def)
  from cons.peek_ok [OF this pk] none have "cnt = 0" by (simp add: unat_eq_zero)
  with CompQueue_consume_eq [OF pk rel, of oc] run ds have "w' = w1" by simp
  with looking [OF s pk] show ?thesis by simp
qed

lemma wakeup_succeeds: "settled w (tx_raw q) c \<Longrightarrow> TxQueue_wakeup L w q = (r, w') \<Longrightarrow> r = Inr ()"
  using sends by (fastforce simp: TxQueue_wakeup_def Let_def split: prod.splits if_splits)

lemma wake_tx_progress:
  assumes s: "between w x" and way: "on_way w x \<noteq> {#}" and none: "avail w (cq_raw (xk_cq x)) = []"
  shows "\<exists>w'. wake_tx L X w x = Ret w' \<and> (avail w' (cq_raw (xk_cq x)) \<noteq> [] \<or> lag w' < lag w)"
proof -
  obtain r w' where wk: "TxQueue_wakeup L w (xk_tx_q x) = (r, w')" by (rule prod.exhaust)
  then have "avail w' (cq_raw (xk_cq x)) \<noteq> [] \<or> lag w' < lag w"
    using completes [OF s way none] by (fastforce simp: TxQueue_wakeup_def Let_def split: prod.splits)
  moreover have "TxQueue_needs_wakeup X w (xk_tx_q x)"
    using wants [OF s way none] by (simp add: TxQueue_needs_wakeup_def XskRingProd_as_ref_def XskRingProd_as_mut_def)
  ultimately show ?thesis
    using wk wakeup_succeeds [OF s wk] by (simp add: wake_tx_def unwrap_def)
qed

lemma poll_progress:
  assumes "settled w (tx_raw q) c"
  shows "\<exists>ready q' w'. TxQueue_poll L w q ms = (Inr ready, q', w') \<and> (ready \<or> lag w' < lag w)"
proof -
  let ?p = "PollFd_raw (f_pollfd_write (so_fd (tx_socket q)))"
  obtain r p' w' where poll: "poll L w ?p 1 ms = (r, p', w')" by (rule prod_cases3)
  have run: "TxQueue_poll L w q ms = (if sint r < 0 then
      (if get_errno L w' \<noteq> EINTR L then Inl (last_os_error L w') else Inr False)
      else if r = 0 then Inr False else Inr True,
      q\<lparr>tx_socket := (tx_socket q)\<lparr>so_fd := (so_fd (tx_socket q))\<lparr>f_pollfd_write := PollFd p'\<rparr>\<rparr>\<rparr>, w')"
    by (simp add: TxQueue_poll_def Fd_poll_write_def PollFd_poll_def poll)
  from writable [OF assms poll] show ?thesis
  proof
    assume "0 < sint r"
    then have "\<not> sint r < 0" "r \<noteq> 0" by auto
    with run show ?thesis by auto
  next
    assume "r = 0 \<and> lag w' < lag w"
    with run show ?thesis by auto
  qed
qed

lemma resend_succeeds:
  assumes s: "between w x" and n: "unat n \<le> length (xk_descs x)" "length (xk_descs x) < 2 ^ 32"
    and fits: "size (on_way w x) + unat n \<le> capacity"
  shows "\<exists>x' w'. resend False L X w x n = Ret (True, x', w') \<and> xk_umem x' = xk_umem x"
proof -
  let ?ds = "take (unat n) (xk_descs x)" and ?q = "xk_tx_q x"
  have len: "length ?ds = unat n" "unat n = length ?ds mod 2 ^ 32" using n by simp_all
  have "length (queued w (tx_raw ?q)) \<le> size (on_way w x)" by (simp add: path_frames_def)
  with fits capacity [OF s] have room: "unat n \<le> room w (tx_raw ?q)" by simp
  have "pinv w (tx_raw ?q) \<and> staged w (tx_raw ?q) = []" using s by (simp add: path_settled_def)
  from send_outcome [OF this len(2)] room obtain m q1 w1 where
    sub: "TxQueue_produce False X w ?q ?ds = Ret (m, q1, w1)" "unat m = unat n" by (auto split: if_splits)
  then have m: "m = n" by (auto intro: unsigned_word_eqI)
  have b1: "settled w1 (tx_raw q1) (cq_raw (xk_cq x))"
    using submit_path [OF s sub(1)] n by simp
  obtain r w2 where wk: "TxQueue_wakeup L w1 q1 = (r, w2)" by (rule prod.exhaust)
  from wakeup_succeeds [OF b1 wk] obtain w3 where "TxQueue_wakeup_after L X w1 q1 n = (Inr n, q1, w3)"
    using wk by (cases "TxQueue_needs_wakeup X w1 q1") (simp_all add: TxQueue_wakeup_after_def)
  with sub m n(1) show ?thesis
    by (simp add: resend_def prefix_slice_def TxQueue_produce_and_wakeup_def unwrap_def)
qed

section \<open>Every turn brings the end nearer\<close>

text \<open>
  What is left to do: the packets not yet counted as consumed, each worth a full round of the
  loop, and the calls left in the present round.
\<close>

definition work :: "Config \<Rightarrow> 'w sender \<Rightarrow> nat" where
  "work config t = (2 * patience + 4) * (unat (cf_num_packets_to_send config) - unat (sd_consumed t))
     + (case sd_pc t of
          TxLoop \<Rightarrow> if avail (sd_world t) (cq_raw (xk_cq (sd_xsk t))) = [] then lag (sd_world t) + 2 else 1
        | TxPoll n \<Rightarrow> patience + lag (sd_world t) + 4
        | TxSend n \<Rightarrow> patience + 3
        | TxDone \<Rightarrow> 0)"

definition in_region :: "Umem \<Rightarrow> 'w sender \<Rightarrow> bool" where
  "in_region u t \<longleftrightarrow> xk_umem (sd_xsk t) = u \<and> length (sd_mem t) = unat (rg_len (um_mem u))"

lemma work_loop_bound: "sd_pc t = TxLoop \<Longrightarrow> work config t
    \<le> (2 * patience + 4) * (unat (cf_num_packets_to_send config) - unat (sd_consumed t)) + patience + 2"
  using lag [of "sd_world t"] by (simp add: work_def)

lemma poll_step_progress:
  assumes a: "accounts F ds0 go config t" and pc: "sd_pc t = TxPoll n" and u: "in_region u t"
  shows "\<exists>t'. sender_step False L X P g config t = Ret t' \<and> in_region u t' \<and> work config t' < work config t"
proof -
  have b: "between (sd_world t) (sd_xsk t)" and sent: "sd_sent t < cf_num_packets_to_send config"
    using a pc by (simp_all add: accounts_def counted_def batch_kept_def)
  obtain ready q w1 where p: "TxQueue_poll L (sd_world t) (xk_tx_q (sd_xsk t)) (cf_poll_ms_timeout config) = (Inr ready, q, w1)"
    "ready \<or> lag w1 < lag (sd_world t)" using poll_progress [OF b] by blast
  from p pc sent u show ?thesis
    by (cases ready) (simp_all add: sender_step_def unwrap_def frames_to_send_def sub_oc_def in_region_def work_def)
qed

lemma send_step_progress:
  assumes a: "accounts F ds0 go config t" and pc: "sd_pc t = TxSend n" and u: "in_region u t"
    and F: "size F \<le> capacity" and len: "length ds0 < 2 ^ 32"
  shows "\<exists>t'. sender_step False L X P g config t = Ret t' \<and> in_region u t' \<and> work config t' < work config t"
proof -
  let ?x = "sd_xsk t"
  have b: "between (sd_world t) ?x" "unat n \<le> length (xk_descs ?x)" "length (xk_descs ?x) < 2 ^ 32"
    "way t + frames (take (unat n) (xk_descs ?x)) \<subseteq># F"
    using a pc len by (simp_all add: accounts_def counted_def batch_kept_def to_submit_def)
  then have "size (way t) + unat n \<le> capacity"
    using size_mset_mono [OF b(4)] F by simp
  from resend_succeeds [OF b(1-3) this] obtain x' w' where r: "resend False L X (sd_world t) ?x n = Ret (True, x', w')"
    "xk_umem x' = xk_umem ?x" by blast
  define t' where "t' = t\<lparr>sd_world := w', sd_xsk := x', sd_sent := sd_sent t + n, sd_pc := TxLoop\<rparr>"
  have "work config t' < work config t"
    using work_loop_bound [of t' config] pc by (simp add: t'_def work_def)
  moreover have "sender_step False L X P g config t = Ret t'"
    using r pc by (simp add: sender_step_def add_oc_def t'_def)
  ultimately show ?thesis using u r by (simp add: in_region_def t'_def)
qed

lemma loop_step_waits:
  assumes b: "between (sd_world t) (sd_xsk t)" and pc: "sd_pc t = TxLoop" and u: "in_region u t"
    and way: "way t \<noteq> {#}" and left: "sd_consumed t < cf_num_packets_to_send config"
    and none: "avail (sd_world t) (cq_raw (xk_cq (sd_xsk t))) = []"
    and ds: "length (xk_descs (sd_xsk t)) mod 2 ^ 32 \<noteq> 0"
  shows "\<exists>t'. sender_step False L X P g config t = Ret t' \<and> in_region u t' \<and> work config t' < work config t"
proof -
  let ?w = "sd_world t" and ?x = "sd_xsk t"
  have "cinv ?w (cq_raw (xk_cq ?x)) \<and> held ?w (cq_raw (xk_cq ?x)) = []" using b by (simp add: path_settled_def)
  from comp_outcome [OF this, of "xk_descs ?x"] none obtain q w1 where
    c: "CompQueue_consume False X ?w (xk_cq ?x) (xk_descs ?x) = Ret (0, xk_descs ?x, q, w1)"
    and none1: "avail w1 (cq_raw q) = []" by auto
  let ?x1 = "?x\<lparr>xk_descs := xk_descs ?x, xk_cq := q\<rparr>"
  from consume_comp_path [OF b c] have p: "between w1 ?x1" "on_way w1 ?x1 \<noteq> {#}" using way by auto
  have lag1: "lag w1 = lag ?w" using consume_nothing [OF b none c ds] .
  from wake_tx_progress [OF p] none1 obtain w2 where w2: "wake_tx L X w1 ?x1 = Ret w2"
    "avail w2 (cq_raw q) \<noteq> [] \<or> lag w2 < lag w1" by auto
  with c left pc u lag1 none show ?thesis
    by (auto simp: sender_step_def Let_def in_region_def work_def)
qed

lemma loop_step_takes:
  assumes b: "between (sd_world t) (sd_xsk t)" and pc: "sd_pc t = TxLoop" and u: "in_region u t"
    and wf: "wf_region (um_mem u) cnt" and fits: "packets_fit P g (cf_payload_size config) u"
    and fresh: "\<And>a. frame a \<in># way t \<Longrightarrow> fresh_in u cnt (FrameDesc_new a)"
    and left: "sd_consumed t < cf_num_packets_to_send config"
    and count: "unat (sd_consumed t) + size (way t) = unat (sd_sent t)"
    and some: "avail (sd_world t) (cq_raw (xk_cq (sd_xsk t))) \<noteq> []"
    and ds: "length (xk_descs (sd_xsk t)) mod 2 ^ 32 \<noteq> 0"
  shows "\<exists>t'. sender_step False L X P g config t = Ret t' \<and> in_region u t' \<and> work config t' < work config t"
proof -
  let ?w = "sd_world t" and ?x = "sd_xsk t" and ?num = "cf_num_packets_to_send config"
  let ?av = "avail ?w (cq_raw (xk_cq ?x))"
  have "cinv ?w (cq_raw (xk_cq ?x)) \<and> held ?w (cq_raw (xk_cq ?x)) = []" using b by (simp add: path_settled_def)
  from comp_outcome [OF this, of "xk_descs ?x"] some ds obtain k q w1 where
    c: "CompQueue_consume False X ?w (xk_cq ?x) (xk_descs ?x)
      = Ret (of_nat k, map FrameDesc_new (take k ?av) @ drop k (xk_descs ?x), q, w1)"
    and k: "0 < k" "k \<le> length (xk_descs ?x) mod 2 ^ 32" "k \<le> length ?av" by auto
  define n :: usize where "n = of_nat k"
  have "k < 2 ^ 32" using k(2) by (metis le_less_trans mod_less_divisor zero_less_numeral zero_less_power)
  then have n: "unat n = k" by (simp add: n_def unat_of_nat_u64)
  then have n0: "n \<noteq> 0" using k(1) by auto
  define ds1 where "ds1 = map FrameDesc_new (take k ?av) @ drop k (xk_descs ?x)"
  let ?x1 = "?x\<lparr>xk_descs := ds1, xk_cq := q\<rparr>"
  note c' = c [folded n_def ds1_def]
  have "length ?av \<le> size (way t)" by (simp add: path_frames_def)
  then have cons: "unat (sd_consumed t + n) = unat (sd_consumed t) + k"
    using count k(3) n unat_u64_bound [of "sd_sent t"] by (simp add: unat_add_lem [THEN iffD1])
  define rem where "rem c = unat ?num - unat c" for c :: usize
  have less: "rem (sd_consumed t) = Suc (rem (sd_consumed t + n) + (rem (sd_consumed t) - Suc (rem (sd_consumed t + n))))"
    using left cons k(1) by (simp add: rem_def word_less_nat_alt)
  have big: "(2 * patience + 4) * rem (sd_consumed t + n) + (2 * patience + 4) \<le> (2 * patience + 4) * rem (sd_consumed t)"
    by (subst less) (simp add: distrib_left)
  have work: "(2 * patience + 4) * rem (sd_consumed t) < work config t"
    using pc by (simp add: work_def rem_def)
  show ?thesis
  proof (cases "sd_sent t < ?num")
    case False
    let ?t = "t\<lparr>sd_world := w1, sd_xsk := ?x1, sd_consumed := sd_consumed t + n\<rparr>"
    have "work config ?t < work config t"
      using work_loop_bound [of ?t config] big work pc by (simp add: rem_def)
    with c' False pc left n0 u show ?thesis
      by (simp add: sender_step_def Let_def add_oc_def in_region_def)
  next
    case True
    have "\<forall>d \<in> set (take (unat n) ds1). fresh_in u cnt d"
    proof
      fix d assume "d \<in> set (take (unat n) ds1)"
      then obtain a where a: "a \<in> set ?av" "d = FrameDesc_new a"
        using n k(3) by (auto simp: ds1_def dest: in_set_takeD)
      then have "frame a \<in># way t" by (auto simp: path_frames_def)
      with fresh a(2) show "fresh_in u cnt d" by simp
    qed
    moreover have "unat n \<le> length (xk_descs ?x1)" using n k by (simp add: ds1_def)
    ultimately obtain x2 mem2 w2 where
      wb: "write_batch False P g (cf_payload_size config) w1 (sd_mem t) ?x1 n = Ret (x2, mem2, w2)"
      "length mem2 = length (sd_mem t)" "xk_umem x2 = u"
      using write_batch_fresh [of ?x1 cnt P g "cf_payload_size config" "sd_mem t" n False w1] wf fits u
      by (auto simp: in_region_def)
    let ?t = "t\<lparr>sd_world := w2, sd_mem := mem2, sd_xsk := x2, sd_consumed := sd_consumed t + n, sd_pc := TxPoll n\<rparr>"
    have "work config ?t < work config t"
      using big work lag [of w2] by (simp add: work_def rem_def)
    with c' True pc left n0 u wb show ?thesis
      by (simp add: sender_step_def Let_def add_oc_def in_region_def)
  qed
qed

lemma sender_step_progress:
  assumes a: "accounts F ds0 go config t" and u: "in_region u t"
    and wf: "wf_region (um_mem u) cnt" and fits: "packets_fit P g (cf_payload_size config) u"
    and fresh: "\<And>a. frame a \<in># F \<Longrightarrow> fresh_in u cnt (FrameDesc_new a)"
    and F: "0 < size F" "size F \<le> capacity" "size F \<le> length ds0" and len: "length ds0 < 2 ^ 32"
  shows "\<exists>t'. sender_step False L X P g config t = Ret t' \<and> in_region u t'
    \<and> (if sd_pc t = TxDone then t' = t else work config t' < work config t)"
proof (cases "sd_pc t")
  case TxDone
  with u show ?thesis by (simp add: sender_step_def)
next
  case (TxPoll n)
  with poll_step_progress [OF a TxPoll u] show ?thesis by simp
next
  case (TxSend n)
  with send_step_progress [OF a TxSend u F(2) len] show ?thesis by simp
next
  case TxLoop
  show ?thesis
  proof (cases "sd_consumed t < cf_num_packets_to_send config")
    case False
    with TxLoop u show ?thesis by (simp add: sender_step_def in_region_def work_def)
  next
    case True
    have k: "between (sd_world t) (sd_xsk t)" "unat (sd_consumed t) + size (way t) = unat (sd_sent t)" "way t \<subseteq># F"
      "sd_sent t < cf_num_packets_to_send config \<longrightarrow> way t = F" "length (xk_descs (sd_xsk t)) = length ds0"
      using a TxLoop by (simp_all add: accounts_def counted_def batch_kept_def to_submit_def)
    have way: "way t \<noteq> {#}" using k(2,4) F(1) True by (auto simp: word_less_nat_alt)
    have ds: "length (xk_descs (sd_xsk t)) mod 2 ^ 32 \<noteq> 0" using k(5) F len by auto
    have fresh': "\<And>a. frame a \<in># way t \<Longrightarrow> fresh_in u cnt (FrameDesc_new a)"
      using fresh mset_subset_eqD [OF k(3)] by blast
    from loop_step_waits [OF k(1) TxLoop u way True _ ds]
      loop_step_takes [OF k(1) TxLoop u wf fits fresh' True k(2) _ ds] TxLoop
    show ?thesis by (cases "avail (sd_world t) (cq_raw (xk_cq (sd_xsk t))) = []") simp_all
  qed
qed

text \<open>Up to the loop: the first batch fits into the empty ring.\<close>

lemma sender_start_succeeds:
  assumes b: "between w x" and empty: "on_way w x = {#}" and len: "length (xk_descs x) < 2 ^ 32"
    and n: "n = unat (cf_max_batch_size config)" "n \<le> capacity" "n \<le> length (xk_descs x)"
    and wf: "wf_region (um_mem (xk_umem x)) cnt" "length mem = unat (rg_len (um_mem (xk_umem x)))"
    and fits: "packets_fit P g (cf_payload_size config) (xk_umem x)"
    and fresh: "\<forall>d \<in> set (take n (xk_descs x)). fresh_in (xk_umem x) cnt d"
  shows "\<exists>t. sender_start False X P g config go w mem x = Ret t \<and> in_region (xk_umem x) t"
proof -
  obtain x1 mem1 w1 where
    wb: "write_batch False P g (cf_payload_size config) w mem x (cf_max_batch_size config) = Ret (x1, mem1, w1)"
    "length mem1 = length mem" "xk_umem x1 = xk_umem x"
    using write_batch_fresh [OF wf(1) fits wf(2), of "cf_max_batch_size config" False w] n(1,3) fresh by auto
  note p = write_batch_path [OF b wb(1)]
  then have "map fd_addr (xk_descs x1) = map fd_addr (xk_descs x)" by simp
  then have len1: "length (xk_descs x1) = length (xk_descs x)" by (metis length_map)
  then have ds: "length (take n (xk_descs x1)) = n" "n = length (take n (xk_descs x1)) mod 2 ^ 32" using n(3) len by simp_all
  have "queued w1 (tx_raw (xk_tx_q x1)) = []" using p empty by (simp add: path_frames_def)
  with capacity [of w1 "tx_raw (xk_tx_q x1)" "cq_raw (xk_cq x1)"] p n(2) have room: "n \<le> room w1 (tx_raw (xk_tx_q x1))" by simp
  have "pinv w1 (tx_raw (xk_tx_q x1)) \<and> staged w1 (tx_raw (xk_tx_q x1)) = []" using p by (simp add: path_settled_def)
  from send_outcome [OF this ds(2)] room obtain m q w2 where
    sub: "TxQueue_produce False X w1 (xk_tx_q x1) (take n (xk_descs x1)) = Ret (m, q, w2)" "unat m = n"
    by (auto split: if_splits)
  then have "m = cf_max_batch_size config" using n(1) by (auto intro: unsigned_word_eqI)
  with wb sub(1) n wf(2) len1 show ?thesis
    by (simp add: sender_start_def first_batch_def prefix_slice_def in_region_def)
qed

lemma sender_reaches_end:
  assumes b: "between w x" and empty: "on_way w x = {#}" and len: "length (xk_descs x) < 2 ^ 32"
    and n: "n = unat (cf_max_batch_size config)" "0 < n" "n \<le> capacity" "n \<le> length (xk_descs x)"
    and wf: "wf_region (um_mem (xk_umem x)) cnt" "length mem = unat (rg_len (um_mem (xk_umem x)))"
    and fits: "packets_fit P g (cf_payload_size config) (xk_umem x)"
    and fresh: "\<forall>d \<in> set (take n (xk_descs x)). fresh_in (xk_umem x) cnt d" and inj: "inj frame"
    and k: "(2 * patience + 4) * unat (cf_num_packets_to_send config) + patience + 2 \<le> k"
  shows "\<exists>t0 t. sender_start False X P g config go w mem x = Ret t0
    \<and> steps k (sender_step False L X P g config) t0 = Ret t \<and> sd_pc t = TxDone
    \<and> (go \<longrightarrow> cf_num_packets_to_send config \<le> sd_consumed t)"
proof -
  obtain t0 where start: "sender_start False X P g config go w mem x = Ret t0" and u: "in_region (xk_umem x) t0"
    using sender_start_succeeds [OF b empty len n(1,3,4) wf fits fresh] by blast
  have again: "fresh_in (xk_umem x) cnt (FrameDesc_new a)" if "frame a \<in># frames (take n (xk_descs x))" for a
  proof -
    from that obtain d where d: "d \<in> set (take n (xk_descs x))" "frame a = frame (fd_addr d)" by auto
    with fresh have "fresh_in (xk_umem x) cnt d" by blast
    with fresh_in_new injD [OF inj d(2)] show ?thesis by simp
  qed
  let ?F = "frames (take n (xk_descs x))"
  note a0 = sender_start_accounts [OF b empty len start n(1)]
  then have F: "size ?F = unat (cf_max_batch_size config)" "0 < size ?F" "size ?F \<le> capacity" "size ?F \<le> length (xk_descs x)"
    using n by (simp_all add: min_absorb2)
  have "sd_pc t0 \<in> {TxLoop, TxDone}" "sd_consumed t0 = 0"
    using start by (auto simp: sender_start_def rbind_Ret_iff split: if_splits)
  then have w: "work config t0 \<le> k" using work_loop_bound [of t0 config] k by (auto simp: work_def)
  have "\<exists>t. steps k (sender_step False L X P g config) t0 = Ret t
      \<and> (accounts ?F (xk_descs x) go config t \<and> in_region (xk_umem x) t) \<and> sd_pc t = TxDone"
  proof (rule steps_reach [where m = "work config"])
    fix t assume I: "accounts ?F (xk_descs x) go config t \<and> in_region (xk_umem x) t"
    then have I': "accounts ?F (xk_descs x) go config t" "in_region (xk_umem x) t" by simp_all
    obtain t' where "sender_step False L X P g config t = Ret t'" "in_region (xk_umem x) t'"
      "if sd_pc t = TxDone then t' = t else work config t' < work config t"
      using sender_step_progress [OF I' wf(1) fits again F(2-4) len] by blast
    moreover from this I' have "accounts ?F (xk_descs x) go config t'"
      using sender_step_accounts [OF _ F(1) len] by blast
    ultimately show "\<exists>t'. sender_step False L X P g config t = Ret t'
        \<and> (accounts ?F (xk_descs x) go config t' \<and> in_region (xk_umem x) t')
        \<and> (if sd_pc t = TxDone then t' = t else work config t' < work config t)" by blast
    show "work config t = 0 \<Longrightarrow> sd_pc t = TxDone"
      by (auto simp: work_def split: tx_pc.splits if_splits)
  qed (use a0 u w in auto)
  with start show ?thesis by (auto simp: accounts_def batch_kept_def)
qed

text \<open>With an empty batch there is never a frame on the way, and the thread only looks and wakes.\<close>

lemma empty_batch_step:
  assumes b: "between (sd_world t) (sd_xsk t)" and pc: "sd_pc t = TxLoop" and way: "way t = {#}"
    and left: "sd_consumed t < cf_num_packets_to_send config"
  shows "\<exists>t'. sender_step False L X P g config t = Ret t' \<and> between (sd_world t') (sd_xsk t')
    \<and> way t' = {#} \<and> sd_pc t' = TxLoop \<and> sd_consumed t' = sd_consumed t"
proof -
  let ?w = "sd_world t" and ?x = "sd_xsk t"
  have none: "avail ?w (cq_raw (xk_cq ?x)) = []" using way by (simp add: path_frames_def)
  have "cinv ?w (cq_raw (xk_cq ?x)) \<and> held ?w (cq_raw (xk_cq ?x)) = []" using b by (simp add: path_settled_def)
  from comp_outcome [OF this, of "xk_descs ?x"] none obtain q w1 where
    c: "CompQueue_consume False X ?w (xk_cq ?x) (xk_descs ?x) = Ret (0, xk_descs ?x, q, w1)" by auto
  let ?x1 = "?x\<lparr>xk_descs := xk_descs ?x, xk_cq := q\<rparr>"
  from consume_comp_path [OF b c] way have p: "between w1 ?x1" "on_way w1 ?x1 = {#}" by auto
  obtain r w2 where wk: "TxQueue_wakeup L w1 (xk_tx_q ?x1) = (r, w2)" by (rule prod.exhaust)
  from wakeup_succeeds [OF p(1) wk] wk obtain w3 where w3: "wake_tx L X w1 ?x1 = Ret w3"
    by (cases "TxQueue_needs_wakeup X w1 (xk_tx_q ?x1)") (simp_all add: wake_tx_def unwrap_def)
  from wake_tx_path [OF p(1) w3] p(2) w3 c left pc show ?thesis
    by (simp add: sender_step_def Let_def)
qed

lemma empty_batch_spins:
  assumes b: "between w x" and empty: "on_way w x = {#}"
    and zero: "cf_max_batch_size config = 0" and num: "0 < cf_num_packets_to_send config"
  shows "\<exists>t0 t. sender_start False X P g config True w mem x = Ret t0
    \<and> steps k (sender_step False L X P g config) t0 = Ret t \<and> sd_pc t = TxLoop \<and> sd_consumed t = 0"
proof -
  define t0 where "t0 = \<lparr>sd_world = w, sd_mem = mem, sd_xsk = x, sd_sent = 0, sd_consumed = 0, sd_pc = TxLoop\<rparr>"
  have start: "sender_start False X P g config True w mem x = Ret t0"
    by (simp add: sender_start_def first_batch_def write_batch_def prefix_slice_def prefix_slice_back_def
      TxQueue_produce_def slice_len_def zero t0_def)
  have "\<exists>t. steps k (sender_step False L X P g config) t0 = Ret t \<and> between (sd_world t) (sd_xsk t)
    \<and> way t = {#} \<and> sd_pc t = TxLoop \<and> sd_consumed t = 0" (is "\<exists>t. ?run k t \<and> ?I t")
  proof (induction k)
    case 0
    with b empty show ?case by (simp add: t0_def)
  next
    case (Suc k)
    then obtain t where t: "?run k t" "?I t" by blast
    with empty_batch_step [of t config g] num obtain t' where "sender_step False L X P g config t = Ret t'" "?I t'"
      by auto
    with t show ?case by (auto simp: steps_Suc_end simp del: steps.simps(2))
  qed
  with start show ?thesis by blast
qed

end

section \<open>The reference kernel goes on\<close>

context kernel_link
begin

lemma move_completes:
  assumes at: "p_at a p" "c_at b c" and ok: "ref_prod_ok w p" "ref_staged get w p = []" "ref_cons_ok w c" "ref_held get' w c = []"
    and q: "ref_queued get w p \<noteq> []" and none: "ref_avail get' w c = []"
  shows "ref_avail get' (move w) c \<noteq> []"
proof -
  have ne: "rw_words w a \<noteq> rw_words w (a + 4)"
    using q at(1) by (auto simp: ref_queued_def p_queued_def p_at_def)
  have "c_avail w c = 0" "c_held w c = 0"
    using none ok(4) by (metis length_read_run list.size(3) ref_avail_def, simp add: no_held)
  then have "rw_words w b = rw_words w (b + 4)"
    using at(2) by (simp add: c_avail_def c_held_def c_at_def unat_eq_zero)
  then have room: "rw_words w b - rw_words w (b + 4) < 4" by simp
  show ?thesis
  proof (cases rule: move_cases [of w])
    case idle
    have "rw_words (move w) b = rw_words w b + 1"
      using ne room by (simp add: kernel_move_def Let_def ref_word_put_def not_le [symmetric])
    with idle show ?thesis by simp
  next
    case moved
    have "rw_words (move w) b = rw_words w b + 1" "rw_words (move w) (b + 4) = rw_words w (b + 4)"
      using places by (auto simp: moved(3))
    from move_to [OF at(2) ok(3) _ room this moved(5)] ok(4) show ?thesis by (simp add: no_held)
  qed
qed

end

lemma ref_send_progress:
  "send_progress ref_libxdp ref_prod_ok (ref_queued rw_descs) (ref_staged rw_descs) ref_base ref_room
     ref_cons_ok (ref_avail rw_addrs) (ref_held rw_addrs) ref_cons_base (\<lambda>p c. p_at 400 p \<and> c_at 200 c)
     (\<lambda>_. {#}) frame ref_kernel\<^sup>*\<^sup>* ref_os ref_packets 4 (\<lambda>_. 0) 0"
proof (rule send_progress.intro [OF ref_send.send_path_axioms], unfold_locales)
  fix w p c
  let ?settled = "path_settled ref_prod_ok (ref_staged rw_descs) ref_cons_ok (ref_held rw_addrs) (\<lambda>p c. p_at 400 p \<and> c_at 200 c)"
  assume s: "?settled w p c"
  then have at: "p_at 400 p" "c_at 200 c" and ok: "ref_prod_ok w p" "ref_staged rw_descs w p = []"
      "ref_cons_ok w c" "ref_held rw_addrs w c = []"
    by (simp_all add: path_settled_def)
  show "ref_room w p + length (ref_queued rw_descs w p) = 4"
    using at(1) ok(1,2) by (simp add: ref_room_def ref_queued_def no_staged ref_prod_ok_def p_at_def)
  show "prod_needs_wakeup ref_libxdp w p \<noteq> 0" by (simp add: ref_libxdp_def)
  fix fd bf m f a al r' w'
  assume send: "sendto ref_os w fd bf m f a al = (r', w')"
  then show "0 \<le> sint r' \<or> get_errno ref_os w' \<in> {ENOBUFS ref_os, EAGAIN ref_os, EBUSY ref_os, ENETDOWN ref_os}"
    by (auto simp: ref_os_def)
  assume "path_frames (\<lambda>d. frame (xd_addr d)) frame (ref_queued rw_descs) (\<lambda>_. {#}) (ref_avail rw_addrs) w p c \<noteq> {#}"
    and none: "ref_avail rw_addrs w c = []"
  then have "ref_queued rw_descs w p \<noteq> []" by (auto simp: path_frames_def)
  from tx_link.move_completes [OF at ok this none] send
  show "ref_avail rw_addrs w' c \<noteq> [] \<or> (0::nat) < 0" by (auto simp: ref_os_def ref_tx_move_def)
qed (auto simp: ref_os_def)

interpretation ref_progress: send_progress ref_libxdp ref_prod_ok "ref_queued rw_descs" "ref_staged rw_descs"
  ref_base ref_room ref_cons_ok "ref_avail rw_addrs" "ref_held rw_addrs" ref_cons_base
  "\<lambda>p c. p_at 400 p \<and> c_at 200 c" "\<lambda>_. {#}" frame "ref_kernel\<^sup>*\<^sup>*" ref_os ref_packets 4 "\<lambda>_. 0" 0 for frame
  by (rule ref_send_progress)

section \<open>Properties\<close>

text \<open>
  C15: the sending thread finishes. Let the kernel need at most \<open>patience\<close> calls before it
  completes a frame or lets the socket be written, let the first batch be non-empty and not
  larger than the transmit ring, its descriptors fresh ones of the UMEM, and let every
  generated packet fit in a frame. Then a release build gets through the first batch and within
  \<open>(2 * patience + 4) * num_packets_to_send + patience + 2\<close> turns of its loops the thread has
  returned without a panic; when it was given the go-ahead, every packet asked for has been
  sent and its frame taken back.
\<close>

theorem sender_finishes:
  assumes kernel: "send_progress X pinv queued staged pbase room cinv avail held cbase apart inside frame syscall L P
      capacity lag patience" and inj: "inj frame"
    and rings: "apart (tx_raw (xk_tx_q x)) (cq_raw (xk_cq x))" "pinv w (tx_raw (xk_tx_q x))" "cinv w (cq_raw (xk_cq x))"
    and empty: "queued w (tx_raw (xk_tx_q x)) = []" "staged w (tx_raw (xk_tx_q x)) = []" "inside w = {#}"
      "avail w (cq_raw (xk_cq x)) = []" "held w (cq_raw (xk_cq x)) = []"
    and len: "length (xk_descs x) < 2 ^ 32"
    and n: "n = unat (cf_max_batch_size config)" "0 < n" "n \<le> capacity" "n \<le> length (xk_descs x)"
    and umem: "wf_region (um_mem (xk_umem x)) cnt" "length mem = unat (rg_len (um_mem (xk_umem x)))"
    and fits: "packets_fit P g (cf_payload_size config) (xk_umem x)"
    and fresh: "\<forall>d \<in> set (take n (xk_descs x)). fresh_in (xk_umem x) cnt d"
    and k: "(2 * patience + 4) * unat (cf_num_packets_to_send config) + patience + 2 \<le> k"
  shows "\<exists>t0 t. sender_start False X P g config go_ahead w mem x = Ret t0
    \<and> steps k (sender_step False L X P g config) t0 = Ret t \<and> sd_pc t = TxDone
    \<and> (go_ahead \<longrightarrow> cf_num_packets_to_send config \<le> sd_consumed t)"
proof -
  have s: "path_settled pinv staged cinv held apart w (tx_raw (xk_tx_q x)) (cq_raw (xk_cq x))"
    using rings empty by (simp add: path_settled_def)
  have "path_frames (\<lambda>d. frame (xd_addr d)) frame queued inside avail w (tx_raw (xk_tx_q x)) (cq_raw (xk_cq x)) = {#}"
    using empty by (simp add: path_frames_def)
  from send_progress.sender_reaches_end [OF kernel s this len n umem fits fresh inj k] show ?thesis .
qed

text \<open>Three packets of two bytes over the reference kernel, one at a time.\<close>

theorem sender_finishes_witness:
  "\<exists>t0 t. sender_start False ref_libxdp ref_packets ref_generator ref_config True ref_zero (replicate 16 0)
        (ref_xsk ref_tx_descs) = Ret t0
    \<and> steps 14 (sender_step False ref_os ref_libxdp ref_packets ref_generator ref_config) t0 = Ret t
    \<and> sd_pc t = TxDone \<and> 3 \<le> sd_consumed t"
proof -
  let ?x = "ref_xsk ref_tx_descs"
  have x: "tx_ring (xk_tx_q ?x) = XskRingProd (ref_prod 400)" "cq_ring (xk_cq ?x) = XskRingCons (ref_cons 200)"
    "xk_descs ?x = ref_tx_descs" "xk_umem ?x = ref_umem"
    by (simp_all add: ref_xsk_def Let_def TxQueue_new_def CompQueue_new_def)
  have avail: "ref_avail rw_addrs ref_zero (ref_cons 200) = []"
    by (simp add: ref_avail_def c_avail_def ref_zero_def ref_cons_def)
  have inj: "inj (unat :: u64 \<Rightarrow> nat)" by (rule inj_onI) (rule unsigned_word_eqI)
  have num: "(2 * 0 + 4) * unat (cf_num_packets_to_send ref_config) + 0 + 2 \<le> 14"
    and one: "1 = unat (cf_max_batch_size ref_config)"
    and go: "cf_num_packets_to_send ref_config = 3" by (simp_all add: ref_config_def)
  have ds: "length ref_tx_descs < 2 ^ 32" "1 \<le> length ref_tx_descs" by (simp_all add: ref_tx_descs_def)
  have umem: "wf_region (um_mem ref_umem) 2" "length (replicate 16 0 :: u8 list) = unat (rg_len (um_mem ref_umem))"
    using ref_region_ok by (simp_all add: ref_umem_def)
  have fits: "packets_fit ref_packets ref_generator (cf_payload_size ref_config) ref_umem"
    by (simp add: packets_fit_def ref_packets_def ref_config_def ref_umem_def ref_region_def)
  have "desc_of (um_mem ref_umem) 2 (FrameDesc_new 4) 0 \<and> sl_data (fd_lengths (FrameDesc_new 4)) = 0"
    by (simp add: desc_of_def FrameDesc_new_def SegmentLengths_default_def data_off_def ref_umem_def ref_region_def)
  then have fresh: "\<forall>d \<in> set (take 1 ref_tx_descs). fresh_in ref_umem 2 d"
    by (auto simp: ref_tx_descs_def fresh_in_def)
  show ?thesis
    using sender_finishes [OF ref_send_progress [of unat] inj _ _ _ _ _ _ _ _ _ one _ _ _ _ _ _ _ num,
        where x = ?x and w = ref_zero and mem = "replicate 16 0" and cnt = 2 and go_ahead = True
          and g = ref_generator] avail ds umem fits fresh go
    by (auto simp: x)
qed

text \<open>
  C23: with a batch size of zero, which the options accept, the sending thread never finishes. Over
  the same kernel, it submits nothing, so nothing is ever completed, and after any number of turns
  it is still at the head of its loop with no packet counted.
\<close>

theorem sender_empty_batch_spins:
  assumes kernel: "send_progress X pinv queued staged pbase room cinv avail held cbase apart inside frame syscall L P
      capacity lag patience"
    and rings: "apart (tx_raw (xk_tx_q x)) (cq_raw (xk_cq x))" "pinv w (tx_raw (xk_tx_q x))" "cinv w (cq_raw (xk_cq x))"
    and empty: "queued w (tx_raw (xk_tx_q x)) = []" "staged w (tx_raw (xk_tx_q x)) = []" "inside w = {#}"
      "avail w (cq_raw (xk_cq x)) = []" "held w (cq_raw (xk_cq x)) = []"
    and zero: "cf_max_batch_size config = 0" and num: "0 < cf_num_packets_to_send config"
  shows "\<exists>t0 t. sender_start False X P g config True w mem x = Ret t0
    \<and> steps k (sender_step False L X P g config) t0 = Ret t \<and> sd_pc t = TxLoop \<and> sd_consumed t = 0"
proof -
  have s: "path_settled pinv staged cinv held apart w (tx_raw (xk_tx_q x)) (cq_raw (xk_cq x))"
    using rings empty by (simp add: path_settled_def)
  have "path_frames (\<lambda>d. frame (xd_addr d)) frame queued inside avail w (tx_raw (xk_tx_q x)) (cq_raw (xk_cq x)) = {#}"
    using empty by (simp add: path_frames_def)
  from send_progress.empty_batch_spins [OF kernel s this zero num] show ?thesis .
qed

theorem sender_empty_batch_spins_witness:
  "\<forall>k. \<exists>t0 t. sender_start False ref_libxdp ref_packets ref_generator (ref_config\<lparr>cf_max_batch_size := 0\<rparr>) True
        ref_zero [] (ref_xsk ref_tx_descs) = Ret t0
    \<and> steps k (sender_step False ref_os ref_libxdp ref_packets ref_generator (ref_config\<lparr>cf_max_batch_size := 0\<rparr>)) t0 = Ret t
    \<and> sd_pc t = TxLoop \<and> sd_consumed t = 0"
proof
  fix k
  let ?x = "ref_xsk ref_tx_descs" and ?cf = "ref_config\<lparr>cf_max_batch_size := 0\<rparr>"
  have x: "tx_ring (xk_tx_q ?x) = XskRingProd (ref_prod 400)" "cq_ring (xk_cq ?x) = XskRingCons (ref_cons 200)"
    by (simp_all add: ref_xsk_def Let_def TxQueue_new_def CompQueue_new_def)
  have avail: "ref_avail rw_addrs ref_zero (ref_cons 200) = []"
    by (simp add: ref_avail_def c_avail_def ref_zero_def ref_cons_def)
  have cf: "cf_max_batch_size ?cf = 0" "0 < cf_num_packets_to_send ?cf" by (simp_all add: ref_config_def)
  show "\<exists>t0 t. sender_start False ref_libxdp ref_packets ref_generator ?cf True ref_zero [] ?x = Ret t0
    \<and> steps k (sender_step False ref_os ref_libxdp ref_packets ref_generator ?cf) t0 = Ret t
    \<and> sd_pc t = TxLoop \<and> sd_consumed t = 0"
    by (rule sender_empty_batch_spins [OF ref_send_progress [of unat]]) (use avail cf in \<open>simp_all add: x\<close>)
qed

end
