(* ===== verification/Xsk_Beside.thy ===== *)
theory Xsk_Beside
  imports Xsk_Frame_Path
begin

text \<open>
  Two paths side by side. Threads that use different rings of the same memory do not disturb
  each other: what is shown for one path alone holds while the other is in use. The operations
  on the rings of one path keep what can be said of the other (the contract \<open>ring_ops\<close>), so a
  statement about the other path can be added to the invariant of this one.
\<close>

section \<open>Operations that keep something\<close>

text \<open>
  Ring operations on the rings in some place, related to a relation that they stay in; a ring
  stays in its place.
\<close>

locale ring_ops =
  fixes reserve :: "'w \<Rightarrow> 'p \<Rightarrow> u32 \<Rightarrow> u32 \<Rightarrow> u32 \<times> u32 \<times> 'p \<times> 'w"
    and slot_set :: "'w \<Rightarrow> 'p \<Rightarrow> u32 \<Rightarrow> 'e \<Rightarrow> 'w"
    and submit :: "'w \<Rightarrow> 'p \<Rightarrow> u32 \<Rightarrow> 'p \<times> 'w"
    and peek :: "'w \<Rightarrow> 'c \<Rightarrow> u32 \<Rightarrow> u32 \<Rightarrow> u32 \<times> u32 \<times> 'c \<times> 'w"
    and release :: "'w \<Rightarrow> 'c \<Rightarrow> u32 \<Rightarrow> 'c \<times> 'w"
    and pplace :: "'p \<Rightarrow> bool"
    and cplace :: "'c \<Rightarrow> bool"
    and kept :: "'w \<Rightarrow> 'w \<Rightarrow> bool"
  assumes reserve_kept: "pplace p \<Longrightarrow> reserve w p nb i = (n, i', p', w') \<Longrightarrow> pplace p' \<and> kept w w'"
    and slot_set_kept: "pplace p \<Longrightarrow> kept w (slot_set w p i e)"
    and submit_kept: "pplace p \<Longrightarrow> submit w p n = (p', w') \<Longrightarrow> pplace p' \<and> kept w w'"
    and peek_kept: "cplace c \<Longrightarrow> peek w c nb i = (n, i', c', w') \<Longrightarrow> cplace c' \<and> kept w w'"
    and release_kept: "cplace c \<Longrightarrow> release w c n = (c', w') \<Longrightarrow> cplace c' \<and> kept w w'"
begin

lemma weaken:
  assumes "\<And>w w'. kept w w' \<Longrightarrow> K w w'"
  shows "ring_ops reserve slot_set submit peek release pplace cplace K"
  by (rule ring_ops.intro)
    (blast intro: assms slot_set_kept dest: reserve_kept submit_kept peek_kept release_kept)+

end

text \<open>What of a path is seen from beside it: whether it is settled, and its frames.\<close>

definition view_kept :: "('w \<Rightarrow> 'p \<Rightarrow> 'c \<Rightarrow> bool) \<Rightarrow> ('w \<Rightarrow> 'p \<Rightarrow> 'c \<Rightarrow> nat multiset)
    \<Rightarrow> ('p \<Rightarrow> bool) \<Rightarrow> ('c \<Rightarrow> bool) \<Rightarrow> 'w \<Rightarrow> 'w \<Rightarrow> bool" where
  "view_kept settled path pplace cplace w w' \<longleftrightarrow> (\<forall>p c. pplace p \<longrightarrow> cplace c \<longrightarrow>
     settled w' p c = settled w p c \<and> path w' p c = path w p c)"

section \<open>A path with a statement beside it\<close>

locale beside_path =
  frame_path reserve slot_set submit pinv queued staged pbase room peek slot_get release cinv avail held
    cbase apart inside pframe cframe syscall +
  quiet: ring_ops reserve slot_set submit peek release pplace cplace "\<lambda>w w'. V w' = V w"
  for reserve :: "'w \<Rightarrow> 'p \<Rightarrow> u32 \<Rightarrow> u32 \<Rightarrow> u32 \<times> u32 \<times> 'p \<times> 'w"
    and slot_set :: "'w \<Rightarrow> 'p \<Rightarrow> u32 \<Rightarrow> 'e \<Rightarrow> 'w"
    and submit :: "'w \<Rightarrow> 'p \<Rightarrow> u32 \<Rightarrow> 'p \<times> 'w"
    and pinv queued staged pbase room
    and peek :: "'w \<Rightarrow> 'c \<Rightarrow> u32 \<Rightarrow> u32 \<Rightarrow> u32 \<times> u32 \<times> 'c \<times> 'w"
    and slot_get :: "'w \<Rightarrow> 'c \<Rightarrow> u32 \<Rightarrow> 'f"
    and release :: "'w \<Rightarrow> 'c \<Rightarrow> u32 \<Rightarrow> 'c \<times> 'w"
    and cinv avail held cbase apart inside pframe cframe syscall pplace cplace
    and V :: "'w \<Rightarrow> bool" +
  assumes places: "apart p c \<Longrightarrow> pplace p \<and> cplace c"
    and syscall_view: "V w \<Longrightarrow> syscall w w' \<Longrightarrow> V w'"
begin

abbreviation pinv_beside :: "'w \<Rightarrow> 'p \<Rightarrow> bool" where
  "pinv_beside w p \<equiv> pinv w p \<and> pplace p \<and> V w"

abbreviation cinv_beside :: "'w \<Rightarrow> 'c \<Rightarrow> bool" where
  "cinv_beside w c \<equiv> cinv w c \<and> cplace c"

lemma settled_beside:
  "path_settled pinv_beside staged cinv_beside held apart w p c \<longleftrightarrow> settled w p c \<and> V w"
  using places by (auto simp: path_settled_def)

lemma producer_beside: "prod_ring reserve slot_set submit pinv_beside queued staged pbase room"
proof (rule prod_ring.intro)
  fix w p and nb idx :: u32
  assume "pinv_beside w p" "staged w p = []" "unat nb \<le> room w p"
  then show "\<exists>idx' r' w'. reserve w p nb idx = (nb, idx', r', w') \<and> pinv_beside w' r' \<and>
      queued w' r' = queued w p \<and> length (staged w' r') = unat nb \<and>
      (0 < nb \<longrightarrow> idx' = pbase w' r') \<and> room w' r' + unat nb = room w p"
    using reserve_ok [of w p nb idx] quiet.reserve_kept [of p w nb idx] by fastforce
next
  fix w p and nb idx :: u32
  assume "pinv_beside w p" "staged w p = []" "room w p < unat nb"
  then show "\<exists>idx' r' w'. reserve w p nb idx = (0, idx', r', w') \<and> pinv_beside w' r' \<and>
      queued w' r' = queued w p \<and> staged w' r' = [] \<and> room w' r' = room w p"
    using reserve_full [of w p nb idx] quiet.reserve_kept [of p w nb idx] by fastforce
next
  fix w p nb p' w'
  assume "pinv_beside w p" "unat nb = length (staged w p)" "submit w p nb = (p', w')"
  then show "pinv_beside w' p' \<and> queued w' p' = queued w p @ staged w p \<and> staged w' p' = []
      \<and> room w' p' = room w p"
    using submit_ok [of w p nb p' w'] quiet.submit_kept [of p w nb p' w'] by simp
qed (simp_all add: slot_set_invar slot_set_staged slot_set_frame quiet.slot_set_kept)

lemma consumer_beside: "cons_ring peek slot_get release cinv_beside avail held cbase"
  by (rule cons_ring.intro) (auto simp: cons.slot_get_held
    dest: cons.peek_ok quiet.peek_kept cons.release_ok quiet.release_kept)

lemma path_beside:
  "frame_path reserve slot_set submit pinv_beside queued staged pbase room peek slot_get release cinv_beside
     avail held cbase apart inside pframe cframe syscall"
proof (rule frame_path.intro [OF producer_beside consumer_beside], rule frame_path_axioms.intro)
  fix p c w nb i n i' c' w'
  assume a: "apart p c" "peek w c nb i = (n, i', c', w')"
  then show "apart p c' \<and> inside w' = inside w \<and> pinv_beside w' p = pinv_beside w p
      \<and> queued w' p = queued w p \<and> staged w' p = staged w p"
    using peek_apart [OF a] quiet.peek_kept [OF _ a(2)] places by auto
next
  fix p c w n c' w'
  assume a: "apart p c" "release w c n = (c', w')"
  then show "apart p c' \<and> inside w' = inside w \<and> pinv_beside w' p = pinv_beside w p
      \<and> queued w' p = queued w p \<and> staged w' p = staged w p"
    using release_apart [OF a] quiet.release_kept [OF _ a(2)] places by auto
next
  fix p c w w'
  assume "apart p c" "pinv_beside w p" "staged w p = []" "cinv_beside w c" "held w c = []" "syscall w w'"
  then show "pinv_beside w' p \<and> staged w' p = [] \<and> cinv_beside w' c \<and> held w' c = []
      \<and> path w' p c = path w p c"
    using syscall_moves [of p c w w'] syscall_view by auto
qed (use places in \<open>auto dest: reserve_apart submit_apart simp: slot_set_apart\<close>)

end

end
