(* ===== verification/Xsk_Two_Threads.thy ===== *)
theory Xsk_Two_Threads
  imports Xsk_Receiver Xsk_Sender Xsk_Beside
begin

text \<open>
  The multithreaded mode of \<^verbatim>\<open>examples/dev1_to_dev2.rs\<close>: the receiving and the sending thread
  run at the same time, over one memory and one kernel. Their steps are interleaved in any
  order, with the kernel running between them. The sending thread waits for the go-ahead of
  the receiving one; the receiving thread stops when the other one has finished.
\<close>

section \<open>The two threads\<close>

text \<open>
  A thread that has not started yet is absent; a thread that panicked makes no more steps. The
  flag \<^verbatim>\<open>SENDER_DONE\<close> is set when the sending thread leaves its loop. When the receiving thread
  panics before it gives the go-ahead, the sending one returns without having sent anything;
  here it stays where it is.
\<close>

record 'w two_threads =
  tw_world :: 'w
  tw_rx :: "'w receiver option"
  tw_tx :: "'w sender option"

definition SENDER_DONE :: "'w two_threads \<Rightarrow> bool" where
  "SENDER_DONE d \<longleftrightarrow> (case tw_tx d of None \<Rightarrow> False | Some s \<Rightarrow> sd_pc s = TxDone)"

inductive two_step :: "bool \<Rightarrow> 'w libc \<Rightarrow> 'w libxdp \<Rightarrow> 'w packet_lib \<Rightarrow> PacketGenerator \<Rightarrow> Config
    \<Rightarrow> ('w \<Rightarrow> 'w \<Rightarrow> bool) \<Rightarrow> u8 list \<Rightarrow> Xsk \<Rightarrow> Xsk \<Rightarrow> 'w two_threads \<Rightarrow> 'w two_threads \<Rightarrow> bool"
  for oc L X P g config os mem xsk_tx xsk_rx where
  start_rx: "tw_rx d = None \<Longrightarrow>
    receiver_start oc X (cf_receiver config) True (tw_world d) xsk_rx = Ret r \<Longrightarrow>
    two_step oc L X P g config os mem xsk_tx xsk_rx d (d\<lparr>tw_world := rv_world r, tw_rx := Some r\<rparr>)"
| start_tx: "tw_tx d = None \<Longrightarrow>
    sender_start oc X P g config True (tw_world d) mem xsk_tx = Ret s \<Longrightarrow>
    two_step oc L X P g config os mem xsk_tx xsk_rx d (d\<lparr>tw_world := sd_world s, tw_tx := Some s\<rparr>)"
| rx: "tw_rx d = Some r \<Longrightarrow>
    receiver_step oc L X (\<lambda>_. SENDER_DONE d) config (r\<lparr>rv_world := tw_world d\<rparr>) = Ret r' \<Longrightarrow>
    two_step oc L X P g config os mem xsk_tx xsk_rx d (d\<lparr>tw_world := rv_world r', tw_rx := Some r'\<rparr>)"
| tx: "tw_tx d = Some s \<Longrightarrow> tw_rx d = Some r \<Longrightarrow>
    sender_step oc L X P g config (s\<lparr>sd_world := tw_world d\<rparr>) = Ret s' \<Longrightarrow>
    two_step oc L X P g config os mem xsk_tx xsk_rx d (d\<lparr>tw_world := sd_world s', tw_tx := Some s'\<rparr>)"
| os: "os (tw_world d) w \<Longrightarrow>
    two_step oc L X P g config os mem xsk_tx xsk_rx d (d\<lparr>tw_world := w\<rparr>)"

definition two_start :: "'w \<Rightarrow> 'w two_threads" where
  "two_start w = \<lparr>tw_world = w, tw_rx = None, tw_tx = None\<rparr>"

text \<open>When the receiving thread finishes.\<close>

lemma receiver_step_done:
  assumes "receiver_step oc L X sender_done config t = Ret t'" and "rv_pc t' = RxDone"
  shows "rv_pc t = RxDone \<and> rv_total t' = rv_total t \<or> cf_num_packets_to_send config \<le> rv_total t'
    \<or> sender_done (rv_world t')"
proof (cases "rv_pc t")
  case RxLoop
  with assms show ?thesis
    by (auto simp: receiver_step_def rbind_Ret_iff Let_def not_less split: if_splits prod.splits)
next
  case (RxRefill n)
  with assms show ?thesis
    by (auto simp: receiver_step_def rbind_Ret_iff split: if_splits prod.splits)
next
  case RxDone
  with assms show ?thesis by (auto simp: receiver_step_def)
qed

text \<open>What a thread holds is in its own descriptors.\<close>

lemma hands_of_world [simp]:
  "in_hand (r\<lparr>rv_world := w\<rparr>) = in_hand r" "to_submit (s\<lparr>sd_world := w\<rparr>) = to_submit s"
  by (simp_all add: in_hand_def to_submit_def split: rx_pc.split tx_pc.split)

text \<open>A thread finishes for a reason; the flag, once set, stays set.\<close>

definition done_for_reason :: "Config \<Rightarrow> 'w two_threads \<Rightarrow> bool" where
  "done_for_reason config d \<longleftrightarrow> (\<forall>r. tw_rx d = Some r \<and> rv_pc r = RxDone \<longrightarrow>
     cf_num_packets_to_send config \<le> rv_total r \<or> SENDER_DONE d)"

lemma sender_step_done: "sd_pc t = TxDone \<Longrightarrow> sender_step oc L X P g config t = Ret t"
  by (simp add: sender_step_def)

lemma SENDER_DONE_stays:
  "two_step oc L X P g config os mem xt xr d d' \<Longrightarrow> SENDER_DONE d \<Longrightarrow> SENDER_DONE d'"
  by (erule two_step.cases) (auto simp: SENDER_DONE_def sender_step_done split: option.splits)

lemma two_step_done:
  assumes "two_step oc L X P g config os mem xt xr d d'" and "done_for_reason config d"
  shows "done_for_reason config d'"
  using assms(1)
proof cases
  case (start_rx r)
  then have "rv_pc r = RxLoop" by (auto simp: receiver_start_def rbind_Ret_iff)
  with start_rx assms(2) show ?thesis by (auto simp: done_for_reason_def)
next
  case (rx r r')
  with assms(2) receiver_step_done [OF rx(3)] SENDER_DONE_stays [OF assms(1)] show ?thesis
    by (auto simp: done_for_reason_def)
qed (use assms(2) SENDER_DONE_stays [OF assms(1)] in \<open>auto simp: done_for_reason_def\<close>)

section \<open>Side by side\<close>

text \<open>
  The receive path of one socket and the transmit path of the other: the rings of the two are
  in different places, and what is done to those of one path is not seen from the other.
\<close>

locale side_by_side =
  rx: receive_path X rx_pinv rx_queued rx_staged rx_base rx_room rx_cinv rx_avail rx_held rx_cbase
    rx_apart rx_inside rframe syscall L +
  tx: send_path X tx_pinv tx_queued tx_staged tx_base tx_room tx_cinv tx_avail tx_held tx_cbase
    tx_apart tx_inside tframe syscall L P +
  rxo: ring_ops "reserve X" "fill_addr_set X" "submit X" "peek X" "release X" rx_prod rx_cons
    "view_kept (path_settled tx_pinv tx_staged tx_cinv tx_held tx_apart)
      (path_frames (\<lambda>d. tframe (xd_addr d)) tframe tx_queued tx_inside tx_avail) tx_prod tx_cons" +
  txo: ring_ops "reserve X" "tx_desc_set X" "submit X" "peek X" "release X" tx_prod tx_cons
    "view_kept (path_settled rx_pinv rx_staged rx_cinv rx_held rx_apart)
      (path_frames rframe (\<lambda>d. rframe (xd_addr d)) rx_queued rx_inside rx_avail) rx_prod rx_cons"
  for X :: "'w libxdp" and rx_pinv rx_queued rx_staged rx_base rx_room rx_cinv rx_avail rx_held rx_cbase
    rx_apart rx_inside rframe tx_pinv tx_queued tx_staged tx_base tx_room tx_cinv tx_avail tx_held tx_cbase
    tx_apart tx_inside tframe syscall L P rx_prod rx_cons tx_prod tx_cons +
  assumes rx_places: "rx_apart p c \<Longrightarrow> rx_prod p \<and> rx_cons c"
    and tx_places: "tx_apart p c \<Longrightarrow> tx_prod p \<and> tx_cons c"
begin

text \<open>What each path's threads can take for granted about the other one.\<close>

abbreviation rx_at :: "xsk_ring_prod \<Rightarrow> xsk_ring_cons \<Rightarrow> nat multiset \<Rightarrow> 'w \<Rightarrow> bool" where
  "rx_at p c M w \<equiv> rx.settled w p c \<and> rx.path w p c = M"

abbreviation tx_at :: "xsk_ring_prod \<Rightarrow> xsk_ring_cons \<Rightarrow> nat multiset \<Rightarrow> 'w \<Rightarrow> bool" where
  "tx_at p c M w \<equiv> tx.settled w p c \<and> tx.path w p c = M"

lemma rx_beside:
  assumes "tx_prod p" "tx_cons c"
  shows "beside_path (reserve X) (fill_addr_set X) (submit X) rx_pinv rx_queued rx_staged rx_base rx_room
    (peek X) (rx_desc_get X) (release X) rx_cinv rx_avail rx_held rx_cbase rx_apart rx_inside rframe
    (\<lambda>d. rframe (xd_addr d)) syscall rx_prod rx_cons (tx_at p c M)"
proof (rule beside_path.intro [OF rx.frame_path_axioms _ beside_path_axioms.intro])
  show "ring_ops (reserve X) (fill_addr_set X) (submit X) (peek X) (release X) rx_prod rx_cons
      (\<lambda>w w'. tx_at p c M w' = tx_at p c M w)"
    by (rule rxo.weaken) (use assms in \<open>auto simp: view_kept_def\<close>)
qed (use rx_places tx.syscall_path in auto)

lemma tx_beside:
  assumes "rx_prod p" "rx_cons c"
  shows "beside_path (reserve X) (tx_desc_set X) (submit X) tx_pinv tx_queued tx_staged tx_base tx_room
    (peek X) (comp_addr_get X) (release X) tx_cinv tx_avail tx_held tx_cbase tx_apart tx_inside
    (\<lambda>d. tframe (xd_addr d)) tframe syscall tx_prod tx_cons (rx_at p c M)"
proof (rule beside_path.intro [OF tx.frame_path_axioms _ beside_path_axioms.intro])
  show "ring_ops (reserve X) (tx_desc_set X) (submit X) (peek X) (release X) tx_prod tx_cons
      (\<lambda>w w'. rx_at p c M w' = rx_at p c M w)"
    by (rule txo.weaken) (use assms in \<open>auto simp: view_kept_def\<close>)
qed (use tx_places rx.syscall_path in auto)

lemma rx_receive:
  assumes "tx_prod p" "tx_cons c"
  shows "receive_path X (\<lambda>w q. rx_pinv w q \<and> rx_prod q \<and> tx_at p c M w) rx_queued rx_staged rx_base rx_room
    (\<lambda>w q. rx_cinv w q \<and> rx_cons q) rx_avail rx_held rx_cbase rx_apart rx_inside rframe syscall L"
  by (intro receive_path.intro beside_path.path_beside [OF rx_beside [OF assms]] rx.receive_path_axioms
      receive_path_axioms.intro rx.poll_syscall)

lemma tx_send:
  assumes "rx_prod p" "rx_cons c"
  shows "send_path X (\<lambda>w q. tx_pinv w q \<and> tx_prod q \<and> rx_at p c M w) tx_queued tx_staged tx_base tx_room
    (\<lambda>w q. tx_cinv w q \<and> tx_cons q) tx_avail tx_held tx_cbase tx_apart tx_inside tframe syscall L P"
  by (intro send_path.intro beside_path.path_beside [OF tx_beside [OF assms]]
      send_path_axioms.intro) (fact tx.poll_syscall tx.sendto_syscall tx.random_syscall)+

text \<open>One step of a thread keeps its own invariant and the state of the other path.\<close>

lemma rx_conserves_beside:
  assumes "tx_prod p" "tx_cons c"
  shows "receive_path.conserves (\<lambda>w q. rx_pinv w q \<and> rx_prod q \<and> tx_at p c M w) rx_queued rx_staged
      (\<lambda>w q. rx_cinv w q \<and> rx_cons q) rx_avail rx_held rx_apart rx_inside rframe T ds0 t
    \<longleftrightarrow> rx.conserves T ds0 t \<and> tx_at p c M (rv_world t)"
  unfolding receive_path.conserves_def [OF rx_receive [OF assms]] rx.conserves_def
    beside_path.settled_beside [OF rx_beside [OF assms]] by blast

lemma tx_accounts_beside:
  assumes "rx_prod p" "rx_cons c"
  shows "send_path.accounts (\<lambda>w q. tx_pinv w q \<and> tx_prod q \<and> rx_at p c M w) tx_queued tx_staged
      (\<lambda>w q. tx_cinv w q \<and> tx_cons q) tx_avail tx_held tx_apart tx_inside tframe F ds0 go config t
    \<longleftrightarrow> tx.accounts F ds0 go config t \<and> rx_at p c M (sd_world t)"
  unfolding send_path.accounts_def [OF tx_send [OF assms]] tx.accounts_def
    send_path.counted_def [OF tx_send [OF assms]] tx.counted_def
    send_path.batch_kept_def [OF tx_send [OF assms]] tx.batch_kept_def
    beside_path.settled_beside [OF tx_beside [OF assms]] by blast

lemma rx_step_beside:
  assumes "rx.conserves T ds0 t" and "length ds0 < 2 ^ 32" and "tx_at p c M (rv_world t)"
    and "receiver_step oc L X sender_done config t = Ret t'"
  shows "rx.conserves T ds0 t' \<and> tx_at p c M (rv_world t')"
proof -
  have at: "tx_prod p" "tx_cons c" using assms(3) tx_places by (auto simp: path_settled_def)
  show ?thesis
    using receive_path.receiver_step_conserves [OF rx_receive [OF at] _ assms(2,4), of M T] assms(1,3)
    unfolding rx_conserves_beside [OF at] by blast
qed

lemma tx_step_beside:
  assumes "tx.accounts F ds0 go config t" and "size F = unat (cf_max_batch_size config)"
    and "length ds0 < 2 ^ 32" and "rx_at p c M (sd_world t)"
    and "sender_step oc L X P g config t = Ret t'"
  shows "tx.accounts F ds0 go config t' \<and> rx_at p c M (sd_world t')"
proof -
  have at: "rx_prod p" "rx_cons c" using assms(4) rx_places by (auto simp: path_settled_def)
  show ?thesis
    using send_path.sender_step_accounts [OF tx_send [OF at] _ assms(2,3,5), of M] assms(1,4)
    unfolding tx_accounts_beside [OF at] by blast
qed

lemma rx_start_beside:
  assumes "rx.between w x" "rx.on_way w x = {#}" "length (xk_descs x) < 2 ^ 32" and v: "tx_at p c M w"
    and start: "receiver_start oc X rx_cfg there w x = Ret t" "n = unat (QueueSize_get (xc_fq_size rx_cfg))"
  shows "rx.conserves (rx.frames (take n (xk_descs x))) (xk_descs x) t \<and> n \<le> length (xk_descs x)
    \<and> tx_at p c M (rv_world t)"
proof -
  have at: "tx_prod p" "tx_cons c" using v tx_places by (auto simp: path_settled_def)
  show ?thesis
    using receive_path.receiver_start_conserves [OF rx_receive [OF at] _ assms(2,3) start, of M] assms(1) v
    unfolding rx_conserves_beside [OF at] beside_path.settled_beside [OF rx_beside [OF at]] by blast
qed

lemma tx_start_beside:
  assumes "tx.between w x" "tx.on_way w x = {#}" "length (xk_descs x) < 2 ^ 32" and v: "rx_at p c M w"
    and start: "sender_start oc X P g config go w mem x = Ret t" "n = unat (cf_max_batch_size config)"
  shows "tx.accounts (tx.frames (take n (xk_descs x))) (xk_descs x) go config t \<and> n \<le> length (xk_descs x)
    \<and> rx_at p c M (sd_world t)"
proof -
  have at: "rx_prod p" "rx_cons c" using v rx_places by (auto simp: path_settled_def)
  show ?thesis
    using send_path.sender_start_accounts [OF tx_send [OF at] _ assms(2,3) start, of M] assms(1) v
    unfolding tx_accounts_beside [OF at] beside_path.settled_beside [OF tx_beside [OF at]] by blast
qed

text \<open>
  The invariant of the two threads together: each half speaks of the world only through its
  own path.
\<close>

definition rx_half :: "nat multiset \<Rightarrow> Xsk \<Rightarrow> 'w \<Rightarrow> 'w receiver option \<Rightarrow> bool" where
  "rx_half F x w v = (case v of None \<Rightarrow> rx.between w x \<and> rx.on_way w x = {#}
     | Some r \<Rightarrow> rx.conserves F (xk_descs x) (r\<lparr>rv_world := w\<rparr>))"

definition tx_half :: "nat multiset \<Rightarrow> Xsk \<Rightarrow> Config \<Rightarrow> 'w \<Rightarrow> 'w sender option \<Rightarrow> bool" where
  "tx_half F x config w v = (case v of None \<Rightarrow> tx.between w x \<and> tx.on_way w x = {#}
     | Some s \<Rightarrow> tx.accounts F (xk_descs x) True config (s\<lparr>sd_world := w\<rparr>))"

definition rx_socket_of :: "Xsk \<Rightarrow> 'w receiver option \<Rightarrow> Xsk" where
  "rx_socket_of x v = (case v of None \<Rightarrow> x | Some r \<Rightarrow> rv_xsk r)"

definition tx_socket_of :: "Xsk \<Rightarrow> 'w sender option \<Rightarrow> Xsk" where
  "tx_socket_of x v = (case v of None \<Rightarrow> x | Some s \<Rightarrow> sd_xsk s)"

lemma rx_half_view:
  assumes "rx_half F x w v"
  shows "rx.between w (rx_socket_of x v)"
    and "rx_at (fq_raw (xk_fq (rx_socket_of x v))) (rx_raw (xk_rx_q (rx_socket_of x v)))
      (rx.on_way w (rx_socket_of x v)) w' \<Longrightarrow> rx_half F x w' v"
  using assms by (auto simp: rx_half_def rx_socket_of_def rx.conserves_def split: option.splits)

lemma tx_half_view:
  assumes "tx_half F x config w v"
  shows "tx.between w (tx_socket_of x v)"
    and "tx_at (tx_raw (xk_tx_q (tx_socket_of x v))) (cq_raw (xk_cq (tx_socket_of x v)))
      (tx.on_way w (tx_socket_of x v)) w' \<Longrightarrow> tx_half F x config w' v"
  using assms
  by (auto simp: tx_half_def tx_socket_of_def tx.accounts_def tx.counted_def tx.batch_kept_def
    split: option.splits tx_pc.splits)

lemma two_step_halves:
  assumes step: "two_step oc L X P g config syscall mem xt xr d d'"
    and rx: "rx_half Fr xr (tw_world d) (tw_rx d)" and tx: "tx_half Ft xt config (tw_world d) (tw_tx d)"
    and len: "length (xk_descs xr) < 2 ^ 32" "length (xk_descs xt) < 2 ^ 32"
    and Fr: "Fr = rx.frames (take (unat (QueueSize_get (xc_fq_size (cf_receiver config)))) (xk_descs xr))"
    and Ft: "Ft = tx.frames (take (unat (cf_max_batch_size config)) (xk_descs xt))"
    and size: "tw_tx d \<noteq> None \<Longrightarrow> size Ft = unat (cf_max_batch_size config)"
  shows "rx_half Fr xr (tw_world d') (tw_rx d') \<and> tx_half Ft xt config (tw_world d') (tw_tx d')"
  using step
proof cases
  case (start_rx r)
  have r: "rx.between (tw_world d) xr" "rx.on_way (tw_world d) xr = {#}"
    using rx start_rx(2) by (simp_all add: rx_half_def)
  note v = tx_half_view [OF tx]
  from rx_start_beside [OF r len(1) conjI [OF v(1) refl] start_rx(3) refl] v(2)
  show ?thesis by (simp add: start_rx(1) rx_half_def Fr)
next
  case (start_tx s)
  have t: "tx.between (tw_world d) xt" "tx.on_way (tw_world d) xt = {#}"
    using tx start_tx(2) by (simp_all add: tx_half_def)
  note v = rx_half_view [OF rx]
  from tx_start_beside [OF t len(2) conjI [OF v(1) refl] start_tx(3) refl] v(2)
  show ?thesis by (simp add: start_tx(1) tx_half_def Ft)
next
  case (rx r r')
  note v = tx_half_view [OF tx]
  have c: "rx.conserves Fr (xk_descs xr) (r\<lparr>rv_world := tw_world d\<rparr>)"
    using assms(2) rx(2) by (simp add: rx_half_def)
  from rx_step_beside [OF c len(1) _ rx(3)] v
  show ?thesis by (simp add: rx(1) rx_half_def)
next
  case (tx s r s')
  note v = rx_half_view [OF rx]
  have c: "tx.accounts Ft (xk_descs xt) True config (s\<lparr>sd_world := tw_world d\<rparr>)"
    using assms(3) tx(2) by (simp add: tx_half_def)
  from tx_step_beside [OF c size len(2) _ tx(4)] v tx(2)
  show ?thesis by (simp add: tx(1) tx_half_def)
next
  case (os w)
  note v = rx_half_view [OF rx] tx_half_view [OF tx]
  from rx.syscall_path [OF v(1) os(2)] tx.syscall_path [OF v(3) os(2)] v(2,4)
  show ?thesis by (simp add: os(1))
qed

definition two_ok :: "Xsk \<Rightarrow> Xsk \<Rightarrow> Config \<Rightarrow> 'w two_threads \<Rightarrow> bool" where
  "two_ok xt xr config d \<longleftrightarrow> (let n = unat (QueueSize_get (xc_fq_size (cf_receiver config)));
       b = unat (cf_max_batch_size config) in
     rx_half (rx.frames (take n (xk_descs xr))) xr (tw_world d) (tw_rx d)
     \<and> tx_half (tx.frames (take b (xk_descs xt))) xt config (tw_world d) (tw_tx d)
     \<and> (tw_rx d \<noteq> None \<longrightarrow> n \<le> length (xk_descs xr)) \<and> (tw_tx d \<noteq> None \<longrightarrow> b \<le> length (xk_descs xt))
     \<and> done_for_reason config d)"

lemma starts_in_range:
  "receiver_start oc X rx_cfg there w x = Ret r \<Longrightarrow> unat (QueueSize_get (xc_fq_size rx_cfg)) \<le> length (xk_descs x)"
  "sender_start oc X P g config go w mem x = Ret s \<Longrightarrow> unat (cf_max_batch_size config) \<le> length (xk_descs x)"
  by (auto simp: receiver_start_def fill_first_def sender_start_def first_batch_def write_batch_def
    rbind_Ret_iff prefix_slice_Ret_iff Let_def)

lemma two_step_ok:
  assumes step: "two_step oc L X P g config syscall mem xt xr d d'" and ok: "two_ok xt xr config d"
    and len: "length (xk_descs xr) < 2 ^ 32" "length (xk_descs xt) < 2 ^ 32"
  shows "two_ok xt xr config d'"
proof -
  note ok' = ok [unfolded two_ok_def Let_def]
  have range: "tw_rx d' \<noteq> None \<longrightarrow> unat (QueueSize_get (xc_fq_size (cf_receiver config))) \<le> length (xk_descs xr)"
    "tw_tx d' \<noteq> None \<longrightarrow> unat (cf_max_batch_size config) \<le> length (xk_descs xt)"
    using step ok' by (cases; auto dest: starts_in_range)+
  have size: "size (tx.frames (take (unat (cf_max_batch_size config)) (xk_descs xt))) = unat (cf_max_batch_size config)"
    if "tw_tx d \<noteq> None"
    using ok' that by (simp add: min_absorb2)
  show ?thesis
    using two_step_halves [OF step _ _ len refl refl size] ok' range two_step_done [OF step]
    unfolding two_ok_def Let_def by blast
qed

lemma two_run_ok:
  assumes "(two_step oc L X P g config syscall mem xt xr)\<^sup>*\<^sup>* (two_start w) d"
    and "rx_at (fq_raw (xk_fq xr)) (rx_raw (xk_rx_q xr)) {#} w"
    and "tx_at (tx_raw (xk_tx_q xt)) (cq_raw (xk_cq xt)) {#} w"
    and "length (xk_descs xr) < 2 ^ 32" "length (xk_descs xt) < 2 ^ 32"
  shows "two_ok xt xr config d"
  using assms(1)
proof (induction rule: rtranclp_induct)
  case base
  show ?case
    using assms(2,3) by (simp add: two_ok_def two_start_def rx_half_def tx_half_def done_for_reason_def)
next
  case (step d d')
  then show ?case using two_step_ok assms(4,5) by blast
qed

lemma two_run_accounts:
  assumes "(two_step oc L X P g config syscall mem xt xr)\<^sup>*\<^sup>* (two_start w) d"
    and "rx_at (fq_raw (xk_fq xr)) (rx_raw (xk_rx_q xr)) {#} w"
    and "tx_at (tx_raw (xk_tx_q xt)) (cq_raw (xk_cq xt)) {#} w"
    and "length (xk_descs xr) < 2 ^ 32" "length (xk_descs xt) < 2 ^ 32"
    and n: "n = unat (QueueSize_get (xc_fq_size (cf_receiver config)))" "b = unat (cf_max_batch_size config)"
  shows "tw_rx d = Some r \<Longrightarrow> rx.on_way (tw_world d) (rv_xsk r) + rx.frames (in_hand r)
        = rx.frames (take n (xk_descs xr)) \<and> drop n (xk_descs (rv_xsk r)) = drop n (xk_descs xr)"
    and "tw_tx d = Some s \<Longrightarrow> unat (sd_sent s) = unat (sd_consumed s) + size (tx.on_way (tw_world d) (sd_xsk s))
      \<and> unat (sd_sent s) \<le> max b (unat (cf_num_packets_to_send config))
      \<and> tx.on_way (tw_world d) (sd_xsk s) + tx.frames (to_submit s) \<subseteq># tx.frames (take b (xk_descs xt))
      \<and> (sd_pc s = TxDone \<longrightarrow> cf_num_packets_to_send config \<le> sd_consumed s)"
    and "tw_rx d = Some r \<Longrightarrow> rv_pc r = RxDone \<Longrightarrow> cf_num_packets_to_send config \<le> rv_total r
      \<or> (\<exists>s. tw_tx d = Some s \<and> cf_num_packets_to_send config \<le> sd_consumed s)"
proof -
  note ok = two_run_ok [OF assms(1-5), unfolded two_ok_def Let_def, folded n]
  show rx: "rx.on_way (tw_world d) (rv_xsk r) + rx.frames (in_hand r) = rx.frames (take n (xk_descs xr))
      \<and> drop n (xk_descs (rv_xsk r)) = drop n (xk_descs xr)" if "tw_rx d = Some r"
    using ok that by (auto simp: rx_half_def rx.conserves_def min_absorb2)
  show tx: "unat (sd_sent s) = unat (sd_consumed s) + size (tx.on_way (tw_world d) (sd_xsk s))
      \<and> unat (sd_sent s) \<le> max b (unat (cf_num_packets_to_send config))
      \<and> tx.on_way (tw_world d) (sd_xsk s) + tx.frames (to_submit s) \<subseteq># tx.frames (take b (xk_descs xt))
      \<and> (sd_pc s = TxDone \<longrightarrow> cf_num_packets_to_send config \<le> sd_consumed s)" if "tw_tx d = Some s" for s
    using ok that by (auto simp: tx_half_def tx.accounts_def tx.counted_def tx.batch_kept_def min_absorb2)
  show "cf_num_packets_to_send config \<le> rv_total r
      \<or> (\<exists>s. tw_tx d = Some s \<and> cf_num_packets_to_send config \<le> sd_consumed s)"
    if "tw_rx d = Some r" "rv_pc r = RxDone"
    using ok that tx by (auto simp: done_for_reason_def SENDER_DONE_def split: option.splits)
qed

end

section \<open>The reference interface\<close>

context kernel_link
begin

lemma elsewhere_view:
  assumes "elsewhere w w'"
  shows "view_kept (path_settled ref_prod_ok (ref_staged get) ref_cons_ok (ref_held get') (\<lambda>p c. p_at a p \<and> c_at b c))
    (path_frames pframe cframe (ref_queued get) (\<lambda>_. {#}) (ref_avail get')) (p_at a) (c_at b) w w'"
proof -
  have "rw_words w' a = rw_words w a" "rw_words w' (a + 4) = rw_words w (a + 4)"
    "rw_words w' b = rw_words w b" "rw_words w' (b + 4) = rw_words w (b + 4)"
    "get w' (a + 8) = get w (a + 8)" "get' w' (b + 8) = get' w (b + 8)"
    using assms by (simp_all add: elsewhere_def)
  with from_view [of _ w' w] to_view [of _ w' w] show ?thesis
    by (simp add: view_kept_def path_settled_def path_frames_def)
qed

end

lemmas ref_ops_defs = ref_reserve_def ref_submit_def ref_peek_def ref_release_def prod_slot_put_def
  ref_addr_put_def ref_desc_put_def ref_word_put_def p_at_def c_at_def

lemma ref_rx_ops:
  "ring_ops ref_reserve (prod_slot_put ref_addr_put) ref_submit ref_peek ref_release (p_at 100) (c_at 300) tx_link.elsewhere"
  by (rule ring_ops.intro) (auto simp: ref_ops_defs tx_link.elsewhere_def Let_def split: if_splits)

lemma ref_tx_ops:
  "ring_ops ref_reserve (prod_slot_put ref_desc_put) ref_submit ref_peek ref_release (p_at 400) (c_at 200) rx_link.elsewhere"
  by (rule ring_ops.intro) (auto simp: ref_ops_defs rx_link.elsewhere_def Let_def split: if_splits)

interpretation ref_two: side_by_side ref_libxdp ref_prod_ok "ref_queued rw_addrs" "ref_staged rw_addrs"
  ref_base ref_room ref_cons_ok "ref_avail rw_descs" "ref_held rw_descs" ref_cons_base
  "\<lambda>p c. p_at 100 p \<and> c_at 300 c" "\<lambda>_. {#}" rframe
  ref_prod_ok "ref_queued rw_descs" "ref_staged rw_descs"
  ref_base ref_room ref_cons_ok "ref_avail rw_addrs" "ref_held rw_addrs" ref_cons_base
  "\<lambda>p c. p_at 400 p \<and> c_at 200 c" "\<lambda>_. {#}" tframe "ref_kernel\<^sup>*\<^sup>*" ref_os ref_packets
  "p_at 100" "c_at 300" "p_at 400" "c_at 200" for rframe tframe
proof (rule side_by_side.intro [OF ref_receive.receive_path_axioms ref_send.send_path_axioms _ _ side_by_side_axioms.intro])
qed (simp_all add: ring_ops.weaken [OF ref_rx_ops tx_link.elsewhere_view] ring_ops.weaken [OF ref_tx_ops rx_link.elsewhere_view])

section \<open>Properties\<close>

text \<open>
  C12: the two threads do not disturb each other. Run in any interleaving, with the kernel
  running in between, each keeps account of its frames as if it were alone: the frames of the
  receiver's fill batch are on the way or in its hand and its other descriptors untouched; what
  the sender counted as sent and not as consumed is on its way, no frame of its batch is there
  twice, and it stops only when everything was sent. The receiver stops only when it has
  received everything or the sender has finished. Assumed is the contract of the rings, that
  the rings of one path are not seen from the other, and that a system call moves frames along
  each path and neither makes nor loses one.
\<close>

theorem two_threads_keep_accounts:
  assumes sides: "side_by_side X rx_pinv rx_queued rx_staged rx_base rx_room rx_cinv rx_avail rx_held rx_cbase
      rx_apart rx_inside rframe tx_pinv tx_queued tx_staged tx_base tx_room tx_cinv tx_avail tx_held tx_cbase
      tx_apart tx_inside tframe syscall L P rx_prod rx_cons tx_prod tx_cons"
    and rx_way: "rx_way = path_frames rframe (\<lambda>d. rframe (xd_addr d)) rx_queued rx_inside rx_avail"
    and tx_way: "tx_way = path_frames (\<lambda>d. tframe (xd_addr d)) tframe tx_queued tx_inside tx_avail"
    and rx_rings: "path_settled rx_pinv rx_staged rx_cinv rx_held rx_apart w (fq_raw (xk_fq xr)) (rx_raw (xk_rx_q xr))"
      "rx_way w (fq_raw (xk_fq xr)) (rx_raw (xk_rx_q xr)) = {#}"
    and tx_rings: "path_settled tx_pinv tx_staged tx_cinv tx_held tx_apart w (tx_raw (xk_tx_q xt)) (cq_raw (xk_cq xt))"
      "tx_way w (tx_raw (xk_tx_q xt)) (cq_raw (xk_cq xt)) = {#}"
    and len: "length (xk_descs xr) < 2 ^ 32" "length (xk_descs xt) < 2 ^ 32"
    and n: "n = unat (QueueSize_get (xc_fq_size (cf_receiver config)))" "b = unat (cf_max_batch_size config)"
    and run: "(two_step oc L X P g config syscall mem xt xr)\<^sup>*\<^sup>* (two_start w) d"
  shows "(\<forall>r. tw_rx d = Some r \<longrightarrow>
      rx_way (tw_world d) (fq_raw (xk_fq (rv_xsk r))) (rx_raw (xk_rx_q (rv_xsk r)))
        + image_mset (\<lambda>d. rframe (fd_addr d)) (mset (in_hand r))
        = image_mset (\<lambda>d. rframe (fd_addr d)) (mset (take n (xk_descs xr)))
      \<and> drop n (xk_descs (rv_xsk r)) = drop n (xk_descs xr)
      \<and> (rv_pc r = RxDone \<longrightarrow> cf_num_packets_to_send config \<le> rv_total r
          \<or> (\<exists>s. tw_tx d = Some s \<and> cf_num_packets_to_send config \<le> sd_consumed s)))
    \<and> (\<forall>s. tw_tx d = Some s \<longrightarrow>
      unat (sd_sent s) = unat (sd_consumed s)
        + size (tx_way (tw_world d) (tx_raw (xk_tx_q (sd_xsk s))) (cq_raw (xk_cq (sd_xsk s))))
      \<and> unat (sd_sent s) \<le> max b (unat (cf_num_packets_to_send config))
      \<and> tx_way (tw_world d) (tx_raw (xk_tx_q (sd_xsk s))) (cq_raw (xk_cq (sd_xsk s)))
        + image_mset (\<lambda>d. tframe (fd_addr d)) (mset (to_submit s))
        \<subseteq># image_mset (\<lambda>d. tframe (fd_addr d)) (mset (take b (xk_descs xt)))
      \<and> (sd_pc s = TxDone \<longrightarrow> cf_num_packets_to_send config \<le> sd_consumed s))"
  using side_by_side.two_run_accounts [OF sides run conjI [OF rx_rings [unfolded rx_way]]
      conjI [OF tx_rings [unfolded tx_way]] len n, folded rx_way tx_way]
  by blast

text \<open>Both threads start, and each makes a step: one frame has arrived at the receiver.\<close>

definition ref_two_threads :: "ref_world two_threads rust" where
  "ref_two_threads =
    rbind (receiver_start False ref_libxdp (cf_receiver ref_config) True ref_zero (ref_xsk ref_descs)) (\<lambda>r.
    rbind (sender_start False ref_libxdp ref_packets ref_generator ref_config True (rv_world r) (replicate 8 0)
        (ref_xsk ref_tx_descs)) (\<lambda>s.
    rbind (receiver_step False ref_os ref_libxdp (\<lambda>_. sd_pc s = TxDone) ref_config (r\<lparr>rv_world := sd_world s\<rparr>)) (\<lambda>r'.
    rbind (sender_step False ref_os ref_libxdp ref_packets ref_generator ref_config (s\<lparr>sd_world := rv_world r'\<rparr>)) (\<lambda>s'.
      Ret \<lparr>tw_world = sd_world s', tw_rx = Some r', tw_tx = Some s'\<rparr>))))"

lemma ref_two_threads_state:
  "(case ref_two_threads of
      Ret d \<Rightarrow> map_option rv_pc (tw_rx d) = Some (RxRefill 1) \<and> map_option sd_sent (tw_tx d) = Some 1
        \<and> map_option sd_consumed (tw_tx d) = Some 0
    | _ \<Rightarrow> False)"
  by code_simp

lemma ref_two_threads_run:
  assumes "ref_two_threads = Ret d"
  shows "(two_step False ref_os ref_libxdp ref_packets ref_generator ref_config K (replicate 8 0)
    (ref_xsk ref_tx_descs) (ref_xsk ref_descs))\<^sup>*\<^sup>* (two_start ref_zero) d" (is "?S\<^sup>*\<^sup>* _ _")
proof -
  from assms obtain r s r' s' where
    r: "receiver_start False ref_libxdp (cf_receiver ref_config) True ref_zero (ref_xsk ref_descs) = Ret r"
    and s: "sender_start False ref_libxdp ref_packets ref_generator ref_config True (rv_world r) (replicate 8 0)
      (ref_xsk ref_tx_descs) = Ret s"
    and r': "receiver_step False ref_os ref_libxdp (\<lambda>_. sd_pc s = TxDone) ref_config (r\<lparr>rv_world := sd_world s\<rparr>) = Ret r'"
    and s': "sender_step False ref_os ref_libxdp ref_packets ref_generator ref_config (s\<lparr>sd_world := rv_world r'\<rparr>) = Ret s'"
    and d: "d = \<lparr>tw_world = sd_world s', tw_rx = Some r', tw_tx = Some s'\<rparr>"
    by (auto simp: ref_two_threads_def rbind_Ret_iff)
  let ?d1 = "\<lparr>tw_world = rv_world r, tw_rx = Some r, tw_tx = None\<rparr>"
  let ?d2 = "\<lparr>tw_world = sd_world s, tw_rx = Some r, tw_tx = Some s\<rparr>"
  let ?d3 = "\<lparr>tw_world = rv_world r', tw_rx = Some r', tw_tx = Some s\<rparr>"
  have "?S (two_start ref_zero) ?d1" using two_step.start_rx [of "two_start ref_zero"] r by (simp add: two_start_def)
  moreover have "?S ?d1 ?d2" using two_step.start_tx [of ?d1] s by simp
  moreover have "?S ?d2 ?d3" using two_step.rx [of ?d2 r] r' by (simp add: SENDER_DONE_def)
  moreover have "?S ?d3 d" using two_step.tx [of ?d3 s r'] s' by (simp add: d)
  ultimately show ?thesis by (meson converse_rtranclp_into_rtranclp rtranclp.rtrancl_refl)
qed

theorem two_threads_keep_accounts_witness:
  "\<exists>d r s. ref_two_threads = Ret d \<and> tw_rx d = Some r \<and> tw_tx d = Some s \<and> rv_pc r = RxRefill 1
    \<and> path_frames unat (\<lambda>d. unat (xd_addr d)) (ref_queued rw_addrs) (\<lambda>_. {#}) (ref_avail rw_descs) (tw_world d)
        (fq_raw (xk_fq (rv_xsk r))) (rx_raw (xk_rx_q (rv_xsk r)))
      + image_mset (\<lambda>d. unat (fd_addr d)) (mset (in_hand r)) = {#256, 2304#}
    \<and> size (path_frames (\<lambda>d. unat (xd_addr d)) unat (ref_queued rw_descs) (\<lambda>_. {#}) (ref_avail rw_addrs) (tw_world d)
        (tx_raw (xk_tx_q (sd_xsk s))) (cq_raw (xk_cq (sd_xsk s)))) = 1"
proof -
  let ?xr = "ref_xsk ref_descs" and ?xt = "ref_xsk ref_tx_descs"
  obtain d r s where d: "ref_two_threads = Ret d" "tw_rx d = Some r" "tw_tx d = Some s" "rv_pc r = RxRefill 1"
    and sent: "sd_sent s = 1" "sd_consumed s = 0"
    using ref_two_threads_state by (auto split: rust.splits)
  have x: "fq_ring (xk_fq ?xr) = XskRingProd (ref_prod 100)" "rx_ring (xk_rx_q ?xr) = XskRingCons (ref_cons 300)"
    "xk_descs ?xr = ref_descs" "tx_ring (xk_tx_q ?xt) = XskRingProd (ref_prod 400)"
    "cq_ring (xk_cq ?xt) = XskRingCons (ref_cons 200)" "xk_descs ?xt = ref_tx_descs"
    by (simp_all add: ref_xsk_def Let_def RxQueue_new_def TxQueue_new_def FillQueue_new_def CompQueue_new_def)
  have avail: "ref_avail rw_descs ref_zero (ref_cons 300) = []" "ref_avail rw_addrs ref_zero (ref_cons 200) = []"
    by (simp_all add: ref_avail_def c_avail_def ref_zero_def ref_cons_def)
  have len: "length ref_descs < 2 ^ 32" "length ref_tx_descs < 2 ^ 32" by (simp_all add: ref_descs_def ref_tx_descs_def)
  have n: "2 = unat (QueueSize_get (xc_fq_size (cf_receiver ref_config)))" "1 = unat (cf_max_batch_size ref_config)"
    by (simp_all add: ref_config_def ref_xsk_config_def)
  have take: "image_mset (\<lambda>d. unat (fd_addr d)) (mset (take 2 ref_descs)) = {#256, 2304#}"
    by (simp add: ref_descs_def FrameDesc_new_def)
  note both = two_threads_keep_accounts [OF ref_two.side_by_side_axioms [of unat unat] refl refl _ _ _ _ _ _ n
      ref_two_threads_run [OF d(1)]]
  have "path_frames unat (\<lambda>d. unat (xd_addr d)) (ref_queued rw_addrs) (\<lambda>_. {#}) (ref_avail rw_descs) (tw_world d)
        (fq_raw (xk_fq (rv_xsk r))) (rx_raw (xk_rx_q (rv_xsk r)))
      + image_mset (\<lambda>d. unat (fd_addr d)) (mset (in_hand r)) = {#256, 2304#}"
    and "unat (sd_sent s) = unat (sd_consumed s) + size (path_frames (\<lambda>d. unat (xd_addr d)) unat
        (ref_queued rw_descs) (\<lambda>_. {#}) (ref_avail rw_addrs) (tw_world d)
        (tx_raw (xk_tx_q (sd_xsk s))) (cq_raw (xk_cq (sd_xsk s))))"
    using both d avail len take by (simp_all add: x path_settled_def path_frames_def)
  with d sent show ?thesis by auto
qed

end
