(* ===== verification/Xsk_Multithreaded.thy ===== *)
theory Xsk_Multithreaded
  imports Xsk_Two_Threads
begin

text \<open>
  All of \<^verbatim>\<open>dev1_to_dev2_multithreaded\<close>: the two threads with the ways they can end, the
  channel for the go-ahead, and the main thread that joins them and reports. A thread returns a
  count or panics; a panic leaves the flag \<^verbatim>\<open>SENDER_DONE\<close> as it is and drops the thread's end of
  the channel. While nothing panics the program does what the two bare threads do.
\<close>

section \<open>The program\<close>

datatype thread_status = Running | Returned usize | Panicked

text \<open>
  What is printed at the end: the packets to send, the length of a packet and the counts of
  the two threads (the time and the rates are left out), or how the threads ended.
\<close>

datatype report = Throughput usize usize usize usize | Failure thread_status thread_status

text \<open>The main thread waits for the sending thread, then for the receiving one.\<close>

datatype join_pc = JoinTx | JoinRx | Reported report

record 'w multi =
  mt_two :: "'w two_threads"
  mt_go :: bool
  mt_rx :: thread_status
  mt_tx :: thread_status
  mt_pkt_len :: usize
  mt_main :: join_pc

definition multi_report :: "Config \<Rightarrow> usize \<Rightarrow> thread_status \<Rightarrow> thread_status \<Rightarrow> report" where
  "multi_report config pkt_len tx_res rx_res = (case (tx_res, rx_res) of
     (Returned pkts_sent, Returned pkts_rcvd) \<Rightarrow>
       Throughput (cf_num_packets_to_send config) pkt_len pkts_sent pkts_rcvd
   | _ \<Rightarrow> Failure tx_res rx_res)"

text \<open>Before the threads are spawned, one packet is made to learn its length.\<close>

definition multi_start :: "'w packet_lib \<Rightarrow> PacketGenerator \<Rightarrow> Config \<Rightarrow> 'w \<Rightarrow> 'w multi rust" where
  "multi_start P g config w =
    rbind (next_packet P w g (cf_payload_size config)) (\<lambda>(pkt, w1).
      Ret \<lparr>mt_two = two_start w1, mt_go = False, mt_rx = Running, mt_tx = Running,
           mt_pkt_len = slice_len pkt, mt_main = JoinTx\<rparr>)"

text \<open>
  The steps. \<open>mt_go\<close> says that the go-ahead was sent, which needs the sending thread's end of the
  channel; a sending thread that waits in vain returns 0. What a panicking thread has done to
  the world is left open.
\<close>

inductive multi_step :: "bool \<Rightarrow> 'w libc \<Rightarrow> 'w libxdp \<Rightarrow> 'w packet_lib \<Rightarrow> PacketGenerator \<Rightarrow> Config
    \<Rightarrow> ('w \<Rightarrow> 'w \<Rightarrow> bool) \<Rightarrow> u8 list \<Rightarrow> Xsk \<Rightarrow> Xsk \<Rightarrow> 'w multi \<Rightarrow> 'w multi \<Rightarrow> bool"
  for oc L X P g config os mem xsk_tx xsk_rx where
  rx_start: "mt_rx s = Running \<Longrightarrow> mt_two s = d \<Longrightarrow> tw_rx d = None \<Longrightarrow>
    receiver_start oc X (cf_receiver config) (mt_tx s = Running) (tw_world d) xsk_rx = Ret r \<Longrightarrow>
    multi_step oc L X P g config os mem xsk_tx xsk_rx s
      (s\<lparr>mt_two := d\<lparr>tw_world := rv_world r, tw_rx := Some r\<rparr>, mt_go := (mt_tx s = Running)\<rparr>)"
| rx_start_panics: "mt_rx s = Running \<Longrightarrow> mt_two s = d \<Longrightarrow> tw_rx d = None \<Longrightarrow>
    receiver_start oc X (cf_receiver config) (mt_tx s = Running) (tw_world d) xsk_rx = Panic \<Longrightarrow>
    multi_step oc L X P g config os mem xsk_tx xsk_rx s (s\<lparr>mt_two := d\<lparr>tw_world := w\<rparr>, mt_rx := Panicked\<rparr>)"
| rx_turn: "mt_rx s = Running \<Longrightarrow> mt_two s = d \<Longrightarrow> tw_rx d = Some r \<Longrightarrow> rv_pc r \<noteq> RxDone \<Longrightarrow>
    receiver_step oc L X (\<lambda>_. SENDER_DONE d) config (r\<lparr>rv_world := tw_world d\<rparr>) = Ret r' \<Longrightarrow>
    multi_step oc L X P g config os mem xsk_tx xsk_rx s
      (s\<lparr>mt_two := d\<lparr>tw_world := rv_world r', tw_rx := Some r'\<rparr>\<rparr>)"
| rx_panics: "mt_rx s = Running \<Longrightarrow> mt_two s = d \<Longrightarrow> tw_rx d = Some r \<Longrightarrow> rv_pc r \<noteq> RxDone \<Longrightarrow>
    receiver_step oc L X (\<lambda>_. SENDER_DONE d) config (r\<lparr>rv_world := tw_world d\<rparr>) = Panic \<Longrightarrow>
    multi_step oc L X P g config os mem xsk_tx xsk_rx s (s\<lparr>mt_two := d\<lparr>tw_world := w\<rparr>, mt_rx := Panicked\<rparr>)"
| rx_returns: "mt_rx s = Running \<Longrightarrow> tw_rx (mt_two s) = Some r \<Longrightarrow> rv_pc r = RxDone \<Longrightarrow>
    multi_step oc L X P g config os mem xsk_tx xsk_rx s (s\<lparr>mt_rx := Returned (rv_total r)\<rparr>)"
| tx_start: "mt_tx s = Running \<Longrightarrow> mt_two s = d \<Longrightarrow> tw_tx d = None \<Longrightarrow>
    sender_start oc X P g config True (tw_world d) mem xsk_tx = Ret t \<Longrightarrow>
    multi_step oc L X P g config os mem xsk_tx xsk_rx s
      (s\<lparr>mt_two := d\<lparr>tw_world := sd_world t, tw_tx := Some t\<rparr>\<rparr>)"
| tx_start_panics: "mt_tx s = Running \<Longrightarrow> mt_two s = d \<Longrightarrow> tw_tx d = None \<Longrightarrow>
    sender_start oc X P g config True (tw_world d) mem xsk_tx = Panic \<Longrightarrow>
    multi_step oc L X P g config os mem xsk_tx xsk_rx s (s\<lparr>mt_two := d\<lparr>tw_world := w\<rparr>, mt_tx := Panicked\<rparr>)"
| tx_no_go: "mt_tx s = Running \<Longrightarrow> tw_tx (mt_two s) = Some t \<Longrightarrow> \<not> mt_go s \<Longrightarrow> mt_rx s \<noteq> Running \<Longrightarrow>
    multi_step oc L X P g config os mem xsk_tx xsk_rx s (s\<lparr>mt_tx := Returned 0\<rparr>)"
| tx_turn: "mt_tx s = Running \<Longrightarrow> mt_two s = d \<Longrightarrow> mt_go s \<Longrightarrow> tw_tx d = Some t \<Longrightarrow> sd_pc t \<noteq> TxDone \<Longrightarrow>
    sender_step oc L X P g config (t\<lparr>sd_world := tw_world d\<rparr>) = Ret t' \<Longrightarrow>
    multi_step oc L X P g config os mem xsk_tx xsk_rx s
      (s\<lparr>mt_two := d\<lparr>tw_world := sd_world t', tw_tx := Some t'\<rparr>\<rparr>)"
| tx_panics: "mt_tx s = Running \<Longrightarrow> mt_two s = d \<Longrightarrow> mt_go s \<Longrightarrow> tw_tx d = Some t \<Longrightarrow> sd_pc t \<noteq> TxDone \<Longrightarrow>
    sender_step oc L X P g config (t\<lparr>sd_world := tw_world d\<rparr>) = Panic \<Longrightarrow>
    multi_step oc L X P g config os mem xsk_tx xsk_rx s (s\<lparr>mt_two := d\<lparr>tw_world := w\<rparr>, mt_tx := Panicked\<rparr>)"
| tx_returns: "mt_tx s = Running \<Longrightarrow> mt_go s \<Longrightarrow> tw_tx (mt_two s) = Some t \<Longrightarrow> sd_pc t = TxDone \<Longrightarrow>
    multi_step oc L X P g config os mem xsk_tx xsk_rx s (s\<lparr>mt_tx := Returned (sd_consumed t)\<rparr>)"
| kernel: "os (tw_world (mt_two s)) w \<Longrightarrow>
    multi_step oc L X P g config os mem xsk_tx xsk_rx s (s\<lparr>mt_two := (mt_two s)\<lparr>tw_world := w\<rparr>\<rparr>)"
| join_tx: "mt_main s = JoinTx \<Longrightarrow> mt_tx s \<noteq> Running \<Longrightarrow>
    multi_step oc L X P g config os mem xsk_tx xsk_rx s (s\<lparr>mt_main := JoinRx\<rparr>)"
| join_rx: "mt_main s = JoinRx \<Longrightarrow> mt_rx s \<noteq> Running \<Longrightarrow>
    multi_step oc L X P g config os mem xsk_tx xsk_rx s
      (s\<lparr>mt_main := Reported (multi_report config (mt_pkt_len s) (mt_tx s) (mt_rx s))\<rparr>)"

section \<open>What holds in every state\<close>

text \<open>
  The go-ahead comes from a receiving thread that got through its start. A thread that returned
  has a reason: the receiving one was not wanted, has everything or saw the flag; the sending
  one has sent everything or never got the go-ahead.
\<close>

definition multi_ok :: "Config \<Rightarrow> 'w multi \<Rightarrow> bool" where
  "multi_ok config s \<longleftrightarrow>
     (mt_go s \<longrightarrow> tw_rx (mt_two s) \<noteq> None)
   \<and> (tw_rx (mt_two s) \<noteq> None \<longrightarrow> mt_go s \<or> mt_tx s = Panicked)
   \<and> (\<forall>r. tw_rx (mt_two s) = Some r \<and> rv_pc r = RxDone \<longrightarrow>
        \<not> mt_go s \<or> cf_num_packets_to_send config \<le> rv_total r \<or> SENDER_DONE (mt_two s))
   \<and> (\<forall>t. tw_tx (mt_two s) = Some t \<and> sd_pc t = TxDone \<longrightarrow> cf_num_packets_to_send config \<le> sd_consumed t)
   \<and> (\<forall>n. mt_rx s = Returned n \<longrightarrow> (\<exists>r. tw_rx (mt_two s) = Some r \<and> rv_pc r = RxDone \<and> rv_total r = n))
   \<and> (\<forall>n. mt_tx s = Returned n \<longrightarrow> (\<exists>t. tw_tx (mt_two s) = Some t \<and>
        (mt_go s \<and> sd_pc t = TxDone \<and> sd_consumed t = n \<or> \<not> mt_go s \<and> mt_rx s = Panicked)))
   \<and> (mt_tx s = Panicked \<longrightarrow> \<not> SENDER_DONE (mt_two s))"

lemma sender_step_done_reason:
  assumes "sender_step oc L X P g config t = Ret t'" and "sd_pc t' = TxDone" and "sd_pc t \<noteq> TxDone"
  shows "cf_num_packets_to_send config \<le> sd_consumed t'"
proof (cases "sd_pc t")
  case TxLoop
  with assms show ?thesis
    by (auto simp: sender_step_def rbind_Ret_iff Let_def not_less split: if_splits prod.splits)
next
  case (TxPoll n)
  with assms show ?thesis
    by (auto simp: sender_step_def rbind_Ret_iff Let_def split: if_splits prod.splits)
next
  case (TxSend n)
  with assms show ?thesis
    by (auto simp: sender_step_def rbind_Ret_iff split: if_splits prod.splits)
qed (use assms in simp)

lemma sender_start_running: "sender_start oc X P g config True w mem x = Ret t \<Longrightarrow> sd_pc t = TxLoop"
  by (auto simp: sender_start_def rbind_Ret_iff)

lemma receiver_start_pc: "receiver_start oc X rx_cfg there w x = Ret r \<Longrightarrow> rv_pc r = RxDone \<longleftrightarrow> \<not> there"
  by (auto simp: receiver_start_def rbind_Ret_iff)

lemma SENDER_DONE_simps [simp]:
  "SENDER_DONE (d\<lparr>tw_world := w\<rparr>) = SENDER_DONE d" "SENDER_DONE (d\<lparr>tw_rx := v\<rparr>) = SENDER_DONE d"
  "SENDER_DONE (d\<lparr>tw_tx := Some t\<rparr>) \<longleftrightarrow> sd_pc t = TxDone"
  by (simp_all add: SENDER_DONE_def)

lemma SENDER_DONE_tx: "tw_tx d = Some t \<Longrightarrow> SENDER_DONE d \<longleftrightarrow> sd_pc t = TxDone"
  "tw_tx d = None \<Longrightarrow> \<not> SENDER_DONE d"
  by (simp_all add: SENDER_DONE_def)

lemma multi_step_ok:
  assumes "multi_step oc L X P g config os mem xt xr s s'" and "multi_ok config s"
  shows "multi_ok config s'"
  using assms(1)
proof cases
  case (rx_start d r)
  with assms(2) receiver_start_pc [OF rx_start(5)] show ?thesis
    by (auto simp: multi_ok_def) (meson thread_status.exhaust)+
next
  case (rx_turn d r r')
  with assms(2) receiver_step_done [OF rx_turn(6)] show ?thesis by (auto simp: multi_ok_def)
next
  case (tx_turn d t t')
  with assms(2) sender_step_done_reason [OF tx_turn(7)] show ?thesis
    by (auto simp: multi_ok_def SENDER_DONE_tx)
next
  case (tx_start d t)
  with assms(2) sender_start_running [OF tx_start(5)] show ?thesis
    by (auto simp: multi_ok_def SENDER_DONE_tx)
next
  case (tx_no_go t)
  with assms(2) show ?thesis
    by (auto simp: multi_ok_def) (meson thread_status.exhaust)+
qed (use assms(2) in \<open>auto simp: multi_ok_def SENDER_DONE_tx\<close>)

text \<open>The main thread reports on threads that have ended.\<close>

definition join_ok :: "Config \<Rightarrow> usize \<Rightarrow> 'w multi \<Rightarrow> bool" where
  "join_ok config len s \<longleftrightarrow> mt_pkt_len s = len \<and> (mt_main s \<noteq> JoinTx \<longrightarrow> mt_tx s \<noteq> Running)
     \<and> (\<forall>r. mt_main s = Reported r \<longrightarrow> mt_rx s \<noteq> Running \<and> r = multi_report config len (mt_tx s) (mt_rx s))"

lemma join_step_ok: "multi_step oc L X P g config os mem xt xr s s' \<Longrightarrow> join_ok config len s \<Longrightarrow> join_ok config len s'"
  by (erule multi_step.cases) (auto simp: join_ok_def)

lemma multi_start_ok:
  assumes "multi_start P g config w = Ret s"
  shows "multi_ok config s" and "join_ok config (mt_pkt_len s) s"
    and "mt_rx s = Running" "mt_tx s = Running" "mt_go s = False"
  using assms by (auto simp: multi_start_def rbind_Ret_iff multi_ok_def join_ok_def two_start_def SENDER_DONE_def)

lemma multi_run_ok:
  assumes "(multi_step oc L X P g config os mem xt xr)\<^sup>*\<^sup>* s0 s" and "multi_ok config s0" "join_ok config len s0"
  shows "multi_ok config s \<and> join_ok config len s"
  using assms by (induction rule: rtranclp_induct) (auto dest: multi_step_ok join_step_ok)

section \<open>The program refines the two threads\<close>

text \<open>
  A step of the program that ends in a state without a panic is a step of the two threads, or
  changes nothing they see.
\<close>

lemma multi_step_two_step:
  assumes "multi_step oc L X P g config os mem xt xr s s'" and "multi_ok config s"
    and "mt_rx s' \<noteq> Panicked" "mt_tx s' \<noteq> Panicked"
  shows "(two_step oc L X P g config os mem xt xr)\<^sup>=\<^sup>= (mt_two s) (mt_two s')"
  using assms(1)
proof cases
  case (rx_start d r)
  have "mt_tx s = Running"
    using assms(2-4) rx_start by (cases "mt_tx s") (auto simp: multi_ok_def)
  with rx_start two_step.start_rx [of d oc X config xr r] show ?thesis by simp
next
  case (rx_turn d r r')
  with two_step.rx [OF rx_turn(4,6)] show ?thesis by simp
next
  case (tx_start d t)
  with two_step.start_tx [OF tx_start(4,5)] show ?thesis by simp
next
  case (tx_turn d t t')
  from tx_turn assms(2) obtain r where "tw_rx d = Some r" by (auto simp: multi_ok_def)
  from tx_turn two_step.tx [OF tx_turn(5) this tx_turn(7)] show ?thesis by simp
next
  case (kernel w)
  with two_step.os [where os = os and d = "mt_two s" and w = w] show ?thesis by simp
qed (use assms in simp_all)

lemma panic_stays:
  "multi_step oc L X P g config os mem xt xr s s' \<Longrightarrow> mt_rx s = Panicked \<Longrightarrow> mt_rx s' = Panicked"
  "multi_step oc L X P g config os mem xt xr s s' \<Longrightarrow> mt_tx s = Panicked \<Longrightarrow> mt_tx s' = Panicked"
  by (erule multi_step.cases; simp)+

lemma multi_run_two_run:
  assumes "(multi_step oc L X P g config os mem xt xr)\<^sup>*\<^sup>* s0 s" and "multi_ok config s0" "join_ok config len s0"
    and "mt_rx s \<noteq> Panicked" "mt_tx s \<noteq> Panicked"
  shows "(two_step oc L X P g config os mem xt xr)\<^sup>*\<^sup>* (mt_two s0) (mt_two s)"
  using assms(1,4,5)
proof (induction rule: rtranclp_induct)
  case base
  show ?case by simp
next
  case (step s s')
  have "mt_rx s \<noteq> Panicked" "mt_tx s \<noteq> Panicked" using panic_stays [OF step.hyps(2)] step.prems by blast+
  with step.IH have "(two_step oc L X P g config os mem xt xr)\<^sup>*\<^sup>* (mt_two s0) (mt_two s)" by blast
  moreover have "multi_ok config s" using multi_run_ok [OF step.hyps(1) assms(2,3)] by blast
  ultimately show ?case using multi_step_two_step [OF step.hyps(2) _ step.prems] by (auto intro: rtranclp.rtrancl_into_rtrancl)
qed

section \<open>Runs to compute\<close>

text \<open>One step of a chosen thread, a panic leaving the world as it was.\<close>

datatype thread = Rx | Tx | Main

definition multi_turn :: "bool \<Rightarrow> 'w libc \<Rightarrow> 'w libxdp \<Rightarrow> 'w packet_lib \<Rightarrow> PacketGenerator \<Rightarrow> Config
    \<Rightarrow> u8 list \<Rightarrow> Xsk \<Rightarrow> Xsk \<Rightarrow> thread \<Rightarrow> 'w multi \<Rightarrow> 'w multi rust" where
  "multi_turn oc L X P g config mem xsk_tx xsk_rx c s = (case c of
     Rx \<Rightarrow> if mt_rx s \<noteq> Running then Ret s else (case tw_rx (mt_two s) of
         None \<Rightarrow> (case receiver_start oc X (cf_receiver config) (mt_tx s = Running) (tw_world (mt_two s)) xsk_rx of
             Ret r \<Rightarrow> Ret (s\<lparr>mt_two := (mt_two s)\<lparr>tw_world := rv_world r, tw_rx := Some r\<rparr>, mt_go := (mt_tx s = Running)\<rparr>)
           | Panic \<Rightarrow> Ret (s\<lparr>mt_rx := Panicked\<rparr>) | UB \<Rightarrow> UB)
       | Some r \<Rightarrow> if rv_pc r = RxDone then Ret (s\<lparr>mt_rx := Returned (rv_total r)\<rparr>)
           else (case receiver_step oc L X (\<lambda>_. SENDER_DONE (mt_two s)) config (r\<lparr>rv_world := tw_world (mt_two s)\<rparr>) of
             Ret r' \<Rightarrow> Ret (s\<lparr>mt_two := (mt_two s)\<lparr>tw_world := rv_world r', tw_rx := Some r'\<rparr>\<rparr>)
           | Panic \<Rightarrow> Ret (s\<lparr>mt_rx := Panicked\<rparr>) | UB \<Rightarrow> UB))
   | Tx \<Rightarrow> if mt_tx s \<noteq> Running then Ret s else (case tw_tx (mt_two s) of
         None \<Rightarrow> (case sender_start oc X P g config True (tw_world (mt_two s)) mem xsk_tx of
             Ret t \<Rightarrow> Ret (s\<lparr>mt_two := (mt_two s)\<lparr>tw_world := sd_world t, tw_tx := Some t\<rparr>\<rparr>)
           | Panic \<Rightarrow> Ret (s\<lparr>mt_tx := Panicked\<rparr>) | UB \<Rightarrow> UB)
       | Some t \<Rightarrow> if \<not> mt_go s then Ret s
           else if sd_pc t = TxDone then Ret (s\<lparr>mt_tx := Returned (sd_consumed t)\<rparr>)
           else (case sender_step oc L X P g config (t\<lparr>sd_world := tw_world (mt_two s)\<rparr>) of
             Ret t' \<Rightarrow> Ret (s\<lparr>mt_two := (mt_two s)\<lparr>tw_world := sd_world t', tw_tx := Some t'\<rparr>\<rparr>)
           | Panic \<Rightarrow> Ret (s\<lparr>mt_tx := Panicked\<rparr>) | UB \<Rightarrow> UB))
   | Main \<Rightarrow> (case mt_main s of
         JoinTx \<Rightarrow> if mt_tx s = Running then Ret s else Ret (s\<lparr>mt_main := JoinRx\<rparr>)
       | JoinRx \<Rightarrow> if mt_rx s = Running then Ret s
           else Ret (s\<lparr>mt_main := Reported (multi_report config (mt_pkt_len s) (mt_tx s) (mt_rx s))\<rparr>)
       | Reported r \<Rightarrow> Ret s))"

fun turns :: "(thread \<Rightarrow> 's \<Rightarrow> 's rust) \<Rightarrow> thread list \<Rightarrow> 's \<Rightarrow> 's rust" where
  "turns f [] s = Ret s"
| "turns f (c # cs) s = rbind (f c s) (turns f cs)"

lemma multi_turn_step:
  assumes "multi_turn oc L X P g config mem xt xr c s = Ret s'"
  shows "(multi_step oc L X P g config os mem xt xr)\<^sup>=\<^sup>= s s'"
proof (cases c)
  case Rx
  note panics = multi_step.rx_start_panics [OF _ refl, of s oc X config xr L P g os mem xt "tw_world (mt_two s)"]
    multi_step.rx_panics [OF _ refl, of s _ oc L X config P g os mem xt xr "tw_world (mt_two s)"]
  show ?thesis
    using assms Rx panics multi_step.rx_start [OF _ refl, of s oc X config xr] multi_step.rx_turn [OF _ refl, of s _ oc L X config]
      multi_step.rx_returns [of s]
    by (auto simp: multi_turn_def split: option.splits rust.splits if_splits)
next
  case Tx
  note panics = multi_step.tx_start_panics [OF _ refl, of s oc X P g config mem xt L os xr "tw_world (mt_two s)"]
    multi_step.tx_panics [OF _ refl, of s _ oc L X P g config os mem xt xr "tw_world (mt_two s)"]
  show ?thesis
    using assms Tx panics multi_step.tx_start [OF _ refl, of s oc X P g config mem xt] multi_step.tx_turn [OF _ refl, of s _ oc L X P g config]
      multi_step.tx_returns [of s]
    by (auto simp: multi_turn_def split: option.splits rust.splits if_splits)
next
  case Main
  then show ?thesis
    using assms multi_step.join_tx [of s] multi_step.join_rx [of s]
    by (auto simp: multi_turn_def split: join_pc.splits if_splits)
qed

lemma multi_turns_run:
  "turns (multi_turn oc L X P g config mem xt xr) cs s = Ret s' \<Longrightarrow>
   (multi_step oc L X P g config os mem xt xr)\<^sup>*\<^sup>* s s'"
proof (induction cs arbitrary: s)
  case (Cons c cs)
  then obtain s1 where s1: "multi_turn oc L X P g config mem xt xr c s = Ret s1"
    "turns (multi_turn oc L X P g config mem xt xr) cs s1 = Ret s'" by (auto simp: rbind_Ret_iff)
  have "(multi_step oc L X P g config os mem xt xr)\<^sup>*\<^sup>* s s1" using multi_turn_step [OF s1(1), of os] by auto
  then show ?case using Cons.IH [OF s1(2)] by (rule rtranclp_trans)
qed simp

text \<open>
  One packet is sent and none arrives, from the start to the report; and a run in which the
  kernel refuses the sending thread's wake-up.
\<close>

definition ref_multi :: "ref_world libc \<Rightarrow> thread list \<Rightarrow> ref_world multi rust" where
  "ref_multi L cs = (let config = ref_config\<lparr>cf_num_packets_to_send := 1\<rparr> in
     rbind (multi_start ref_packets ref_generator config ref_zero)
       (turns (multi_turn False L ref_libxdp ref_packets ref_generator config (replicate 8 0)
         (ref_xsk ref_tx_descs) (ref_xsk ref_descs)) cs))"

definition ref_silent :: "ref_world libc" where
  "ref_silent = ref_os\<lparr>poll := \<lambda>w p n ms. (0, p, w)\<rparr>"

definition ref_refuses :: "ref_world libc" where
  "ref_refuses = ref_os\<lparr>sendto := \<lambda>w fd b n f a al. (- 1, w)\<rparr>"

abbreviation ref_multi_steps :: "ref_world libc \<Rightarrow> ref_world multi \<Rightarrow> ref_world multi \<Rightarrow> bool" where
  "ref_multi_steps L \<equiv> (multi_step False L ref_libxdp ref_packets ref_generator
     (ref_config\<lparr>cf_num_packets_to_send := 1\<rparr>) (=) (replicate 8 0) (ref_xsk ref_tx_descs) (ref_xsk ref_descs))\<^sup>*\<^sup>*"

lemma ref_multi_run:
  assumes "ref_multi L cs = Ret s"
  shows "\<exists>s0. multi_start ref_packets ref_generator (ref_config\<lparr>cf_num_packets_to_send := 1\<rparr>) ref_zero = Ret s0
    \<and> ref_multi_steps L s0 s"
  using assms multi_turns_run by (auto simp: ref_multi_def Let_def rbind_Ret_iff)

lemma ref_multi_report:
  "(case ref_multi ref_silent [Rx, Tx, Tx, Tx, Tx, Tx, Rx, Rx, Main, Main] of
     Ret s \<Rightarrow> mt_main s = Reported (Throughput 1 2 1 0) \<and> mt_tx s = Returned 1 \<and> mt_rx s = Returned 0 | _ \<Rightarrow> False)"
  by code_simp

lemma ref_multi_panic:
  "(case ref_multi ref_refuses [Rx, Tx, Tx] of
     Ret s \<Rightarrow> mt_tx s = Panicked \<and> mt_go s \<and> mt_rx s = Running | _ \<Rightarrow> False)"
  by code_simp

section \<open>Properties\<close>

text \<open>
  C13: the program does what the two bare threads do. In every state it reaches in which no thread
  has panicked, its threads are in a state the bare threads reach, from the world the first packet
  left; a thread that has returned is one whose loop has ended, with its own count, and the sending
  one has sent everything. So what holds of the two threads side by side holds of the program.
\<close>

theorem multithreaded_refines_two_threads:
  assumes start: "multi_start P g config w = Ret s0"
    and run: "(multi_step oc L X P g config os mem xt xr)\<^sup>*\<^sup>* s0 s"
    and fine: "mt_rx s \<noteq> Panicked" "mt_tx s \<noteq> Panicked"
  shows "\<exists>w1. mt_two s0 = two_start w1 \<and> (two_step oc L X P g config os mem xt xr)\<^sup>*\<^sup>* (two_start w1) (mt_two s)
    \<and> (\<forall>n. mt_rx s = Returned n \<longrightarrow> (\<exists>r. tw_rx (mt_two s) = Some r \<and> rv_pc r = RxDone \<and> n = rv_total r))
    \<and> (\<forall>n. mt_tx s = Returned n \<longrightarrow> (\<exists>t. tw_tx (mt_two s) = Some t \<and> sd_pc t = TxDone \<and> n = sd_consumed t
        \<and> cf_num_packets_to_send config \<le> n))"
proof -
  note ok0 = multi_start_ok [OF start]
  have ok: "multi_ok config s" using multi_run_ok [OF run ok0(1,2)] by blast
  obtain w1 where w1: "mt_two s0 = two_start w1" using start by (auto simp: multi_start_def rbind_Ret_iff)
  have "\<forall>n. mt_rx s = Returned n \<longrightarrow> (\<exists>r. tw_rx (mt_two s) = Some r \<and> rv_pc r = RxDone \<and> n = rv_total r)"
    using ok by (simp add: multi_ok_def) metis
  moreover have "\<exists>t. tw_tx (mt_two s) = Some t \<and> sd_pc t = TxDone \<and> n = sd_consumed t
      \<and> cf_num_packets_to_send config \<le> n" if "mt_tx s = Returned n" for n
    using ok that fine(1) by (auto simp: multi_ok_def)
  ultimately show ?thesis using w1 multi_run_two_run [OF run ok0(1,2) fine] by auto
qed

theorem multithreaded_refines_two_threads_witness:
  "\<exists>s w1 t. ref_multi ref_silent [Rx, Tx, Tx, Tx, Tx, Tx, Rx, Rx, Main, Main] = Ret s \<and> mt_tx s = Returned 1
    \<and> (two_step False ref_silent ref_libxdp ref_packets ref_generator (ref_config\<lparr>cf_num_packets_to_send := 1\<rparr>) (=)
      (replicate 8 0) (ref_xsk ref_tx_descs) (ref_xsk ref_descs))\<^sup>*\<^sup>* (two_start w1) (mt_two s)
    \<and> tw_tx (mt_two s) = Some t \<and> sd_pc t = TxDone \<and> sd_consumed t = 1"
proof -
  obtain s where s: "ref_multi ref_silent [Rx, Tx, Tx, Tx, Tx, Tx, Rx, Rx, Main, Main] = Ret s"
    "mt_tx s = Returned 1" "mt_rx s = Returned 0" using ref_multi_report by (auto split: rust.splits)
  from ref_multi_run [OF s(1)] obtain s0 where
    start: "multi_start ref_packets ref_generator (ref_config\<lparr>cf_num_packets_to_send := 1\<rparr>) ref_zero = Ret s0"
    and run: "ref_multi_steps ref_silent s0 s" by blast
  have "mt_rx s \<noteq> Panicked" "mt_tx s \<noteq> Panicked" using s by simp_all
  from multithreaded_refines_two_threads [OF start run this] s show ?thesis by auto
qed

text \<open>
  C17: the report is true. When the program prints its figures, both threads have returned, the
  figures are the packets to send, the length of a packet and the counts they returned, and
  everything was sent; when it prints an error instead, a thread has panicked. It never reports
  before both threads have ended.
\<close>

theorem multithreaded_reports:
  assumes start: "multi_start P g config w = Ret s0"
    and run: "(multi_step oc L X P g config os mem xt xr)\<^sup>*\<^sup>* s0 s"
    and main: "mt_main s = Reported r"
  shows "case r of
      Throughput num len sent rcvd \<Rightarrow> num = cf_num_packets_to_send config \<and> len = mt_pkt_len s0
        \<and> mt_tx s = Returned sent \<and> mt_rx s = Returned rcvd \<and> num \<le> sent
    | Failure tx rx \<Rightarrow> tx = mt_tx s \<and> rx = mt_rx s \<and> (tx = Panicked \<or> rx = Panicked)"
proof -
  note ok0 = multi_start_ok [OF start]
  note ok = multi_run_ok [OF run ok0(1,2)]
  then have r: "r = multi_report config (mt_pkt_len s0) (mt_tx s) (mt_rx s)" "mt_tx s \<noteq> Running" "mt_rx s \<noteq> Running"
    using main by (auto simp: join_ok_def)
  show ?thesis
  proof (cases "mt_tx s = Panicked \<or> mt_rx s = Panicked")
    case True
    with r show ?thesis by (auto simp: multi_report_def split: thread_status.split)
  next
    case False
    with r obtain a b where ab: "mt_tx s = Returned a" "mt_rx s = Returned b"
      by (meson thread_status.exhaust)
    with ok have "cf_num_packets_to_send config \<le> a" by (auto simp: multi_ok_def)
    with r(1) ab show ?thesis by (simp add: multi_report_def)
  qed
qed

theorem multithreaded_reports_witness:
  "\<exists>s. ref_multi ref_silent [Rx, Tx, Tx, Tx, Tx, Tx, Rx, Rx, Main, Main] = Ret s
    \<and> mt_main s = Reported (Throughput 1 2 1 0) \<and> (1 :: usize) = cf_num_packets_to_send (ref_config\<lparr>cf_num_packets_to_send := 1\<rparr>)
    \<and> mt_rx s = Returned 0"
proof -
  obtain s where s: "ref_multi ref_silent [Rx, Tx, Tx, Tx, Tx, Tx, Rx, Rx, Main, Main] = Ret s"
    "mt_main s = Reported (Throughput 1 2 1 0)" using ref_multi_report by (auto split: rust.splits)
  from ref_multi_run [OF s(1)] obtain s0 where
    start: "multi_start ref_packets ref_generator (ref_config\<lparr>cf_num_packets_to_send := 1\<rparr>) ref_zero = Ret s0"
    and run: "ref_multi_steps ref_silent s0 s" by blast
  from multithreaded_reports [OF start run s(2)] s show ?thesis by simp
qed

text \<open>
  C21: a panic of the sending thread strands the receiving one. Once the sending thread has
  panicked the flag is never set; a receiving thread that gave the go-ahead then returns only
  when it has received everything, and the program reports only after that, or after the
  receiving thread has panicked as well.
\<close>

theorem sender_panic_strands_receiver:
  assumes start: "multi_start P g config w = Ret s0"
    and run: "(multi_step oc L X P g config os mem xt xr)\<^sup>*\<^sup>* s0 s"
    and panic: "mt_tx s = Panicked" and go: "mt_go s"
  shows "\<not> SENDER_DONE (mt_two s)
    \<and> (\<forall>n. mt_rx s = Returned n \<longrightarrow> cf_num_packets_to_send config \<le> n)
    \<and> (\<forall>r. mt_main s = Reported r \<longrightarrow> mt_rx s = Panicked
        \<or> (\<exists>n. mt_rx s = Returned n \<and> cf_num_packets_to_send config \<le> n))"
proof -
  note ok0 = multi_start_ok [OF start]
  note ok = multi_run_ok [OF run ok0(1,2)]
  have flag: "\<not> SENDER_DONE (mt_two s)" using ok panic by (simp add: multi_ok_def)
  then have returned: "cf_num_packets_to_send config \<le> n" if "mt_rx s = Returned n" for n
    using ok go that by (auto simp: multi_ok_def)
  have "mt_main s = Reported r \<longrightarrow> mt_rx s \<noteq> Running" for r using ok by (auto simp: join_ok_def)
  with flag returned show ?thesis by (metis thread_status.exhaust)
qed

theorem sender_panic_strands_receiver_witness:
  "\<exists>s. ref_multi ref_refuses [Rx, Tx, Tx] = Ret s \<and> mt_tx s = Panicked \<and> mt_rx s = Running \<and> \<not> SENDER_DONE (mt_two s)"
proof -
  obtain s where s: "ref_multi ref_refuses [Rx, Tx, Tx] = Ret s" "mt_tx s = Panicked" "mt_go s" "mt_rx s = Running"
    using ref_multi_panic by (auto split: rust.splits)
  from ref_multi_run [OF s(1)] obtain s0 where
    start: "multi_start ref_packets ref_generator (ref_config\<lparr>cf_num_packets_to_send := 1\<rparr>) ref_zero = Ret s0"
    and run: "ref_multi_steps ref_refuses s0 s" by blast
  from sender_panic_strands_receiver [OF start run s(2,3)] s show ?thesis by simp
qed

end
