(* ===== verification/Xsk_Single_Thread.thy ===== *)
theory Xsk_Single_Thread
  imports Xsk_Example Xsk_Ref_Kernel
begin

text \<open>
  The single-threaded loop of \<^verbatim>\<open>examples/dev1_to_dev2.rs\<close>, which sends on one socket and
  receives on the other. It receives into the sender's descriptors; the frames it then gives
  back to the receiver's fill queue are not the ones it received.
\<close>

section \<open>The loop\<close>

text \<open>
  Where it is: at the head of the outer loop, at the head of the receiving loop, giving \<open>n\<close>
  frames back, at the sending part, waiting to write, submitting \<open>n\<close> frames, or finished.
\<close>

datatype st_pc = StOuter | StInner | StRefill usize | StTx | StPoll usize | StSend usize | StDone

record 'w single =
  sg_world :: 'w
  sg_mem :: "u8 list"
  sg_tx :: Xsk
  sg_rx :: Xsk
  sg_sent :: usize
  sg_rcvd :: usize
  sg_consumed :: usize
  sg_pc :: st_pc

definition single_start :: "bool \<Rightarrow> 'w libxdp \<Rightarrow> 'w packet_lib \<Rightarrow> PacketGenerator \<Rightarrow> Config
    \<Rightarrow> 'w \<Rightarrow> u8 list \<Rightarrow> Xsk \<Rightarrow> Xsk \<Rightarrow> 'w single rust" where
  "single_start oc X P g config w mem xsk_tx xsk_rx =
    rbind (fill_first oc X (cf_receiver config) w xsk_rx) (\<lambda>(rx1, w1).
    rbind (first_batch oc X P g config w1 mem xsk_tx) (\<lambda>(n, tx1, mem1, w2).
      Ret \<lparr>sg_world = w2, sg_mem = mem1, sg_tx = tx1, sg_rx = rx1, sg_sent = n, sg_rcvd = 0,
           sg_consumed = 0, sg_pc = StOuter\<rparr>))"

text \<open>The receiving part: \<^verbatim>\<open>poll_and_consume\<close> writes into \<^verbatim>\<open>tx_descs\<close>.\<close>

definition single_receive :: "bool \<Rightarrow> 'w libc \<Rightarrow> 'w libxdp \<Rightarrow> Config \<Rightarrow> 'w single \<Rightarrow> 'w single rust" where
  "single_receive oc L X config t =
    rbind (wake_tx L X (sg_world t) (sg_tx t)) (\<lambda>w1.
    rbind (RxQueue_poll_and_consume oc L X w1 (xk_rx_q (sg_rx t)) (xk_descs (sg_tx t))
        (cf_poll_ms_timeout config)) (\<lambda>(r, descs, rx_q, w2).
    rbind (unwrap r) (\<lambda>frames_rcvd.
      let tx1 = (sg_tx t)\<lparr>xk_descs := descs\<rparr>; rx1 = (sg_rx t)\<lparr>xk_rx_q := rx_q\<rparr> in
      if frames_rcvd = 0 then
        rbind (wake_fill L X w2 rx1 (cf_poll_ms_timeout config)) (\<lambda>(rx2, w3).
          Ret (t\<lparr>sg_world := w3, sg_tx := tx1, sg_rx := rx2\<rparr>))
      else Ret (t\<lparr>sg_world := w2, sg_tx := tx1, sg_rx := rx1, sg_pc := StRefill frames_rcvd\<rparr>))))"

definition single_step :: "bool \<Rightarrow> 'w libc \<Rightarrow> 'w libxdp \<Rightarrow> 'w packet_lib \<Rightarrow> PacketGenerator \<Rightarrow> Config
    \<Rightarrow> 'w single \<Rightarrow> 'w single rust" where
  "single_step oc L X P g config t = (let num = cf_num_packets_to_send config in case sg_pc t of
     StOuter \<Rightarrow> Ret (t\<lparr>sg_pc := if sg_consumed t < num \<or> sg_rcvd t < num then StInner else StDone\<rparr>)
   | StInner \<Rightarrow> (if sg_rcvd t < sg_sent t then single_receive oc L X config t else Ret (t\<lparr>sg_pc := StTx\<rparr>))
   | StRefill frames_rcvd \<Rightarrow>
       rbind (refill oc L X (sg_world t) (sg_rx t) frames_rcvd (cf_poll_ms_timeout config))
         (\<lambda>(all, rx1, w1).
           if all then
             rbind (add_oc oc (sg_rcvd t) frames_rcvd) (\<lambda>rcvd.
               Ret (t\<lparr>sg_world := w1, sg_rx := rx1, sg_rcvd := rcvd, sg_pc := StInner\<rparr>))
           else Ret (t\<lparr>sg_world := w1, sg_rx := rx1\<rparr>))
   | StTx \<Rightarrow>
       (if sg_sent t < num \<or> sg_consumed t < num then
          rbind (CompQueue_consume oc X (sg_world t) (xk_cq (sg_tx t)) (xk_descs (sg_tx t)))
            (\<lambda>(frames_rcvd, descs, cq, w1).
            let tx1 = (sg_tx t)\<lparr>xk_descs := descs, xk_cq := cq\<rparr> in
            if frames_rcvd = 0 then
              rbind (wake_tx L X w1 tx1) (\<lambda>w2. Ret (t\<lparr>sg_world := w2, sg_tx := tx1, sg_pc := StOuter\<rparr>))
            else
              rbind (add_oc oc (sg_consumed t) frames_rcvd) (\<lambda>consumed.
                if sg_sent t < num then
                  rbind (write_batch oc P g (cf_payload_size config) w1 (sg_mem t) tx1 frames_rcvd)
                    (\<lambda>(tx2, mem2, w2).
                      Ret (t\<lparr>sg_world := w2, sg_mem := mem2, sg_tx := tx2, sg_consumed := consumed,
                             sg_pc := StPoll frames_rcvd\<rparr>))
                else Ret (t\<lparr>sg_world := w1, sg_tx := tx1, sg_consumed := consumed, sg_pc := StOuter\<rparr>)))
        else Ret (t\<lparr>sg_pc := StOuter\<rparr>))
   | StPoll frames_rcvd \<Rightarrow>
       (let (r, tx_q, w1) = TxQueue_poll L (sg_world t) (xk_tx_q (sg_tx t)) (cf_poll_ms_timeout config);
            t1 = t\<lparr>sg_world := w1, sg_tx := (sg_tx t)\<lparr>xk_tx_q := tx_q\<rparr>\<rparr>
        in rbind (unwrap r) (\<lambda>ready.
             if \<not> ready then Ret t1
             else rbind (frames_to_send oc frames_rcvd (cf_max_batch_size config) num (sg_sent t)) (\<lambda>n.
               Ret (t1\<lparr>sg_pc := StSend n\<rparr>))))
   | StSend n \<Rightarrow>
       rbind (resend oc L X (sg_world t) (sg_tx t) n) (\<lambda>(all, tx1, w1).
         if all then
           rbind (add_oc oc (sg_sent t) n) (\<lambda>sent.
             Ret (t\<lparr>sg_world := w1, sg_tx := tx1, sg_sent := sent, sg_pc := StOuter\<rparr>))
         else Ret (t\<lparr>sg_world := w1, sg_tx := tx1\<rparr>))
   | StDone \<Rightarrow> Ret t)"

section \<open>It breaks the rule for frames\<close>

text \<open>No step changes the receiver's descriptors.\<close>

lemma wake_fill_descs: "wake_fill L X w x ms = Ret (x', w') \<Longrightarrow> xk_descs x' = xk_descs x"
  by (auto simp: wake_fill_def rbind_Ret_iff Let_def split: prod.splits if_splits)

lemma refill_descs: "refill oc L X w x n ms = Ret (all, x', w') \<Longrightarrow> xk_descs x' = xk_descs x"
  by (auto simp: refill_def rbind_Ret_iff Let_def split: prod.splits)

lemma single_receive_descs:
  "single_receive oc L X config t = Ret t' \<Longrightarrow> xk_descs (sg_rx t') = xk_descs (sg_rx t)"
  by (auto simp: single_receive_def rbind_Ret_iff Let_def dest!: wake_fill_descs split: prod.splits if_splits)

lemma single_step_descs:
  assumes "single_step oc L X P g config t = Ret t'"
  shows "xk_descs (sg_rx t') = xk_descs (sg_rx t)"
  using assms
  by (cases "sg_pc t") (auto simp: single_step_def rbind_Ret_iff Let_def
    dest!: single_receive_descs refill_descs split: prod.splits if_splits)

lemma single_start_descs:
  "single_start oc X P g config w mem xsk_tx xsk_rx = Ret t \<Longrightarrow> xk_descs (sg_rx t) = xk_descs xsk_rx"
  by (auto simp: single_start_def fill_first_def rbind_Ret_iff Let_def split: prod.splits if_splits)

text \<open>
  C25: the single-threaded loop does not give back what it received. Whatever frames the
  receive queue delivered, in every reachable state a successful return of \<open>n\<close> frames to the
  fill queue hands over the first \<open>n\<close> descriptors the receiver had at the start; so from the
  second delivery on, the kernel can be given a frame it still has, against the crate's rule
  for frames.
\<close>

theorem single_thread_refills_first_frames:
  assumes start: "single_start oc X P g config w mem xsk_tx xsk_rx = Ret t0"
    and run: "steps k (single_step oc L X P g config) t0 = Ret t"
    and pc: "sg_pc t = StRefill n" and step: "single_step oc L X P g config t = Ret t'" "sg_pc t' = StInner"
  shows "\<exists>w1. FillQueue_produce oc X (sg_world t) (xk_fq (sg_rx t)) (take (unat n) (xk_descs xsk_rx))
      = Ret (n, xk_fq (sg_rx t'), w1)
    \<and> unat n \<le> length (xk_descs xsk_rx) \<and> xk_descs (sg_rx t') = xk_descs xsk_rx"
proof -
  have "xk_descs (sg_rx t) = xk_descs xsk_rx"
    using steps_invariant [of "\<lambda>t. xk_descs (sg_rx t) = xk_descs xsk_rx", OF _ single_start_descs [OF start] run]
      single_step_descs by metis
  moreover from step pc obtain x1 w1 rcvd where
    r: "refill oc L X (sg_world t) (sg_rx t) n (cf_poll_ms_timeout config) = Ret (True, x1, w1)"
    and t': "t' = t\<lparr>sg_world := w1, sg_rx := x1, sg_rcvd := rcvd, sg_pc := StInner\<rparr>"
    by (auto simp: single_step_def rbind_Ret_iff split: prod.splits if_splits)
  ultimately show ?thesis
    using refill_descs [OF r] r
    by (auto simp: refill_def FillQueue_produce_and_wakeup_def FillQueue_wakeup_after_def FillQueue_wakeup_def
      prefix_slice_Ret_iff rbind_Ret_iff Let_def split: prod.splits sum.splits if_splits)
qed

text \<open>A run on the reference kernel, without wake-ups.\<close>

definition ref_single_at :: "nat \<Rightarrow> ref_world single rust" where
  "ref_single_at k = (let X = ref_libxdp\<lparr>prod_needs_wakeup := \<lambda>w r. 0\<rparr> in
     rbind (single_start False X ref_packets ref_generator ref_config ref_zero (replicate 8 0)
       (ref_xsk [FrameDesc_new 4]) (ref_xsk (map FrameDesc_new [104, 112, 120])))
     (steps k (single_step False ref_os X ref_packets ref_generator ref_config)))"

lemma ref_single_pcs:
  "(case (ref_single_at 2, ref_single_at 3) of
     (Ret t, Ret t') \<Rightarrow> sg_pc t = StRefill 1 \<and> sg_pc t' = StInner | _ \<Rightarrow> False)"
  by code_simp

text \<open>
  The first delivery of this run is given back as the first descriptor of the receiver.
\<close>

theorem single_thread_refills_first_frames_witness:
  "\<exists>t t' w1. ref_single_at 2 = Ret t \<and> ref_single_at 3 = Ret t'
    \<and> FillQueue_produce False (ref_libxdp\<lparr>prod_needs_wakeup := \<lambda>w r. 0\<rparr>) (sg_world t) (xk_fq (sg_rx t))
        [FrameDesc_new 104] = Ret (1, xk_fq (sg_rx t'), w1)"
proof -
  let ?X = "ref_libxdp\<lparr>prod_needs_wakeup := \<lambda>w r. 0\<rparr> :: ref_world libxdp"
  let ?rx = "ref_xsk (map FrameDesc_new [104, 112, 120])"
  let ?step = "single_step False ref_os ?X ref_packets ref_generator ref_config"
  obtain t t' where at: "ref_single_at 2 = Ret t" "ref_single_at 3 = Ret t'"
    and pc: "sg_pc t = StRefill 1" "sg_pc t' = StInner"
    using ref_single_pcs by (auto split: rust.splits)
  obtain t0 where start: "single_start False ?X ref_packets ref_generator ref_config ref_zero (replicate 8 0)
      (ref_xsk [FrameDesc_new 4]) ?rx = Ret t0" and run: "steps 2 ?step t0 = Ret t"
    using at(1) by (auto simp: ref_single_at_def Let_def rbind_Ret_iff)
  have "steps 3 ?step t0 = Ret t'"
    using at(2) start by (simp add: ref_single_at_def Let_def)
  then have step: "?step t = Ret t'"
    using run steps_Suc_end [of 2 ?step t0] by simp
  have "xk_descs ?rx = map FrameDesc_new [104, 112, 120]" by (simp add: ref_xsk_def Let_def)
  with single_thread_refills_first_frames [OF start run pc(1) step pc(2)] at show ?thesis by auto
qed

end
