(* ===== verification/Xsk_Run_Example.thy ===== *)
theory Xsk_Run_Example
  imports Xsk_Multithreaded Xsk_Single_Thread
begin

text \<open>
  \<^verbatim>\<open>run_example\<close> of \<^verbatim>\<open>examples/dev1_to_dev2.rs\<close> as a whole: the two sockets, the choice between
  the two modes, and the report of the single-threaded one.
\<close>

section \<open>The choice of the mode\<close>

datatype 'w example_mode = MultiThreaded "'w multi" Xsk Xsk | SingleThreaded "'w single"

text \<open>
  \<open>tx_mem\<close> is the memory of the sending socket's UMEM. The sockets are moved into the mode that
  runs; the receiving side's packet generator is not used.
\<close>

definition run_example :: "bool \<Rightarrow> 'w libc \<Rightarrow> 'w libxdp \<Rightarrow> 'w packet_lib \<Rightarrow> ('w, 'z) socket_store_scheme
    \<Rightarrow> Config \<Rightarrow> u8 list \<Rightarrow> VethDevConfig \<times> PacketGenerator \<Rightarrow> VethDevConfig \<times> PacketGenerator
    \<Rightarrow> ('w example_mode \<times> ('w, 'z) socket_store_scheme) rust" where
  "run_example oc L X P st config tx_mem dev_tx dev_rx =
    rbind (run_example_sockets oc L X st config (fst dev_tx) (fst dev_rx)) (\<lambda>(xsk_tx, xsk_rx, st1).
      if cf_multithreaded config then
        rbind (multi_start P (snd dev_tx) config (us_world st1)) (\<lambda>m. Ret (MultiThreaded m xsk_tx xsk_rx, st1))
      else
        rbind (single_start oc X P (snd dev_tx) config (us_world st1) tx_mem xsk_tx xsk_rx) (\<lambda>t.
          Ret (SingleThreaded t, st1)))"

section \<open>The report of the single-threaded mode\<close>

text \<open>When the loop has ended one more packet is made, for its length.\<close>

definition single_report :: "'w packet_lib \<Rightarrow> PacketGenerator \<Rightarrow> Config \<Rightarrow> 'w single \<Rightarrow> (report \<times> 'w) rust" where
  "single_report P g config t =
    rbind (next_packet P (sg_world t) g (cf_payload_size config)) (\<lambda>(pkt, w1).
      Ret (Throughput (cf_num_packets_to_send config) (slice_len pkt) (sg_sent t) (sg_rcvd t), w1))"

text \<open>Where the loop ends.\<close>

lemma single_receive_pc: "single_receive oc L X config t = Ret t' \<Longrightarrow> sg_pc t = StInner \<Longrightarrow>
    sg_pc t' = StInner \<or> (\<exists>n. sg_pc t' = StRefill n)"
  by (auto simp: single_receive_def rbind_Ret_iff Let_def split: prod.splits if_splits)

lemma single_step_done:
  assumes "single_step oc L X P g config t = Ret t'" and "sg_pc t' = StDone"
  shows "sg_pc t = StDone \<and> t' = t \<or> cf_num_packets_to_send config \<le> sg_consumed t' \<and> cf_num_packets_to_send config \<le> sg_rcvd t'"
proof (cases "sg_pc t")
  case StInner
  then have "single_receive oc L X config t = Ret t' \<or> sg_pc t' = StTx"
    using assms(1) by (auto simp: single_step_def Let_def split: if_splits)
  with single_receive_pc [OF _ StInner, of oc L X config t'] assms(2) show ?thesis by auto
qed (use assms in \<open>auto simp: single_step_def rbind_Ret_iff Let_def not_less split: prod.splits if_splits\<close>)

lemma single_run_done:
  assumes "single_start oc X P g config w mem xt xr = Ret t0" and "steps k (single_step oc L X P g config) t0 = Ret t"
    and "sg_pc t = StDone"
  shows "cf_num_packets_to_send config \<le> sg_consumed t \<and> cf_num_packets_to_send config \<le> sg_rcvd t"
proof -
  let ?I = "\<lambda>t. sg_pc t = StDone \<longrightarrow> cf_num_packets_to_send config \<le> sg_consumed t \<and> cf_num_packets_to_send config \<le> sg_rcvd t"
  have "?I t"
  proof (rule steps_invariant [of ?I, OF _ _ assms(2)])
    show "?I t0" using assms(1) by (auto simp: single_start_def rbind_Ret_iff)
  qed (auto dest: single_step_done)
  with assms(3) show ?thesis by simp
qed

end
