(* ===== verification/Xsk_Example_Setup.thy ===== *)
theory Xsk_Example_Setup
  imports Xsk_Example
begin

text \<open>
  From the options of \<^verbatim>\<open>dev1_to_dev2.rs\<close> to its two sockets: when the set-up succeeds, every
  socket comes with enough frames for the loops, each a frame of its own.
\<close>

lemma QueueSize_new_Inr:
  "QueueSize_new n = Inr q \<longleftrightarrow> q = QueueSize n \<and> (\<exists>k<32. unat n = 2 ^ k)"
  by (auto simp: QueueSize_new_def is_pow_of_two_iff)

text \<open>Two queue sizes overflow a \<open>u32\<close> only as its two halves, and then the sum wraps to zero.\<close>

lemma queue_sizes_add:
  assumes "add_oc oc a b = Ret (s :: u32)" and "s \<noteq> 0" and "j < 32" "unat a = 2 ^ j" and "k < 32" "unat b = 2 ^ k"
  shows "unat s = unat a + unat b"
proof -
  have s: "s = a + b" using assms(1) by (auto simp: add_oc_def split: if_splits)
  show ?thesis
  proof (cases "unat a + unat b < 2 ^ 32")
    case True
    then show ?thesis by (simp add: s unat_add_in_range)
  next
    case False
    have le: "(2 :: nat) ^ j \<le> 2 ^ 31" "(2 :: nat) ^ k \<le> 2 ^ 31"
      using assms(3,5) power_increasing [of j 31 "2 :: nat"] power_increasing [of k 31 "2 :: nat"] by simp_all
    with False assms(4,6) have "unat a + unat b = 2 ^ 32" by simp
    then have "unat (a + b) = 0" by (simp add: unat_word_ariths)
    with assms(2) s show ?thesis by (simp add: unat_eq_zero)
  qed
qed

lemma XskConfig_from_Ret:
  assumes "XskConfig_from oc opt = Ret c"
  shows "xc_fq_size c = QueueSize (op_fq_size opt) \<and> xc_cq_size c = QueueSize (op_cq_size opt)
    \<and> xc_frame_size c = FrameSize (op_frame_size opt) \<and> add_oc oc (op_fq_size opt) (op_cq_size opt) = Ret (xc_frame_count c)
    \<and> (\<exists>j<32. unat (op_fq_size opt) = 2 ^ j) \<and> (\<exists>k<32. unat (op_cq_size opt) = 2 ^ k)"
  using assms
  by (auto simp: XskConfig_from_def rbind_Ret_iff QueueSize_try_from_def QueueSize_new_Inr FrameSize_try_from_def FrameSize_new_ok)

lemma build_umem_config:
  assumes "build_umem_and_socket_config oc X c = Ret (u, s)"
    and "unat (XDP_PACKET_HEADROOM X) + unat (XSK_UMEM_DEFAULT_FRAME_HEADROOM X) < 2 ^ 32"
  shows "wf_UmemConfig X u \<and> frame_size u = xc_frame_size c \<and> frame_headroom u = XSK_UMEM_DEFAULT_FRAME_HEADROOM X"
proof -
  let ?u = "(UmemConfig_default X)\<lparr>frame_size := xc_frame_size c, fill_queue_size := xc_fq_size c,
    comp_queue_size := xc_cq_size c\<rparr>"
  from assms(1) have "UmemConfigBuilder_build oc X \<lparr>uconfig = ?u\<rparr> = Ret (Inr u)"
    by (auto simp: build_umem_and_socket_config_def rbind_Ret_iff UmemConfig_builder_def UmemConfigBuilder_new_def
      UmemConfigBuilder_comp_queue_size_def UmemConfigBuilder_fill_queue_size_def UmemConfigBuilder_frame_size_def)
  then show ?thesis
    using assms(2) unat_add_in_range [of "XDP_PACKET_HEADROOM X" "XSK_UMEM_DEFAULT_FRAME_HEADROOM X"]
    by (auto simp: UmemConfigBuilder_build_def UmemConfig_default_def Let_def add_oc_in_range wf_UmemConfig_def
      not_less word_le_nat_alt split: if_splits)
qed

text \<open>What one side of the example gets.\<close>

definition supplied :: "XskOpt \<Rightarrow> Xsk \<Rightarrow> bool" where
  "supplied opt x \<longleftrightarrow> (let n = length (xk_descs x); fs = unat (op_frame_size opt) in
     n = unat (op_fq_size opt) + unat (op_cq_size opt) \<and> n < 2 ^ 32
     \<and> wf_region (um_mem (xk_umem x)) n
     \<and> (\<forall>i<n. desc_of (um_mem (xk_umem x)) n (xk_descs x ! i) i)
     \<and> distinct (map (\<lambda>d. unat (fd_addr d) div fs) (xk_descs x)))"

lemma build_supplied:
  assumes opt: "XskConfig_from oc opt = Ret c" and umem: "build_umem_and_socket_config oc X c = Ret (uc, sc)"
    and head: "unat (XDP_PACKET_HEADROOM X) + unat (XSK_UMEM_DEFAULT_FRAME_HEADROOM X) < 2 ^ 32"
    and count: "nonzero_u32 (xc_frame_count c) = Ret count"
    and build: "build_socket_and_umem oc L X st uc sc count if_name q = Ret (x, st')"
  shows "supplied opt x"
proof -
  note c = XskConfig_from_Ret [OF opt]
  note u = build_umem_config [OF umem head]
  have nz: "count = xc_frame_count c" "xc_frame_count c \<noteq> 0"
    using count by (auto simp: nonzero_u32_def split: if_splits)
  then have n: "unat count = unat (op_fq_size opt) + unat (op_cq_size opt)"
    using c queue_sizes_add [of oc "op_fq_size opt" "op_cq_size opt" "xc_frame_count c"] by auto
  let ?n = "unat count" and ?fs = "unat (op_frame_size opt)"
  from build obtain st1 where new: "Umem_new oc L X st uc count False = Ret (Inr (xk_umem x, xk_descs x), st1)"
    by (auto simp: build_socket_and_umem_def rbind_Ret_iff)
  note f = Umem_new_frames [OF conjunct1 [OF u] new]
  have fs: "unat (FrameSize_get (frame_size uc)) = ?fs" "0 < ?fs"
    using u c opt by (auto simp: XskConfig_from_def rbind_Ret_iff FrameSize_try_from_def FrameSize_new_ok)
  let ?h = "unat (XDP_PACKET_HEADROOM X) + unat (frame_headroom uc)"
  have idx: "unat (fd_addr (xk_descs x ! i)) div ?fs = i + ?h div ?fs" if "i < ?n" for i
  proof -
    have "unat (fd_addr (xk_descs x ! i)) = ?h + i * ?fs" using f that fs(1) by simp
    then show ?thesis using fs(2) by simp
  qed
  have "distinct (map (\<lambda>d. unat (fd_addr d) div ?fs) (xk_descs x))"
    using f idx by (simp add: distinct_conv_nth)
  then show ?thesis
    using f n unat_u32_bound [of count] by (simp add: supplied_def Let_def)
qed

text \<open>The set-up on the reference interface, for a small ring of each kind.\<close>

lemma build_release:
  "\<exists>x st'. build_socket_and_umem False ref_libc ref_libxdp st uc sc n i q = Ret (x, st')"
proof -
  obtain l where l: "FrameLayout_from False (ref_libxdp :: ref_world libxdp) uc = Ret l"
    by (simp add: FrameLayout_from_def UmemConfig_mtu_def)
  let ?w = "us_world st"
  obtain mem maps where r: "UmemRegion_new False ref_libc ?w (us_maps st) n l False = Ret (Inr mem, maps, ?w)"
    using ref_region_new(1) [of ?w "us_maps st" n l False] by blast
  obtain ds where "frame_descs_from False l 0 (unat (ucast n :: usize)) = Ret ds"
    using frame_descs_release by blast
  then obtain u st1 where new: "Umem_new False ref_libc ref_libxdp st uc n False = Ret (Inr (u, ds), st1)"
    and st1: "arc_get (us_umems st1) (um_inner u)
      = Some (UmemInner_new (XskUmem_new 4096) (Some (XskRingProd (ref_prod 100), XskRingCons (ref_cons 200))))"
    by (simp add: Umem_new_def l r ref_prod_def ref_cons_def Let_def arc_defs)
  obtain qs st2 where "Socket_new False ref_libc ref_libxdp st1 sc u i q = Ret (Inr qs, st2)"
    "snd (snd qs) \<noteq> None"
    using st1
    by (simp add: Socket_new_def with_ptr_and_saved_queues_def Socket_create_def UmemInner_new_def
      Socket_queues_def ref_prod_def ref_cons_def Let_def Umem_clone_eq Socket_clone_def arc_new_def)
  with new show ?thesis
    by (cases qs) (auto simp: build_socket_and_umem_def unwrap_def unwrap_option_def split: option.splits)
qed

definition ref_options :: Opt where
  "ref_options = (let x = \<lparr>op_fq_size = 2, op_cq_size = 1, op_tx_q_size = 2, op_rx_q_size = 2, op_frame_size = 2048\<rparr>
     in Opt_default_values\<lparr>op_sender := x, op_receiver := x\<rparr>)"

definition ref_veth :: VethDevConfig where
  "ref_veth = \<lparr>vd_if_name = [108, 111], vd_addr = [], vd_ip_addr = \<lparr>ip_addr_octets = [], ip_prefix_len = 24\<rparr>\<rparr>"

lemma ref_run_example:
  "\<exists>c tx rx st'. Config_from False ref_options = Ret c
    \<and> run_example_sockets False ref_libc ref_libxdp (ref_socket_store ref_zero) c ref_veth ref_veth = Ret (tx, rx, st')"
proof -
  have "case rbind (XskConfig_from False (op_sender ref_options)) (\<lambda>x. rbind (build_umem_and_socket_config False ref_libxdp x)
      (\<lambda>(u, s). rbind (nonzero_u32 (xc_frame_count x)) (\<lambda>n. rbind (unwrap (Interface_from_str (vd_if_name ref_veth)))
      (\<lambda>i. Ret True)))) of Ret b \<Rightarrow> b | _ \<Rightarrow> False"
    by code_simp
  then obtain x u s n i where x: "XskConfig_from False (op_sender ref_options) = Ret x"
    "build_umem_and_socket_config False ref_libxdp x = Ret (u, s)" "nonzero_u32 (xc_frame_count x) = Ret n"
    "Interface_from_str (vd_if_name ref_veth) = Inr i"
    by (auto simp: rbind_Ret_iff split: rust.splits)
  have same: "op_receiver ref_options = op_sender ref_options" by (simp add: ref_options_def Let_def)
  obtain tx st1 where "build_socket_and_umem False ref_libc ref_libxdp (ref_socket_store ref_zero) u s n i 0 = Ret (tx, st1)"
    using build_release by blast
  moreover obtain rx st2 where "build_socket_and_umem False ref_libc ref_libxdp st1 u s n i 0 = Ret (rx, st2)"
    using build_release by blast
  ultimately show ?thesis
    by (simp add: Config_from_def run_example_sockets_def rbind_Ret_iff same x)
qed

text \<open>
  C14: when the example's set-up succeeds, each of its two sockets has as many frames as the
  fill queue and the completion queue of its options together, the sum being in range; the
  descriptors are those of the frames of its UMEM, each of another frame. So the receiver's slice
  of the fill queue's size is in range. The sender's slice of the first batch is in range exactly
  when the batch is no larger than the sender's two queues together; the options do not ensure
  that, and a larger batch panics.
\<close>

theorem run_example_supplies_frames:
  assumes "Config_from oc opt = Ret config"
    and "unat (XDP_PACKET_HEADROOM X) + unat (XSK_UMEM_DEFAULT_FRAME_HEADROOM X) < 2 ^ 32"
    and "run_example_sockets oc L X st config dev_tx dev_rx = Ret (xsk_tx, xsk_rx, st')"
  shows "supplied (op_sender opt) xsk_tx \<and> supplied (op_receiver opt) xsk_rx
    \<and> prefix_slice (xk_descs xsk_rx) (ucast (QueueSize_get (xc_fq_size (cf_receiver config))))
      = Ret (take (unat (op_fq_size (op_receiver opt))) (xk_descs xsk_rx))
    \<and> prefix_slice (xk_descs xsk_tx) (cf_max_batch_size config)
      = (if unat (cf_max_batch_size config) \<le> unat (op_fq_size (op_sender opt)) + unat (op_cq_size (op_sender opt))
         then Ret (take (unat (cf_max_batch_size config)) (xk_descs xsk_tx)) else Panic)"
proof -
  from assms(1) have c: "XskConfig_from oc (op_sender opt) = Ret (cf_sender config)"
    "XskConfig_from oc (op_receiver opt) = Ret (cf_receiver config)"
    by (auto simp: Config_from_def rbind_Ret_iff)
  from assms(3) obtain u1 s1 u2 s2 n1 n2 i1 i2 st1 where
    "build_umem_and_socket_config oc X (cf_sender config) = Ret (u1, s1)"
    "build_umem_and_socket_config oc X (cf_receiver config) = Ret (u2, s2)"
    "nonzero_u32 (xc_frame_count (cf_sender config)) = Ret n1" "nonzero_u32 (xc_frame_count (cf_receiver config)) = Ret n2"
    "build_socket_and_umem oc L X st u1 s1 n1 i1 0 = Ret (xsk_tx, st1)"
    "build_socket_and_umem oc L X st1 u2 s2 n2 i2 0 = Ret (xsk_rx, st')"
    by (auto simp: run_example_sockets_def rbind_Ret_iff)
  then have s: "supplied (op_sender opt) xsk_tx" "supplied (op_receiver opt) xsk_rx"
    using build_supplied c assms(2) by blast+
  moreover have "xc_fq_size (cf_receiver config) = QueueSize (op_fq_size (op_receiver opt))"
    using XskConfig_from_Ret [OF c(2)] by simp
  ultimately show ?thesis by (auto simp: prefix_slice_def supplied_def Let_def)
qed

theorem run_example_supplies_frames_witness:
  "\<exists>c tx rx st'. run_example_sockets False ref_libc ref_libxdp (ref_socket_store ref_zero) c ref_veth ref_veth = Ret (tx, rx, st')
    \<and> supplied (op_sender ref_options) tx \<and> length (xk_descs rx) = 3
    \<and> prefix_slice (xk_descs rx) (ucast (QueueSize_get (xc_fq_size (cf_receiver c)))) = Ret (take 2 (xk_descs rx))"
proof -
  obtain c tx rx st' where run: "Config_from False ref_options = Ret c"
    "run_example_sockets False ref_libc ref_libxdp (ref_socket_store ref_zero) c ref_veth ref_veth = Ret (tx, rx, st')"
    using ref_run_example by blast
  have "op_fq_size (op_receiver ref_options) = 2" "op_cq_size (op_receiver ref_options) = 1"
    by (simp_all add: ref_options_def Let_def)
  with run_example_supplies_frames [OF run(1) _ run(2)] run(2) show ?thesis
    by (auto simp: supplied_def [of "op_receiver ref_options"] Let_def)
qed

end
