(* ===== verification/Xsk_Hello.thy ===== *)
theory Xsk_Hello
  imports Xsk_Example Xsk_Lifetimes
begin

text \<open>
  The examples \<^verbatim>\<open>hello_xdp.rs\<close> and \<^verbatim>\<open>shared_umem.rs\<close>: one packet goes from one socket to
  another, with a UMEM each or with one UMEM for both. A run returns when the packet was found
  and panics otherwise; \<open>rx_mem\<close> reads the bytes of the receiving UMEM, which the kernel writes.
  At the end the locals go out of scope, in the reverse order of their declaration.
\<close>

definition ETHERNET_PACKET :: "u8 list" where
  "ETHERNET_PACKET = [
    0xff, 0xff, 0xff, 0xff, 0xff, 0xff, 0xf6, 0xe0, 0xf6, 0xc9, 0x60, 0x0a, 0x08, 0x06, 0x00, 0x01,
    0x08, 0x00, 0x06, 0x04, 0x00, 0x01, 0xf6, 0xe0, 0xf6, 0xc9, 0x60, 0x0a, 0xc0, 0xa8, 0x45, 0x01,
    0x00, 0x00, 0x00, 0x00, 0x00, 0x00, 0xc0, 0xa8, 0x45, 0xfe]"

text \<open>Indexing panics out of range.\<close>

definition index :: "'a list \<Rightarrow> nat \<Rightarrow> 'a rust" where
  "index xs i = (if i < length xs then Ret (xs ! i) else Panic)"

text \<open>The search through the received descriptors.\<close>

fun find_packet :: "Umem \<Rightarrow> u8 list \<Rightarrow> u8 list \<Rightarrow> FrameDesc list \<Rightarrow> bool rust" where
  "find_packet u mem pkt [] = Ret False"
| "find_packet u mem pkt (d # ds) =
    rbind (Umem_data u mem d) (\<lambda>data.
      if Data_contents data = pkt then Ret True else find_packet u mem pkt ds)"

text \<open>From step 1 on: fill, write, submit, receive, look. The three queues are returned.\<close>

definition hello_exchange :: "bool \<Rightarrow> 'w libc \<Rightarrow> 'w libxdp \<Rightarrow> ('w \<Rightarrow> u8 list) \<Rightarrow> 'w \<Rightarrow> u8 list
    \<Rightarrow> Umem \<Rightarrow> FrameDesc list \<Rightarrow> TxQueue \<Rightarrow> Umem \<Rightarrow> FrameDesc list \<Rightarrow> FillQueue \<Rightarrow> RxQueue
    \<Rightarrow> (TxQueue \<times> FillQueue \<times> RxQueue \<times> 'w) rust" where
  "hello_exchange oc L X rx_mem w tx_mem dev1_umem dev1_descs dev1_tx_q dev2_umem dev2_descs dev2_fq dev2_rx_q =
    rbind (FillQueue_produce oc X w dev2_fq dev2_descs) (\<lambda>(_, dev2_fq, w1).
    rbind (index dev1_descs 0) (\<lambda>desc.
    rbind (write_packet oc dev1_umem tx_mem desc ETHERNET_PACKET) (\<lambda>(tx_mem, desc).
    rbind (prefix_slice (dev1_descs[0 := desc]) 1) (\<lambda>one.
    rbind (TxQueue_produce_and_wakeup oc L X w1 dev1_tx_q one) (\<lambda>(r, dev1_tx_q, w2).
    rbind (unwrap r) (\<lambda>_.
    rbind (RxQueue_poll_and_consume oc L X w2 dev2_rx_q dev2_descs 100) (\<lambda>(r, dev2_descs, dev2_rx_q, w3).
    rbind (unwrap r) (\<lambda>pkts_recvd.
    rbind (find_packet dev2_umem (rx_mem w3) ETHERNET_PACKET (take (unat pkts_recvd) dev2_descs)) (\<lambda>found.
      if found then Ret (dev1_tx_q, dev2_fq, dev2_rx_q, w3) else Panic)))))))))"

text \<open>The locals at the end of a scope, in the order in which they are dropped.\<close>

definition drop_locals :: "'w libc \<Rightarrow> 'w libxdp \<Rightarrow> 'w socket_store \<Rightarrow> handle list \<Rightarrow> 'w socket_store" where
  "drop_locals L X st hs = foldl (drop_handle L X) st hs"

definition fq_and_cq_handles :: "(FillQueue \<times> CompQueue) option \<Rightarrow> handle list" where
  "fq_and_cq_handles q = (case q of None \<Rightarrow> [] | Some (fq, cq) \<Rightarrow> [FillH fq, CompH cq])"

definition hello_xdp :: "bool \<Rightarrow> 'w libc \<Rightarrow> 'w libxdp \<Rightarrow> ('w \<Rightarrow> u8 list) \<Rightarrow> u8 list
    \<Rightarrow> 'w socket_store \<Rightarrow> VethDevConfig \<Rightarrow> VethDevConfig \<Rightarrow> 'w socket_store rust" where
  "hello_xdp oc L X rx_mem tx_mem st dev1 dev2 =
    rbind (Umem_new oc L X st (UmemConfig_default X) 32 False) (\<lambda>(r1, st1).
    rbind (unwrap r1) (\<lambda>(dev1_umem, dev1_descs).
    rbind (unwrap (Interface_from_str (vd_if_name dev1))) (\<lambda>if1.
    rbind (Socket_new oc L X st1 (SocketConfig_default X) dev1_umem if1 0) (\<lambda>(r2, st2).
    rbind (unwrap r2) (\<lambda>(dev1_tx_q, dev1_rx_q, dev1_fq_and_cq).
    rbind (Umem_new oc L X st2 (UmemConfig_default X) 32 False) (\<lambda>(r3, st3).
    rbind (unwrap r3) (\<lambda>(dev2_umem, dev2_descs).
    rbind (unwrap (Interface_from_str (vd_if_name dev2))) (\<lambda>if2.
    rbind (Socket_new oc L X st3 (SocketConfig_default X) dev2_umem if2 0) (\<lambda>(r4, st4).
    rbind (unwrap r4) (\<lambda>(dev2_tx_q, dev2_rx_q, dev2_fq_and_cq).
    rbind (unwrap_option dev2_fq_and_cq) (\<lambda>(dev2_fq, dev2_cq).
    rbind (hello_exchange oc L X rx_mem (us_world st4) tx_mem dev1_umem dev1_descs dev1_tx_q
        dev2_umem dev2_descs dev2_fq dev2_rx_q) (\<lambda>(dev1_tx_q, dev2_fq, dev2_rx_q, w).
      Ret (drop_locals L X (st4\<lparr>us_world := w\<rparr>)
        ([CompH dev2_cq, FillH dev2_fq, RxH dev2_rx_q, TxH dev2_tx_q, UmemH dev2_umem]
         @ fq_and_cq_handles dev1_fq_and_cq @ [RxH dev1_rx_q, TxH dev1_tx_q, UmemH dev1_umem]))))))))))))))"

text \<open>With one UMEM: the descriptors are split, the first 16 for sending.\<close>

definition shared_umem :: "bool \<Rightarrow> 'w libc \<Rightarrow> 'w libxdp \<Rightarrow> ('w \<Rightarrow> u8 list) \<Rightarrow> u8 list
    \<Rightarrow> 'w socket_store \<Rightarrow> VethDevConfig \<Rightarrow> VethDevConfig \<Rightarrow> 'w socket_store rust" where
  "shared_umem oc L X rx_mem tx_mem st dev1 dev2 =
    rbind (Umem_new oc L X st (UmemConfig_default X) 32 False) (\<lambda>(r1, st1).
    rbind (unwrap r1) (\<lambda>(umem, descs).
    rbind (unwrap (Interface_from_str (vd_if_name dev1))) (\<lambda>if1.
    rbind (Socket_new oc L X st1 (SocketConfig_default X) umem if1 0) (\<lambda>(r2, st2).
    rbind (unwrap r2) (\<lambda>(dev1_tx_q, dev1_rx_q, dev1_fq_and_cq).
    rbind (unwrap (Interface_from_str (vd_if_name dev2))) (\<lambda>if2.
    rbind (Socket_new oc L X st2 (SocketConfig_default X) umem if2 0) (\<lambda>(r4, st4).
    rbind (unwrap r4) (\<lambda>(dev2_tx_q, dev2_rx_q, dev2_fq_and_cq).
    rbind (unwrap_option dev2_fq_and_cq) (\<lambda>(dev2_fq, dev2_cq).
    rbind (if 16 \<le> length descs then Ret (take 16 descs, drop 16 descs) else Panic) (\<lambda>(dev1_descs, dev2_descs).
    rbind (hello_exchange oc L X rx_mem (us_world st4) tx_mem umem dev1_descs dev1_tx_q
        umem dev2_descs dev2_fq dev2_rx_q) (\<lambda>(dev1_tx_q, dev2_fq, dev2_rx_q, w).
      Ret (drop_locals L X (st4\<lparr>us_world := w\<rparr>)
        ([CompH dev2_cq, FillH dev2_fq, RxH dev2_rx_q, TxH dev2_tx_q]
         @ fq_and_cq_handles dev1_fq_and_cq @ [RxH dev1_rx_q, TxH dev1_tx_q, UmemH umem])))))))))))))"

section \<open>The exchange\<close>

text \<open>Taking entries off a ring leaves the bytes of the UMEM alone; then consuming does.\<close>

definition bytes_kept :: "'w libxdp \<Rightarrow> ('w \<Rightarrow> u8 list) \<Rightarrow> bool" where
  "bytes_kept X rx_mem \<longleftrightarrow>
     (\<forall>w c nb i n i' c' w'. peek X w c nb i = (n, i', c', w') \<longrightarrow> rx_mem w' = rx_mem w) \<and>
     (\<forall>w c n c' w'. release X w c n = (c', w') \<longrightarrow> rx_mem w' = rx_mem w)"

lemma RxQueue_consume_quiet:
  assumes quiet: "bytes_kept X rx_mem" and run: "RxQueue_consume oc X w q ds = Ret (n, ds', q', w')"
  shows "rx_mem w' = rx_mem w"
proof -
  obtain cnt idx r w1 where pk: "peek X w (rx_raw q) (ucast (slice_len ds)) 0 = (cnt, idx, r, w1)"
    by (rule prod_cases4)
  obtain r' w2 where rel: "release X w1 r cnt = (r', w2)" by (rule prod.exhaust)
  have "rx_mem w1 = rx_mem w" "rx_mem w2 = rx_mem w1" using quiet pk rel unfolding bytes_kept_def by blast+
  with run RxQueue_consume_eq [OF pk rel, of oc] show ?thesis by (auto split: if_splits)
qed

text \<open>The first descriptor received is looked at first.\<close>

lemma find_packet_first:
  "Umem_data u mem d = Ret (Data pkt) \<Longrightarrow> find_packet u mem pkt (d # ds) = Ret True"
  by simp

lemma receive_first:
  assumes ring: "recv_ring X rinv ravail rheld rbase"
    and quiet: "bytes_kept X rx_mem"
    and ds: "ds \<noteq> []" "length ds < 2 ^ 32"
    and poll: "RxQueue_poll L w q 100 = (Inr True, q1, w1)"
    and rx: "rinv w1 (rx_raw q1)" "rheld w1 (rx_raw q1) = []" "ravail w1 (rx_raw q1) = x # xs"
  shows "\<exists>n ds' q' w' rest. RxQueue_poll_and_consume False L X w q ds 100 = Ret (Inr n, ds', q', w')
    \<and> take (unat n) ds' = rx_frame x # rest \<and> rx_mem w' = rx_mem w1"
proof -
  from ds have len: "length ds mod 2 ^ 32 = length ds" "0 < length ds" by auto
  obtain n q' w' where run: "RxQueue_consume False X w1 q1 ds
      = Ret (of_nat n, map rx_frame (take n (x # xs)) @ drop n ds, q', w')"
    and n: "n \<le> length ds" "n \<le> length (x # xs)" "0 < n"
    using recv_ring.consume_outcome [OF ring conjI [OF rx(1,2)], of ds] unfolding len(1) rx(3) using len(2) by auto
  have "unat (of_nat n :: usize) = n" using n(1) ds(2) by (simp add: unat_of_nat_u64)
  moreover obtain k where "n = Suc k" using n(3) by (cases n) auto
  ultimately have "take (unat (of_nat n :: usize)) (map rx_frame (take n (x # xs)) @ drop n ds)
      = rx_frame x # take k (map rx_frame (take k xs) @ drop n ds)" by simp
  with run poll RxQueue_consume_quiet [OF quiet run] show ?thesis
    by (simp add: RxQueue_poll_and_consume_def)
qed

text \<open>
  C24: the exchange of one packet, from end to end. The transmit ring is given exactly one
  descriptor, that of the first frame with the length of the packet, and if the link brings
  the bytes of that frame to the receiving UMEM, the program finds the packet. The link is
  described by the last assumption: whenever the transmit ring holds that descriptor, waking
  the kernel and polling the other socket succeed, and the first entry of the receive ring then
  is a frame with the same bytes.
\<close>

theorem hello_exchange_delivers:
  assumes tx_ring: "prod_ring (reserve X) (tx_desc_set X) (submit X) tinv tqueued tstaged tbase troom"
    and rx_ring: "cons_ring (peek X) (rx_desc_get X) (release X) rinv ravail rheld rbase"
    and quiet: "bytes_kept X rx_mem"
    and umem: "wf_region (um_mem u1) n" "desc_of (um_mem u1) n d i" "length mem = unat (rg_len (um_mem u1))"
      "sl_data (fd_lengths d) = 0" "42 \<le> unat (fl_mtu (rg_layout (um_mem u1)))"
    and rx_descs: "rx_descs \<noteq> []" "length rx_descs < 2 ^ 32"
    and filled: "FillQueue_produce False X w fq rx_descs = Ret (m, fq', w1)"
    and tx: "tinv w1 (tx_raw tq)" "tstaged w1 (tx_raw tq) = []" "tqueued w1 (tx_raw tq) = []" "1 \<le> troom w1 (tx_raw tq)"
    and written: "write_packet False u1 mem d ETHERNET_PACKET = Ret (mem1, d1)"
    and link: "\<And>q w. tx_socket q = tx_socket tq \<Longrightarrow> tinv w (tx_raw q) \<Longrightarrow> tqueued w (tx_raw q) = [tx_entry d1] \<Longrightarrow>
      \<exists>q' w' rq' w'' x xs. TxQueue_wakeup_after L X w q 1 = (Inr 1, q', w')
        \<and> RxQueue_poll L w' rq 100 = (Inr True, rq', w'') \<and> rinv w'' (rx_raw rq') \<and> rheld w'' (rx_raw rq') = []
        \<and> ravail w'' (rx_raw rq') = x # xs \<and> Umem_data u2 (rx_mem w'') (rx_frame x) = Umem_data u1 mem1 d1"
  shows "tx_entry d1 = \<lparr>xd_addr = fd_addr d, xd_len = 42, xd_options = fd_options d\<rparr>
    \<and> (\<exists>qs. hello_exchange False L X rx_mem w mem u1 (d # ds) tq u2 rx_descs fq rq = Ret qs)"
proof -
  have pkt: "length ETHERNET_PACKET = 42" "wf_slice ETHERNET_PACKET"
    by (simp_all add: ETHERNET_PACKET_def wf_slice_def)
  have sent: "Umem_data u1 mem1 d1 = Ret (Data ETHERNET_PACKET)" "unat (xd_len (tx_entry d1)) = 42" "fd_addr d1 = fd_addr d"
    using write_packet_effect [OF umem(1-3) pkt(2) refl, of False] umem(4,5) written pkt(1)
    by (simp_all add: seg_def)
  have "fd_options d1 = fd_options d"
    using written by (auto simp: write_packet_def data_mut_back_def rbind_Ret_iff split: prod.splits)
  moreover have "xd_len (tx_entry d1) = 42" using sent(2) by (simp add: word_unat_eq_iff)
  ultimately have entry: "tx_entry d1 = \<lparr>xd_addr = fd_addr d, xd_len = 42, xd_options = fd_options d\<rparr>"
    using sent(3) by (simp add: tx_entry_def)
  obtain n' tq1 w2 where produced: "TxQueue_produce False X w1 tq [d1] = Ret (n', tq1, w2)"
    and tq1: "tinv w2 (tx_raw tq1)" "tx_socket tq1 = tx_socket tq" "unat n' = 1" "tqueued w2 (tx_raw tq1) = [tx_entry d1]"
    using send_ring.produce_outcome [OF send_ring.intro [OF tx_ring] conjI [OF tx(1,2)], of 1 "[d1]"] tx(3,4) by auto
  have one: "n' = 1" using tq1(3) by (simp add: word_unat_eq_iff)
  from link [OF tq1(2,1,4)] obtain tq2 w3 rq' w4 x xs where
    woken: "TxQueue_wakeup_after L X w2 tq1 1 = (Inr 1, tq2, w3)"
    and poll: "RxQueue_poll L w3 rq 100 = (Inr True, rq', w4)" "rinv w4 (rx_raw rq')" "rheld w4 (rx_raw rq') = []"
      "ravail w4 (rx_raw rq') = x # xs"
    and same: "Umem_data u2 (rx_mem w4) (rx_frame x) = Umem_data u1 mem1 d1" by blast
  obtain n ds' rq'' w5 rest where received: "RxQueue_poll_and_consume False L X w3 rq rx_descs 100 = Ret (Inr n, ds', rq'', w5)"
    "take (unat n) ds' = rx_frame x # rest" "rx_mem w5 = rx_mem w4"
    using receive_first [OF recv_ring.intro [OF rx_ring] quiet rx_descs poll] by blast
  have "find_packet u2 (rx_mem w5) ETHERNET_PACKET (take (unat n) ds') = Ret True"
    unfolding received(2,3) by (rule find_packet_first) (simp add: same sent(1))
  moreover have "TxQueue_produce_and_wakeup False L X w1 tq [d1] = Ret (Inr 1, tq2, w3)"
    by (simp add: TxQueue_produce_and_wakeup_def produced one woken)
  ultimately have "hello_exchange False L X rx_mem w mem u1 (d # ds) tq u2 rx_descs fq rq = Ret (tq2, fq', rq'', w5)"
    by (simp add: hello_exchange_def filled index_def written prefix_slice_def received(1) unwrap_def)
  with entry show ?thesis by blast
qed

text \<open>A link on the reference interface: polling brings a frame of 42 bytes to the receiving ring.\<close>

definition hello_os :: "ref_world libc" where
  "hello_os = ref_libc\<lparr>poll := \<lambda>w p n ms. (1, p\<lparr>pf_revents := pf_events p\<rparr>,
     ref_word_put (ref_word_put (ref_desc_put w 308 0 \<lparr>xd_addr = 64, xd_len = 42, xd_options = 0\<rparr>) 300 1) 304 0)\<rparr>"

definition hello_umem :: Umem where
  "hello_umem = \<lparr>um_inner = 0, um_mem = \<lparr>rg_layout = \<lparr>fl_xdp_headroom = 0, fl_frame_headroom = 0, fl_mtu = 64\<rparr>,
     rg_addr = 4096, rg_len = 128, rg_mmap = 0\<rparr>\<rparr>"

definition hello_received :: "u8 list" where
  "hello_received = replicate 64 0 @ ETHERNET_PACKET @ replicate 22 0"

lemma hello_arrives:
  assumes "snd (snd (poll hello_os w p n ms)) = w'"
  shows "ref_cons_ok w' (ref_cons 300)" "ref_held rw_descs w' (ref_cons 300) = []"
    "ref_avail rw_descs w' (ref_cons 300) = [\<lparr>xd_addr = 64, xd_len = 42, xd_options = 0\<rparr>]"
  using assms
  by (auto simp: hello_os_def ref_cons_ok_def ref_cons_def c_held_def c_avail_def c_seen_def ring_shape_def ref_held_def
    ref_avail_def ref_word_put_def ref_desc_put_def cons_slot_def intro!: exI [of _ 2])

lemma hello_filled:
  "\<exists>m fq' w1. FillQueue_produce False ref_libxdp ref_zero (FillQueue_new (XskRingProd (ref_prod 100)) u) [FrameDesc_new 64]
      = Ret (m, fq', w1)
    \<and> ref_prod_ok w1 (ref_prod 400) \<and> ref_staged rw_descs w1 (ref_prod 400) = []
    \<and> ref_queued rw_descs w1 (ref_prod 400) = [] \<and> ref_room w1 (ref_prod 400) = 4"
  by (auto simp: FillQueue_produce_def FillQueue_new_def slice_len_def ref_reserve_def ref_prod_def ref_submit_def Let_def
    prod_slot_put_def ref_addr_put_def ref_word_put_def ref_zero_def ref_prod_ok_def p_queued_def p_staged_def p_seen_def
    ref_staged_def ref_queued_def ref_room_def ring_shape_def intro!: exI [of _ 2])

theorem hello_exchange_delivers_witness:
  "\<forall>s1 s2. \<exists>qs. hello_exchange False hello_os ref_libxdp (\<lambda>_. hello_received) ref_zero (replicate 128 0)
     hello_umem [FrameDesc_new 0] (TxQueue_new (XskRingProd (ref_prod 400)) s1)
     hello_umem [FrameDesc_new 64] (FillQueue_new (XskRingProd (ref_prod 100)) hello_umem)
     (RxQueue_new (XskRingCons (ref_cons 300)) s2) = Ret qs"
proof (intro allI)
  fix s1 s2
  let ?u = hello_umem and ?d = "FrameDesc_new 0" and ?mem = "replicate 128 0 :: u8 list"
  let ?rq = "RxQueue_new (XskRingCons (ref_cons 300)) s2"
  have u: "wf_region (um_mem ?u) 2" "desc_of (um_mem ?u) 2 ?d 0" "length ?mem = unat (rg_len (um_mem ?u))"
    "sl_data (fd_lengths ?d) = 0" "42 \<le> unat (fl_mtu (rg_layout (um_mem ?u)))"
    by (simp_all add: hello_umem_def wf_region_def wf_layout_def frame_bytes_def desc_of_def data_off_def
      FrameDesc_new_def SegmentLengths_default_def)
  obtain m fq' w1 where w1: "FillQueue_produce False ref_libxdp ref_zero (FillQueue_new (XskRingProd (ref_prod 100)) ?u) [FrameDesc_new 64]
      = Ret (m, fq', w1)" "ref_prod_ok w1 (ref_prod 400)" "ref_staged rw_descs w1 (ref_prod 400) = []"
    "ref_queued rw_descs w1 (ref_prod 400) = []" "ref_room w1 (ref_prod 400) = 4" using hello_filled by blast
  have pkt: "length ETHERNET_PACKET = 42" "wf_slice ETHERNET_PACKET" by (simp_all add: ETHERNET_PACKET_def wf_slice_def)
  obtain mem1 d1 where d1: "write_packet False ?u ?mem ?d ETHERNET_PACKET = Ret (mem1, d1)"
    "Umem_data ?u mem1 d1 = Ret (Data ETHERNET_PACKET)"
    using write_packet_effect [OF u(1-3) pkt(2) refl, of False] u(4,5) pkt(1) by (auto simp: seg_def)
  have quiet: "bytes_kept ref_libxdp (\<lambda>_. hello_received)" by (simp add: bytes_kept_def)
  have data: "Umem_data ?u hello_received (rx_frame \<lparr>xd_addr = 64, xd_len = 42, xd_options = 0\<rparr>) = Ret (Data ETHERNET_PACKET)"
    by (simp add: Umem_data_def UmemRegion_data_def UmemRegion_data_ptr_def ptr_add_def from_raw_parts_def hello_umem_def
      rx_frame_def Data_new_def hello_received_def seg_def pkt(1))
  have link: "\<exists>q' w' rq' w'' x xs. TxQueue_wakeup_after hello_os ref_libxdp w q 1 = (Inr 1, q', w')
      \<and> RxQueue_poll hello_os w' ?rq 100 = (Inr True, rq', w'') \<and> ref_cons_ok w'' (rx_raw rq')
      \<and> ref_held rw_descs w'' (rx_raw rq') = [] \<and> ref_avail rw_descs w'' (rx_raw rq') = x # xs
      \<and> Umem_data ?u hello_received (rx_frame x) = Umem_data ?u mem1 d1" for q w
  proof -
    have "TxQueue_wakeup_after hello_os ref_libxdp w q 1 = (Inr 1, q, w)"
      by (simp add: TxQueue_wakeup_after_def TxQueue_needs_wakeup_def TxQueue_wakeup_def hello_os_def ref_libc_def
        ref_libxdp_def Let_def)
    moreover obtain f w'' where "Fd_poll_read hello_os w (so_fd s2) 100 = (Inr True, f, w'')"
      "w'' = snd (snd (poll hello_os w (PollFd_raw (f_pollfd_read (so_fd s2))) 1 100))"
      by (simp add: Fd_poll_read_def PollFd_poll_def hello_os_def ref_libc_def)
    moreover note hello_arrives [OF this(2) [symmetric]]
    ultimately show ?thesis
      using data d1(2) by (intro exI) (auto simp: RxQueue_poll_def RxQueue_new_def)
  qed
  have "tx_raw (TxQueue_new (XskRingProd (ref_prod 400)) s1) = ref_prod 400" by (simp add: TxQueue_new_def)
  then show "\<exists>qs. hello_exchange False hello_os ref_libxdp (\<lambda>_. hello_received) ref_zero ?mem ?u [?d]
     (TxQueue_new (XskRingProd (ref_prod 400)) s1) ?u [FrameDesc_new 64] (FillQueue_new (XskRingProd (ref_prod 100)) ?u) ?rq
     = Ret qs"
    using hello_exchange_delivers [where X = ref_libxdp and rx_mem = "\<lambda>_. hello_received", unfolded ref_libxdp_simps,
        OF ref_tx_contract ref_rx_contract quiet u _ _ w1(1) _ _ _ _ d1(1) link, of "TxQueue_new (XskRingProd (ref_prod 400)) s1" "[]"] w1
    by simp
qed

end
