(* ===== verification/Xsk_Hello_Release.thy ===== *)
theory Xsk_Hello_Release
  imports Xsk_Hello Xsk_Example_Setup
begin

text \<open>
  The end of \<^verbatim>\<open>hello_xdp.rs\<close> and \<^verbatim>\<open>shared_umem.rs\<close>: each is a run of a program in the sense of
  \<open>Xsk_Lifetimes\<close> that drops all its handles, so nothing it opened stays open.
\<close>

section \<open>What is released at the end\<close>

text \<open>Giving up handles one after the other is a run of the program.\<close>

lemma drop_locals_run:
  "program_run oc L X (st, mset hs) (drop_locals (traced_libc L) (traced_libxdp X) st hs, {#})"
proof (induction hs arbitrary: st)
  case Nil
  then show ?case by (simp add: drop_locals_def)
next
  case (Cons h hs)
  have "program_step oc L X (st, mset (h # hs)) (drop_handle (traced_libc L) (traced_libxdp X) st h, mset hs)"
    using program_step.drop [of oc L X st h "mset hs"] by simp
  then show ?case
    using Cons.IH by (simp add: drop_locals_def converse_rtranclp_into_rtranclp)
qed

text \<open>So is the exchange.\<close>

lemma hello_exchange_run:
  assumes "hello_exchange oc (traced_libc L) (traced_libxdp X) rx_mem (us_world st) mem u1 ds1 tq u2 ds2 fq rq
      = Ret (tq', fq', rq', w)"
  shows "program_run oc L X (st, {#TxH tq, FillH fq, RxH rq#} + H) (st\<lparr>us_world := w\<rparr>, {#TxH tq', FillH fq', RxH rq'#} + H)"
proof -
  from assms obtain n one r r' ds' w1 w2 where
    f: "FillQueue_produce oc (traced_libxdp X) (us_world st) fq ds2 = Ret (n, fq', w1)"
    and t: "TxQueue_produce_and_wakeup oc (traced_libc L) (traced_libxdp X) w1 tq one = Ret (r, tq', w2)"
    and r: "RxQueue_poll_and_consume oc (traced_libc L) (traced_libxdp X) w2 rq ds2 100 = Ret (r', ds', rq', w)"
    by (auto simp: hello_exchange_def rbind_Ret_iff split: if_splits)
  let ?st1 = "st\<lparr>us_world := w1\<rparr>" and ?st2 = "st\<lparr>us_world := w2\<rparr>" and ?st3 = "st\<lparr>us_world := w\<rparr>"
  have t': "TxQueue_produce_and_wakeup oc (traced_libc L) (traced_libxdp X) (us_world ?st1) tq one = Ret (r, tq', w2)"
    and r': "RxQueue_poll_and_consume oc (traced_libc L) (traced_libxdp X) (us_world ?st2) rq ds2 100 = Ret (r', ds', rq', w)"
    using t r by simp_all
  have "program_step oc L X (st, {#TxH tq, FillH fq, RxH rq#} + H) (?st1, {#TxH tq, FillH fq', RxH rq#} + H)"
    using program_step.fill [OF f, of L "{#TxH tq, RxH rq#} + H"] by (simp add: add_mset_commute)
  moreover have "program_step oc L X (?st1, {#TxH tq, FillH fq', RxH rq#} + H) (?st2, {#TxH tq', FillH fq', RxH rq#} + H)"
    using program_step.transmit [OF t', of "{#FillH fq', RxH rq#} + H"] by (simp add: add_mset_commute)
  moreover have "program_step oc L X (?st2, {#TxH tq', FillH fq', RxH rq#} + H) (?st3, {#TxH tq', FillH fq', RxH rq'#} + H)"
    using program_step.receive [OF r', of "{#TxH tq', FillH fq'#} + H"] by (simp add: add_mset_commute)
  ultimately show ?thesis by (meson converse_rtranclp_into_rtranclp rtranclp.rtrancl_refl)
qed

text \<open>And the creations.\<close>

lemma socket_handles_list:
  "socket_handles (txq, rxq, qs) = {#TxH txq, RxH rxq#} + mset (fq_and_cq_handles qs)"
  by (cases qs) (auto simp: fq_and_cq_handles_def)

lemma hello_xdp_run:
  assumes "hello_xdp oc (traced_libc L) (traced_libxdp X) rx_mem mem st dev1 dev2 = Ret st'"
  shows "program_run oc L X (st, {#}) (st', {#})"
proof -
  let ?L = "traced_libc L" and ?X = "traced_libxdp X" and ?S = "program_step oc L X"
  from assms obtain u1 ds1 st1 if1 tx1 rx1 qs1 st2 u2 ds2 st3 if2 tx2 rx2 fq cq st4 tx1' fq' rx2' w where
    u1: "Umem_new oc ?L ?X st (UmemConfig_default ?X) 32 False = Ret (Inr (u1, ds1), st1)"
    and s1: "Socket_new oc ?L ?X st1 (SocketConfig_default ?X) u1 if1 0 = Ret (Inr (tx1, rx1, qs1), st2)"
    and u2: "Umem_new oc ?L ?X st2 (UmemConfig_default ?X) 32 False = Ret (Inr (u2, ds2), st3)"
    and s2: "Socket_new oc ?L ?X st3 (SocketConfig_default ?X) u2 if2 0 = Ret (Inr (tx2, rx2, Some (fq, cq)), st4)"
    and ex: "hello_exchange oc ?L ?X rx_mem (us_world st4) mem u1 ds1 tx1 u2 ds2 fq rx2 = Ret (tx1', fq', rx2', w)"
    and st': "st' = drop_locals ?L ?X (st4\<lparr>us_world := w\<rparr>)
        ([CompH cq, FillH fq', RxH rx2', TxH tx2, UmemH u2] @ fq_and_cq_handles qs1 @ [RxH rx1, TxH tx1', UmemH u1])"
    by (auto simp: hello_xdp_def rbind_Ret_iff unwrap_option_def split: option.splits)
  let ?Q = "mset (fq_and_cq_handles qs1)"
  have "?S (st, {#}) (st1, {#UmemH u1#})" using program_step.new_umem [OF u1, of "{#}"] by simp
  moreover have "?S (st1, {#UmemH u1#}) (st2, {#TxH tx1, RxH rx1, UmemH u1#} + ?Q)"
    using program_step.new_socket [OF _ s1, of "{#UmemH u1#}"] by (simp add: socket_handles_list add_mset_commute)
  moreover have "?S (st2, {#TxH tx1, RxH rx1, UmemH u1#} + ?Q) (st3, {#UmemH u2, TxH tx1, RxH rx1, UmemH u1#} + ?Q)"
    using program_step.new_umem [OF u2, of "{#TxH tx1, RxH rx1, UmemH u1#} + ?Q"] by simp
  moreover have "?S (st3, {#UmemH u2, TxH tx1, RxH rx1, UmemH u1#} + ?Q)
      (st4, {#TxH tx1, FillH fq, RxH rx2#} + ({#TxH tx2, CompH cq, UmemH u2, RxH rx1, UmemH u1#} + ?Q))"
    using program_step.new_socket [OF _ s2, of "{#UmemH u2, TxH tx1, RxH rx1, UmemH u1#} + ?Q"]
    by (simp add: add_mset_commute)
  moreover note hello_exchange_run [OF ex, of "{#TxH tx2, CompH cq, UmemH u2, RxH rx1, UmemH u1#} + ?Q"]
  moreover have "program_run oc L X (st4\<lparr>us_world := w\<rparr>,
      {#TxH tx1', FillH fq', RxH rx2'#} + ({#TxH tx2, CompH cq, UmemH u2, RxH rx1, UmemH u1#} + ?Q)) (st', {#})"
    using drop_locals_run [of oc L X "st4\<lparr>us_world := w\<rparr>"
      "[CompH cq, FillH fq', RxH rx2', TxH tx2, UmemH u2] @ fq_and_cq_handles qs1 @ [RxH rx1, TxH tx1', UmemH u1]"]
    by (simp add: st' add_mset_commute)
  ultimately show ?thesis by (meson converse_rtranclp_into_rtranclp rtranclp_trans)
qed

lemma shared_umem_run:
  assumes "shared_umem oc (traced_libc L) (traced_libxdp X) rx_mem mem st dev1 dev2 = Ret st'"
  shows "program_run oc L X (st, {#}) (st', {#})"
proof -
  let ?L = "traced_libc L" and ?X = "traced_libxdp X" and ?S = "program_step oc L X"
  from assms obtain u ds st1 if1 tx1 rx1 qs1 st2 if2 tx2 rx2 fq cq st4 ds1 ds2 tx1' fq' rx2' w where
    u: "Umem_new oc ?L ?X st (UmemConfig_default ?X) 32 False = Ret (Inr (u, ds), st1)"
    and s1: "Socket_new oc ?L ?X st1 (SocketConfig_default ?X) u if1 0 = Ret (Inr (tx1, rx1, qs1), st2)"
    and s2: "Socket_new oc ?L ?X st2 (SocketConfig_default ?X) u if2 0 = Ret (Inr (tx2, rx2, Some (fq, cq)), st4)"
    and ex: "hello_exchange oc ?L ?X rx_mem (us_world st4) mem u ds1 tx1 u ds2 fq rx2 = Ret (tx1', fq', rx2', w)"
    and st': "st' = drop_locals ?L ?X (st4\<lparr>us_world := w\<rparr>)
        ([CompH cq, FillH fq', RxH rx2', TxH tx2] @ fq_and_cq_handles qs1 @ [RxH rx1, TxH tx1', UmemH u])"
    by (auto simp: shared_umem_def rbind_Ret_iff unwrap_option_def split: option.splits)
  let ?Q = "mset (fq_and_cq_handles qs1)"
  have "?S (st, {#}) (st1, {#UmemH u#})" using program_step.new_umem [OF u, of "{#}"] by simp
  moreover have "?S (st1, {#UmemH u#}) (st2, {#TxH tx1, RxH rx1, UmemH u#} + ?Q)"
    using program_step.new_socket [OF _ s1, of "{#UmemH u#}"] by (simp add: socket_handles_list add_mset_commute)
  moreover have "?S (st2, {#TxH tx1, RxH rx1, UmemH u#} + ?Q)
      (st4, {#TxH tx1, FillH fq, RxH rx2#} + ({#TxH tx2, CompH cq, RxH rx1, UmemH u#} + ?Q))"
    using program_step.new_socket [OF _ s2, of "{#TxH tx1, RxH rx1, UmemH u#} + ?Q"] by (simp add: add_mset_commute)
  moreover note hello_exchange_run [OF ex, of "{#TxH tx2, CompH cq, RxH rx1, UmemH u#} + ?Q"]
  moreover have "program_run oc L X (st4\<lparr>us_world := w\<rparr>,
      {#TxH tx1', FillH fq', RxH rx2'#} + ({#TxH tx2, CompH cq, RxH rx1, UmemH u#} + ?Q)) (st', {#})"
    using drop_locals_run [of oc L X "st4\<lparr>us_world := w\<rparr>"
      "[CompH cq, FillH fq', RxH rx2', TxH tx2] @ fq_and_cq_handles qs1 @ [RxH rx1, TxH tx1', UmemH u]"]
    by (simp add: st' add_mset_commute)
  ultimately show ?thesis by (meson converse_rtranclp_into_rtranclp rtranclp_trans)
qed

text \<open>
  Both programs give back everything. When one returns, having started from an empty store,
  every socket, UMEM and memory map it opened is closed, each once and in order, the sockets
  before their UMEM and the UMEMs before their memory, and no reference-counted cell is left.
  Assumed of the allocators only that they do not hand out what is in use.
\<close>

lemma hello_programs_release_all:
  assumes run: "hello_xdp oc (traced_libc L) (traced_libxdp X) rx_mem mem (fst (program_start w)) dev1 dev2 = Ret st
      \<or> shared_umem oc (traced_libc L) (traced_libxdp X) rx_mem mem (fst (program_start w)) dev1 dev2 = Ret st"
    and fresh: "fresh_trace no_resources (calls_made st)"
  shows "opens no_resources (calls_made st) = no_resources \<and> ordered_trace no_resources (calls_made st)
    \<and> cells (us_maps st) = Map.empty \<and> cells (us_umems st) = Map.empty \<and> cells (ss_sockets st) = Map.empty"
proof -
  have "program_run oc L X (program_start w) (st, {#})"
    using run hello_xdp_run [of oc L X] shared_umem_run [of oc L X] by (auto simp: program_start_def)
  from program_run_ok [OF this] fresh have ok: "store_ok st {#} {#}" by (simp add: program_ok_def)
  with invariant_empty [OF store_okD [OF ok]] show ?thesis by (simp add: store_ok_def)
qed

section \<open>A run\<close>

text \<open>
  An interface that hands out a new socket each time (the world counts them) and on which the
  packet is there as soon as it is looked for.
\<close>

definition hello_lib :: "nat libxdp" where
  "hello_lib = \<lparr>reserve = (\<lambda>w r nb i. (nb, i, r, w)), fill_addr_set = (\<lambda>w r i a. w),
     tx_desc_get = (\<lambda>w r i. \<lparr>xd_addr = 0, xd_len = 0, xd_options = 0\<rparr>), tx_desc_set = (\<lambda>w r i d. w),
     submit = (\<lambda>w r nb. (r, w)), prod_needs_wakeup = (\<lambda>w r. 0), peek = (\<lambda>w r nb i. (1, i, r, w)),
     comp_addr_get = (\<lambda>w r i. 0), rx_desc_get = (\<lambda>w r i. \<lparr>xd_addr = 64, xd_len = 42, xd_options = 0\<rparr>),
     release = (\<lambda>w r nb. (r, w)),
     umem_create = (\<lambda>w p a n fq cq c. (0, 4096, ref_prod 100, ref_cons 200, w)),
     umem_delete = (\<lambda>w p. (0, w)),
     socket_create_shared = (\<lambda>w p i q u rx tx fq cq c.
       (0, 8192 + of_nat w, ref_cons 300, ref_prod 400, ref_prod 100, ref_cons 200, Suc w)),
     socket_fd = (\<lambda>w p. 7), socket_delete = (\<lambda>w p. w),
     XDP_PACKET_HEADROOM = 256, XSK_RING_CONS_DEFAULT_NUM_DESCS = 2048,
     XSK_RING_PROD_DEFAULT_NUM_DESCS = 2048, XSK_UMEM_DEFAULT_FRAME_HEADROOM = 0,
     XSK_UMEM_DEFAULT_FRAME_SIZE = 4096, XDP_STATISTICS = 7, XDP_STATISTICS_SIZEOF = 48\<rparr>"

abbreviation hello_X :: "nat traced libxdp" where "hello_X \<equiv> traced_libxdp hello_lib"
abbreviation hello_L :: "nat traced libc" where "hello_L \<equiv> traced_libc ref_libc"

lemma hello_lib_simps [simp]:
  "reserve hello_lib w r nb i = (nb, i, r, w)" "submit hello_lib w r nb = (r, w)" "prod_needs_wakeup hello_lib w r = 0"
  "peek hello_lib w rc nb i = (1, i, rc, w)" "release hello_lib w rc nb = (rc, w)"
  "rx_desc_get hello_lib w rc i = \<lparr>xd_addr = 64, xd_len = 42, xd_options = 0\<rparr>"
  "umem_create hello_lib w p a n fq cq c = (0, 4096, ref_prod 100, ref_cons 200, w)"
  "socket_create_shared hello_lib w p nm q u rx tx fq cq sc
    = (0, 8192 + of_nat w, ref_cons 300, ref_prod 400, ref_prod 100, ref_cons 200, Suc w)"
  "socket_fd hello_lib w p = 7" "XDP_PACKET_HEADROOM hello_lib = 256"
  "XSK_UMEM_DEFAULT_FRAME_SIZE hello_X = 4096" "XSK_UMEM_DEFAULT_FRAME_HEADROOM hello_X = 0"
  "rx_desc_get hello_X wt rc i = \<lparr>xd_addr = 64, xd_len = 42, xd_options = 0\<rparr>"
  by (cases wt; simp add: hello_lib_def traced_libxdp_def)+

text \<open>Dropping only releases, so it is never an acquisition that is not fresh.\<close>

fun is_release :: "foreign_call \<Rightarrow> bool" where
  "is_release (MunmapCall a n) = True"
| "is_release (UmemDeleteCall p) = True"
| "is_release (SocketDeleteCall p) = True"
| "is_release _ = False"

lemma releases_fresh: "list_all is_release t \<Longrightarrow> fresh_trace r t"
proof (induction t arbitrary: r)
  case (Cons c t)
  then show ?case by (cases c) simp_all
qed simp

definition adds_releases :: "'w traced socket_store \<Rightarrow> 'w traced socket_store \<Rightarrow> bool" where
  "adds_releases st st' \<longleftrightarrow> (\<exists>t. calls_made st' = calls_made st @ t \<and> list_all is_release t)"

lemma adds_releases_trans: "adds_releases a b \<Longrightarrow> adds_releases b c \<Longrightarrow> adds_releases a c"
  by (auto simp: adds_releases_def)

lemma Umem_drop_releases: "adds_releases st (Umem_drop (traced_libc L) (traced_libxdp X) st u)"
proof -
  obtain w t where world: "us_world st = (w, t)" by (rule prod.exhaust)
  obtain v u' where u: "arc_drop (us_umems st) (um_inner u) = (v, u')" by (rule prod.exhaust)
  obtain vm m' where m: "arc_drop (us_maps st) (rg_mmap (um_mem u)) = (vm, m')" by (rule prod.exhaust)
  from Umem_drop_traced [OF world u m, of L X] world show ?thesis
    by (auto simp: adds_releases_def split: option.split)
qed

lemma Socket_drop_releases: "adds_releases st (Socket_drop (traced_libc L) (traced_libxdp X) st k)"
proof -
  obtain v s' where s: "arc_drop (ss_sockets st) (so_inner k) = (v, s')" by (rule prod.exhaust)
  show ?thesis
  proof (cases v)
    case None
    then show ?thesis by (simp add: Socket_drop_def s adds_releases_def)
  next
    case (Some si)
    let ?st = "st\<lparr>ss_sockets := s', us_world := XskSocket_drop (traced_libxdp X) (us_world st) (si_ptr si)\<rparr>"
    have "adds_releases st ?st"
      by (cases "us_world st"; cases "si_ptr si") (simp add: adds_releases_def)
    moreover have "adds_releases ?st (Socket_drop (traced_libc L) (traced_libxdp X) st k)"
      using Umem_drop_releases [of ?st] Some by (simp add: Socket_drop_def s SocketInner_drop_def)
    ultimately show ?thesis by (rule adds_releases_trans)
  qed
qed

lemma drop_locals_releases: "adds_releases st (drop_locals (traced_libc L) (traced_libxdp X) st hs)"
proof (induction hs arbitrary: st)
  case Nil
  then show ?case by (simp add: drop_locals_def adds_releases_def)
next
  case (Cons h hs)
  have "adds_releases st (drop_handle (traced_libc L) (traced_libxdp X) st h)"
    by (cases h) (simp_all add: TxQueue_drop_def RxQueue_drop_def FillQueue_drop_def CompQueue_drop_def
      Umem_drop_releases Socket_drop_releases)
  with Cons.IH show ?case by (auto simp: drop_locals_def intro: adds_releases_trans)
qed

lemma release_produces:
  "\<exists>n q' w'. FillQueue_produce False X w q ds = Ret (n, q', w')"
  "\<exists>n q' w'. TxQueue_produce False X w tq ds = Ret (n, q', w')"
proof -
  obtain cnt idx r w1 where res: "reserve X w (fq_raw q) (ucast (slice_len ds)) 0 = (cnt, idx, r, w1)" by (rule prod_cases4)
  obtain r' w2 where "submit X (write_run (fill_addr_set X) w1 r idx (map fd_addr (take (unat cnt) ds))) r cnt = (r', w2)"
    by (rule prod.exhaust)
  from FillQueue_produce_eq [OF res this, of False] show "\<exists>n q' w'. FillQueue_produce False X w q ds = Ret (n, q', w')" by simp
  obtain cnt idx r w1 where res: "reserve X w (tx_raw tq) (ucast (slice_len ds)) 0 = (cnt, idx, r, w1)" by (rule prod_cases4)
  obtain r' w2 where "submit X (write_run (tx_desc_set X) w1 r idx (map tx_entry (take (unat cnt) ds))) r cnt = (r', w2)"
    by (rule prod.exhaust)
  from TxQueue_produce_eq [OF res this, of False] show "\<exists>n q' w'. TxQueue_produce False X w tq ds = Ret (n, q', w')" by simp
qed

lemma first_desc_empty:
  "frame_descs_from oc l i (Suc n) = Ret ds \<Longrightarrow> sl_data (fd_lengths (ds ! 0)) = 0"
  by (auto simp: rbind_Ret_iff FrameDesc_new_def SegmentLengths_default_def)

lemma hello_umem_new:
  "\<exists>u ds st. Umem_new False hello_L hello_X (fst (program_start 0)) (UmemConfig_default hello_X) 32 False = Ret (Inr (u, ds), st)
    \<and> us_world st = (0, [MmapCall 65536 131072, UmemCreateCall 4096 65536])
    \<and> (\<exists>ui. arc_get (us_umems st) (um_inner u) = Some ui \<and> ui_ptr ui = XskUmem 4096)
    \<and> rg_len (um_mem u) = 131072 \<and> fl_mtu (rg_layout (um_mem u)) = 3840 \<and> sl_data (fd_lengths (ds ! 0)) = 0"
proof -
  obtain ds where ds: "frame_descs_from False \<lparr>fl_xdp_headroom = 256, fl_frame_headroom = 0, fl_mtu = 3840\<rparr> 0 32 = Ret ds"
    using frame_descs_release by blast
  let ?l = "\<lparr>fl_xdp_headroom = 256, fl_frame_headroom = 0, fl_mtu = 3840\<rparr>"
  have l: "FrameLayout_from False hello_X (UmemConfig_default hello_X) = Ret ?l"
    by (simp add: FrameLayout_from_def UmemConfig_mtu_def UmemConfig_xdp_headroom_def UmemConfig_default_def)
  have r: "UmemRegion_new False hello_L (0, []) arena_empty 32 ?l False = Ret
      (Inr \<lparr>rg_layout = ?l, rg_addr = 65536, rg_len = 131072, rg_mmap = 0\<rparr>,
       snd (arc_new arena_empty \<lparr>mm_addr = 65536, mm_len = 131072\<rparr>), (0, [MmapCall 65536 131072]))"
    by (simp add: UmemRegion_new_def FrameLayout_frame_size_def Mmap_new_def Mmap_addr_def arc_new_def arena_empty_def Let_def)
  show ?thesis using ds first_desc_empty [of False ?l 0 31 ds]
    by (simp add: Umem_new_def program_start_def l r ref_prod_def ref_cons_def Let_def UmemRegion_as_ptr_def
      arc_new_def arc_get_def UmemInner_new_def XskUmem_new_def)
qed

lemma arc_get_kept:
  "arc_get (arc_clone h i) j = arc_get h j" "arc_get h i = Some a \<Longrightarrow> arc_get (arc_set h i b) i = Some b"
  by (auto simp: arc_defs split: option.splits)

lemma hello_socket_new:
  assumes "arc_get (us_umems st) (um_inner u) = Some ui" and "ui_ptr ui = XskUmem 4096"
    and "us_world st = (k, t)" and "8192 + of_nat k \<noteq> (0 :: ptr)"
  shows "\<exists>tx rx fq cq st'. Socket_new False hello_L hello_X st sc u i 0 = Ret (Inr (tx, rx, Some (fq, cq)), st')
    \<and> us_world st' = (Suc k, t @ [SocketCreateCall (8192 + of_nat k) 4096])
    \<and> (\<exists>ui'. arc_get (us_umems st') (um_inner u) = Some ui' \<and> ui_ptr ui' = XskUmem 4096)"
  using assms
  by (simp add: Socket_new_def with_ptr_and_saved_queues_def Socket_create_def Socket_queues_def XskSocket_new_def
    Umem_clone_eq Socket_clone_def arc_new_def ref_prod_def ref_cons_def Let_def arc_get_kept)

lemma hello_exchange_returns:
  assumes u: "wf_region (um_mem u) n" "desc_of (um_mem u) n d 0" "sl_data (fd_lengths d) = 0" "rg_len (um_mem u) = 131072"
      "fl_mtu (rg_layout (um_mem u)) = 3840"
    and ds: "ds1 \<noteq> []" "ds1 ! 0 = d" "ds2 \<noteq> []" "length ds2 < 2 ^ 32"
  shows "\<exists>tq' fq' rq' w'. hello_exchange False hello_L hello_X (\<lambda>_. hello_received) (k, t) (replicate 131072 0) u ds1 tq u ds2 fq rq
      = Ret (tq', fq', rq', w') \<and> snd w' = t"
proof -
  obtain n1 fq' w1 where f: "FillQueue_produce False hello_X (k, t) fq ds2 = Ret (n1, fq', w1)"
    using release_produces(1) [of hello_X "(k, t)" fq ds2] by blast
  have mem: "length (replicate 131072 0 :: u8 list) = unat (rg_len (um_mem u))" using u(4) by simp
  have pkt: "length ETHERNET_PACKET = 42" "wf_slice ETHERNET_PACKET" by (simp_all add: ETHERNET_PACKET_def wf_slice_def)
  obtain mem1 d1 where d1: "write_packet False u (replicate 131072 0) d ETHERNET_PACKET = Ret (mem1, d1)"
    using write_packet_effect [OF u(1,2) mem pkt(2) refl, of False] u(3,5) pkt(1) by (auto simp: seg_def)
  obtain n2 tq' w2 where x: "TxQueue_produce False hello_X w1 tq [d1] = Ret (n2, tq', w2)"
    using release_produces(2) [of hello_X w1 tq "[d1]"] by blast
  have wake: "TxQueue_wakeup_after hello_L hello_X w2 tq' n2 = (Inr n2, tq', w2)"
    by (cases w2) (simp add: TxQueue_wakeup_after_def TxQueue_needs_wakeup_def traced_libxdp_def)
  obtain rq1 where poll: "RxQueue_poll hello_L w2 rq 100 = (Inr True, rq1, w2)"
    by (cases w2) (simp add: RxQueue_poll_def Fd_poll_read_def PollFd_poll_def ref_libc_def)
  obtain rest where ds1: "ds1 = d # rest" using ds(1,2) by (cases ds1) auto
  let ?x = "\<lparr>xd_addr = 64, xd_len = 42, xd_options = 0\<rparr>"
  have pk: "peek hello_X w2 (rx_raw rq1) (ucast (slice_len ds2)) 0 = (1, 0, rx_raw rq1, w2)"
    and rel: "release hello_X w2 (rx_raw rq1) 1 = (rx_raw rq1, w2)" by simp_all
  have "length ds2 mod 2 ^ 32 \<noteq> 0" "min (length ds2) (unat (1 :: u32)) = 1" using ds(3,4) by (cases ds2; simp)+
  then obtain rq2 where c: "RxQueue_consume False hello_X w2 rq1 ds2 = Ret (1, rx_frame ?x # drop 1 ds2, rq2, w2)"
    using RxQueue_consume_eq [OF pk rel, of False] by simp
  have "Umem_data u hello_received (rx_frame ?x) = Ret (Data ETHERNET_PACKET)"
    by (simp add: Umem_data_def UmemRegion_data_def UmemRegion_data_ptr_def ptr_add_def from_raw_parts_def u(4)
      rx_frame_def Data_new_def hello_received_def seg_def pkt(1))
  then have "hello_exchange False hello_L hello_X (\<lambda>_. hello_received) (k, t) (replicate 131072 0) u ds1 tq u ds2 fq rq
      = Ret (tq', fq', rq2, w2)"
    using f unfolding ds1
    by (simp add: hello_exchange_def index_def d1 prefix_slice_def take_Suc TxQueue_produce_and_wakeup_def x wake
      RxQueue_poll_and_consume_def poll c unwrap_def find_packet_first)
  moreover have "snd w2 = t" using FillQueue_produce_traced [OF f] TxQueue_produce_traced [OF x] by simp
  ultimately show ?thesis by blast
qed

lemma shared_umem_returns:
  assumes i: "Interface_from_str (vd_if_name dev1) = Inr i1" "Interface_from_str (vd_if_name dev2) = Inr i2"
  shows "\<exists>st. shared_umem False hello_L hello_X (\<lambda>_. hello_received) (replicate 131072 0) (fst (program_start 0)) dev1 dev2
      = Ret st \<and> fresh_trace no_resources (calls_made st)"
proof -
  obtain u ds st1 ui where u: "Umem_new False hello_L hello_X (fst (program_start 0)) (UmemConfig_default hello_X) 32 False
      = Ret (Inr (u, ds), st1)" "us_world st1 = (0, [MmapCall 65536 131072, UmemCreateCall 4096 65536])"
    "arc_get (us_umems st1) (um_inner u) = Some ui" "ui_ptr ui = XskUmem 4096"
    "rg_len (um_mem u) = 131072" "fl_mtu (rg_layout (um_mem u)) = 3840"
    "sl_data (fd_lengths (ds ! 0)) = 0" using hello_umem_new by blast
  have wf: "wf_UmemConfig hello_X (UmemConfig_default hello_X)" by (simp add: wf_UmemConfig_def UmemConfig_default_def)
  have d: "wf_region (um_mem u) 32" "length ds = 32" "desc_of (um_mem u) 32 (ds ! 0) 0"
    using Umem_new_frames [OF wf u(1)] by auto
  have ne: "ds \<noteq> []" using d(2) by auto
  obtain tx1 rx1 fq1 cq1 st2 ui2 where s1: "Socket_new False hello_L hello_X st1 (SocketConfig_default hello_X) u i1 0
      = Ret (Inr (tx1, rx1, Some (fq1, cq1)), st2)"
    "us_world st2 = (1, [MmapCall 65536 131072, UmemCreateCall 4096 65536, SocketCreateCall 8192 4096])"
    "arc_get (us_umems st2) (um_inner u) = Some ui2" "ui_ptr ui2 = XskUmem 4096"
    using hello_socket_new [OF u(3,4,2), of "SocketConfig_default hello_X" i1] by auto
  obtain tx2 rx2 fq2 cq2 st3 where s2: "Socket_new False hello_L hello_X st2 (SocketConfig_default hello_X) u i2 0
      = Ret (Inr (tx2, rx2, Some (fq2, cq2)), st3)"
    "us_world st3 = (Suc 1, [MmapCall 65536 131072, UmemCreateCall 4096 65536, SocketCreateCall 8192 4096, SocketCreateCall 8193 4096])"
    (is "_ = (_, ?t)")
    using hello_socket_new [OF s1(3,4,2), of "SocketConfig_default hello_X" i2] by auto
  obtain tq fq rq w where ex: "hello_exchange False hello_L hello_X (\<lambda>_. hello_received) (us_world st3) (replicate 131072 0) u
      (take 16 ds) tx1 u (drop 16 ds) fq2 rx2 = Ret (tq, fq, rq, w)" "snd w = ?t"
    using hello_exchange_returns [OF d(1,3) u(7,5,6), of "take 16 ds" "drop 16 ds" "Suc 1" ?t tx1 fq2 rx2] d(2) ne
    unfolding s2(2) by auto
  let ?hs = "[CompH cq2, FillH fq, RxH rq, TxH tx2] @ fq_and_cq_handles (Some (fq1, cq1)) @ [RxH rx1, TxH tq, UmemH u]"
  let ?last = "drop_locals hello_L hello_X (st3\<lparr>us_world := w\<rparr>) ?hs"
  have run: "shared_umem False hello_L hello_X (\<lambda>_. hello_received) (replicate 131072 0) (fst (program_start 0)) dev1 dev2
      = Ret ?last"
    by (simp add: shared_umem_def u(1) s1(1) s2(1) ex(1) i unwrap_def unwrap_option_def d(2))
  obtain t where t: "calls_made ?last = ?t @ t" "list_all is_release t"
    using drop_locals_releases [of "st3\<lparr>us_world := w\<rparr>" ref_libc hello_lib ?hs] ex(2) by (auto simp: adds_releases_def)
  have "fresh_trace no_resources (calls_made ?last)"
    unfolding t(1) fresh_trace_append using releases_fresh [OF t(2)] by (simp add: no_resources_def)
  with run show ?thesis by blast
qed

lemma hello_programs_release_all_witness:
  "\<exists>st. shared_umem False hello_L hello_X (\<lambda>_. hello_received) (replicate 131072 0) (fst (program_start 0)) ref_veth ref_veth
      = Ret st \<and> opens no_resources (calls_made st) = no_resources"
proof -
  have i: "Interface_from_str (vd_if_name ref_veth) = Inr (Interface [108, 111])" by code_simp
  obtain st where run: "shared_umem False hello_L hello_X (\<lambda>_. hello_received) (replicate 131072 0) (fst (program_start 0))
      ref_veth ref_veth = Ret st" "fresh_trace no_resources (calls_made st)"
    using shared_umem_returns [OF i i] by blast
  from hello_programs_release_all [OF disjI2 [OF run(1)] run(2)] run(1) show ?thesis by blast
qed

end
