(* ===== verification/Xsk_Veth.thy ===== *)
theory Xsk_Veth
  imports Xsk_Example
begin

text \<open>
  The environment of the examples (\<^verbatim>\<open>examples/setup/veth_setup.rs\<close>): a pair of virtual network
  devices is created, configured, used by the example and deleted when its owner goes out of
  scope. The crate \<^verbatim>\<open>rtnetlink\<close> is a parameter. Every operation returns the world it leaves,
  also when it panics.
\<close>

section \<open>Devices\<close>

text \<open>The requests the code sends, over a connection handle; an error is its message.\<close>

record 'w rtnetlink =
  nl_new_connection :: "'w \<Rightarrow> (string + nat) \<times> 'w"
  nl_link_add_veth :: "'w \<Rightarrow> nat \<Rightarrow> u8 list \<Rightarrow> u8 list \<Rightarrow> (string + unit) \<times> 'w"
  nl_link_get :: "'w \<Rightarrow> nat \<Rightarrow> u8 list \<Rightarrow> (string + u32 option) \<times> 'w"
  nl_link_set_up :: "'w \<Rightarrow> nat \<Rightarrow> u32 \<Rightarrow> (string + unit) \<times> 'w"
  nl_link_set_down :: "'w \<Rightarrow> nat \<Rightarrow> u32 \<Rightarrow> (string + unit) \<times> 'w"
  nl_link_set_address :: "'w \<Rightarrow> nat \<Rightarrow> u32 \<Rightarrow> u8 list \<Rightarrow> (string + unit) \<times> 'w"
  nl_address_add :: "'w \<Rightarrow> nat \<Rightarrow> u32 \<Rightarrow> u8 list \<Rightarrow> u8 \<Rightarrow> (string + unit) \<times> 'w"
  nl_link_del :: "'w \<Rightarrow> nat \<Rightarrow> u32 \<Rightarrow> (string + unit) \<times> 'w"

datatype LinkStatus = Up | Down

record VethDev =
  ve_handle :: nat
  ve_index :: u32
  ve_if_name :: "u8 list"

record VethPair =
  vp_dev1 :: VethDev
  vp_dev2 :: VethDev

definition VethDev_set_status :: "'w rtnetlink \<Rightarrow> 'w \<Rightarrow> VethDev \<Rightarrow> LinkStatus \<Rightarrow> (string + unit) \<times> 'w" where
  "VethDev_set_status N w d status = (case status of
     Up \<Rightarrow> nl_link_set_up N w (ve_handle d) (ve_index d)
   | Down \<Rightarrow> nl_link_set_down N w (ve_handle d) (ve_index d))"

definition VethDev_set_addr :: "'w rtnetlink \<Rightarrow> 'w \<Rightarrow> VethDev \<Rightarrow> u8 list \<Rightarrow> (string + unit) \<times> 'w" where
  "VethDev_set_addr N w d addr = nl_link_set_address N w (ve_handle d) (ve_index d) addr"

definition VethDev_set_ip_addr :: "'w rtnetlink \<Rightarrow> 'w \<Rightarrow> VethDev \<Rightarrow> LinkIpAddr \<Rightarrow> (string + unit) \<times> 'w" where
  "VethDev_set_ip_addr N w d ip =
     nl_address_add N w (ve_handle d) (ve_index d) (ip_addr_octets ip) (ip_prefix_len ip)"

text \<open>The operator \<^verbatim>\<open>?\<close> after a request.\<close>

definition try_then :: "(string + 'a) \<times> 'w \<Rightarrow> ('w \<Rightarrow> (string + 'b) \<times> 'w) \<Rightarrow> (string + 'b) \<times> 'w" where
  "try_then m f = (case m of (Inl e, w) \<Rightarrow> (Inl e, w) | (Inr _, w) \<Rightarrow> f w)"

fun set_status_all :: "'w rtnetlink \<Rightarrow> 'w \<Rightarrow> VethDev list \<Rightarrow> LinkStatus \<Rightarrow> (string + unit) \<times> 'w" where
  "set_status_all N w [] status = (Inr (), w)"
| "set_status_all N w (dev # devs) status =
    try_then (VethDev_set_status N w dev status) (\<lambda>w1. set_status_all N w1 devs status)"

definition VethPair_set_status :: "'w rtnetlink \<Rightarrow> 'w \<Rightarrow> VethPair \<Rightarrow> LinkStatus \<Rightarrow> (string + unit) \<times> 'w" where
  "VethPair_set_status N w p status = set_status_all N w [vp_dev1 p, vp_dev2 p] status"

text \<open>Dropping the pair deletes the link of its first device; an error is only printed.\<close>

definition VethPair_drop :: "'w rtnetlink \<Rightarrow> 'w \<Rightarrow> VethPair \<Rightarrow> 'w" where
  "VethPair_drop N w p = snd (nl_link_del N w (ve_handle (vp_dev1 p)) (ve_index (vp_dev1 p)))"

text \<open>What the kernel answers to that request.\<close>

definition VethPair_drop_result :: "'w rtnetlink \<Rightarrow> 'w \<Rightarrow> VethPair \<Rightarrow> string + unit" where
  "VethPair_drop_result N w p = fst (nl_link_del N w (ve_handle (vp_dev1 p)) (ve_index (vp_dev1 p)))"

definition get_link_index :: "'w rtnetlink \<Rightarrow> 'w \<Rightarrow> nat \<Rightarrow> u8 list \<Rightarrow> (string + u32) rust \<times> 'w" where
  "get_link_index N w handle name = (let (r, w1) = nl_link_get N w handle name in (case r of
     Inl e \<Rightarrow> Ret (Inl e)
   | Inr link \<Rightarrow> rbind (unwrap_option link) (\<lambda>index. Ret (Inr index)), w1))"

definition build_veth_pair :: "'w rtnetlink \<Rightarrow> 'w \<Rightarrow> u8 list \<Rightarrow> u8 list \<Rightarrow> (string + VethPair) rust \<times> 'w" where
  "build_veth_pair N w dev1_if_name dev2_if_name = (case nl_new_connection N w of
     (Inl e, w1) \<Rightarrow> (Panic, w1)
   | (Inr handle, w1) \<Rightarrow> (case nl_link_add_veth N w1 handle dev1_if_name dev2_if_name of
       (Inl e, w2) \<Rightarrow> (Ret (Inl e), w2)
     | (Inr _, w2) \<Rightarrow> (let (r1, w3) = get_link_index N w2 handle dev1_if_name in case rbind r1 unwrap of
           Ret dev1_index \<Rightarrow> (let (r2, w4) = get_link_index N w3 handle dev2_if_name in
             (rbind (rbind r2 unwrap) (\<lambda>dev2_index. Ret (Inr
               \<lparr>vp_dev1 = \<lparr>ve_handle = handle, ve_index = dev1_index, ve_if_name = dev1_if_name\<rparr>,
                vp_dev2 = \<lparr>ve_handle = handle, ve_index = dev2_index, ve_if_name = dev2_if_name\<rparr>\<rparr>)), w4))
         | Panic \<Rightarrow> (Panic, w3) | UB \<Rightarrow> (UB, w3))))"

text \<open>
  Configuring the pair and running the example on it; \<open>f\<close> gives the result of joining the
  blocking task that runs the example, where a panic in the task is an error.
\<close>

definition run_on_pair :: "'w rtnetlink \<Rightarrow> (VethDevConfig \<times> PacketGenerator \<Rightarrow> VethDevConfig \<times> PacketGenerator
    \<Rightarrow> 'w \<Rightarrow> (string + 't) \<times> 'w) \<Rightarrow> 'w \<Rightarrow> VethPair \<Rightarrow> VethDevConfig \<Rightarrow> VethDevConfig
    \<Rightarrow> (string + 't) \<times> 'w" where
  "run_on_pair N f w p dev1_config dev2_config =
    try_then (VethPair_set_status N w p Up) (\<lambda>w1.
    try_then (VethDev_set_addr N w1 (vp_dev1 p) (vd_addr dev1_config)) (\<lambda>w2.
    try_then (VethDev_set_addr N w2 (vp_dev2 p) (vd_addr dev2_config)) (\<lambda>w3.
    try_then (VethDev_set_ip_addr N w3 (vp_dev1 p) (vd_ip_addr dev1_config)) (\<lambda>w4.
    try_then (VethDev_set_ip_addr N w4 (vp_dev2 p) (vd_ip_addr dev2_config)) (\<lambda>w5.
      let dev1_pkt_gen = PacketGenerator_new dev1_config dev2_config;
          dev2_pkt_gen = PacketGenerator_into_swapped dev1_pkt_gen;
          (res, w6) = f (dev1_config, dev1_pkt_gen) (dev2_config, dev2_pkt_gen) w5
      in try_then (VethPair_set_status N w6 p Down) (\<lambda>w7. (res, w7)))))))"

text \<open>The pair is dropped on every way out.\<close>

definition run_with_veth_pair :: "'w rtnetlink \<Rightarrow> (VethDevConfig \<times> PacketGenerator \<Rightarrow> VethDevConfig \<times> PacketGenerator
    \<Rightarrow> 'w \<Rightarrow> (string + 't) \<times> 'w) \<Rightarrow> 'w \<Rightarrow> VethDevConfig \<Rightarrow> VethDevConfig
    \<Rightarrow> (string + 't) rust \<times> 'w" where
  "run_with_veth_pair N f w dev1_config dev2_config =
    (case build_veth_pair N w (vd_if_name dev1_config) (vd_if_name dev2_config) of
       (Ret (Inr p), w1) \<Rightarrow> (let (r, w2) = run_on_pair N f w1 p dev1_config dev2_config
         in (Ret r, VethPair_drop N w2 p))
     | (Ret (Inl e), w1) \<Rightarrow> (Panic, w1)
     | (Panic, w1) \<Rightarrow> (Panic, w1)
     | (UB, w1) \<Rightarrow> (UB, w1))"

text \<open>
  The answer the run gets to its one request to delete: none when there is no pair to delete.
\<close>

definition veth_deletion :: "'w rtnetlink \<Rightarrow> (VethDevConfig \<times> PacketGenerator \<Rightarrow> VethDevConfig \<times> PacketGenerator
    \<Rightarrow> 'w \<Rightarrow> (string + 't) \<times> 'w) \<Rightarrow> 'w \<Rightarrow> VethDevConfig \<Rightarrow> VethDevConfig \<Rightarrow> (string + unit) option" where
  "veth_deletion N f w dev1_config dev2_config =
    (case build_veth_pair N w (vd_if_name dev1_config) (vd_if_name dev2_config) of
       (Ret (Inr p), w1) \<Rightarrow> Some (VethPair_drop_result N (snd (run_on_pair N f w1 p dev1_config dev2_config)) p)
     | _ \<Rightarrow> None)"

text \<open>The pair is there and was not before.\<close>

type_synonym veth_pairs = "((u8 list \<times> u32) \<times> (u8 list \<times> u32)) set"

definition left_behind :: "VethDevConfig \<Rightarrow> VethDevConfig \<Rightarrow> veth_pairs \<Rightarrow> veth_pairs \<Rightarrow> bool" where
  "left_behind c1 c2 P P' \<longleftrightarrow> (\<exists>i1 i2. ((vd_if_name c1, i1), (vd_if_name c2, i2)) \<notin> P
     \<and> P' = insert ((vd_if_name c1, i1), (vd_if_name c2, i2)) P)"

section \<open>Over a network that keeps its links\<close>

text \<open>
  The contract of the requests: \<open>pairs\<close> are the pairs of devices that exist, each device with
  its name and index. Adding makes one, deleting the index of a device removes its pair, a
  lookup by name gives the index, and nothing else changes them; nor does a refused request.
\<close>

locale veth_net =
  fixes N :: "'w rtnetlink"
    and pairs :: "'w \<Rightarrow> ((u8 list \<times> u32) \<times> (u8 list \<times> u32)) set"
  assumes connection_keeps: "pairs (snd (nl_new_connection N w)) = pairs w"
    and add_ok: "nl_link_add_veth N w h n1 n2 = (Inr (), w') \<Longrightarrow>
      \<exists>i1 i2. ((n1, i1), (n2, i2)) \<notin> pairs w \<and> pairs w' = insert ((n1, i1), (n2, i2)) (pairs w)"
    and add_error: "nl_link_add_veth N w h n1 n2 = (Inl e, w') \<Longrightarrow> pairs w' = pairs w"
    and get_keeps: "pairs (snd (nl_link_get N w h n)) = pairs w"
    and get_index: "((n, i), q) \<in> pairs w \<Longrightarrow> nl_link_get N w h n = (Inr (Some j), w') \<Longrightarrow> j = i"
    and set_keeps: "pairs (snd (nl_link_set_up N w h i)) = pairs w"
      "pairs (snd (nl_link_set_down N w h i)) = pairs w"
      "pairs (snd (nl_link_set_address N w h i a)) = pairs w"
      "pairs (snd (nl_address_add N w h i ip k)) = pairs w"
    and del_ok: "((n, i), q) \<in> pairs w \<Longrightarrow> nl_link_del N w h i = (Inr (), w') \<Longrightarrow>
      pairs w' = pairs w - {((n, i), q)}"
    and del_error: "nl_link_del N w h i = (Inl e, w') \<Longrightarrow> pairs w' = pairs w"
begin

text \<open>An operation that leaves the pairs \<open>P\<close>, whatever it returns.\<close>

definition leaves :: "((u8 list \<times> u32) \<times> (u8 list \<times> u32)) set \<Rightarrow> 'r \<times> 'w \<Rightarrow> bool" where
  "leaves P m \<longleftrightarrow> pairs (snd m) = P"

lemma leaves_case [intro!]:
  "leaves P m \<Longrightarrow> (\<And>r w. pairs w = P \<Longrightarrow> leaves P (f r w)) \<Longrightarrow> leaves P (case m of (r, w) \<Rightarrow> f r w)"
  by (cases m) (simp add: leaves_def)

lemma leaves_try [intro!]:
  "leaves P m \<Longrightarrow> (\<And>w. pairs w = P \<Longrightarrow> leaves P (f w)) \<Longrightarrow> leaves P (try_then m f)"
  by (cases m) (simp add: leaves_def try_then_def split: sum.split)

lemma leaves_pair [simp]: "leaves P (r, w) \<longleftrightarrow> pairs w = P"
  by (simp add: leaves_def)

lemma leaves_requests [simp]:
  "leaves P (nl_new_connection N w) \<longleftrightarrow> pairs w = P" "leaves P (nl_link_get N w h n) \<longleftrightarrow> pairs w = P"
  "leaves P (VethDev_set_status N w d s) \<longleftrightarrow> pairs w = P" "leaves P (VethDev_set_addr N w d a) \<longleftrightarrow> pairs w = P"
  "leaves P (VethDev_set_ip_addr N w d ip) \<longleftrightarrow> pairs w = P"
  by (simp_all add: leaves_def connection_keeps get_keeps set_keeps VethDev_set_status_def VethDev_set_addr_def
    VethDev_set_ip_addr_def split: LinkStatus.split)

lemma leaves_set_status [simp]: "pairs w = P \<Longrightarrow> leaves P (VethPair_set_status N w p s)"
  by (auto simp: VethPair_set_status_def)

lemma leaves_link_index [simp]: "pairs w = P \<Longrightarrow> leaves P (get_link_index N w h n)"
  by (auto simp: get_link_index_def)

lemma leaves_run_on_pair:
  assumes "\<And>d1 d2 w. pairs w = P \<Longrightarrow> leaves P (f d1 d2 w)" and "pairs w = P"
  shows "leaves P (run_on_pair N f w p c1 c2)"
  using assms by (auto simp: run_on_pair_def Let_def)

text \<open>Building the pair: what exists afterwards, and which device the pair's first index is.\<close>

lemma build_cases:
  assumes "build_veth_pair N w n1 n2 = (r, w')"
  obtains (nothing) "pairs w' = pairs w" "r = Panic \<or> (\<exists>e. r = Ret (Inl e))"
  | (made) i1 i2 p where "((n1, i1), (n2, i2)) \<notin> pairs w" "pairs w' = insert ((n1, i1), (n2, i2)) (pairs w)"
      "r = Panic \<or> (r = Ret (Inr p) \<and> ve_index (vp_dev1 p) = i1)"
proof -
  obtain c w1 where conn: "nl_new_connection N w = (c, w1)" by (rule prod.exhaust)
  have w1: "pairs w1 = pairs w" using connection_keeps [of w] by (simp add: conn)
  show ?thesis
  proof (cases c)
    case (Inl e)
    with assms conn have "r = Panic" "w' = w1" by (simp_all add: build_veth_pair_def)
    then have "pairs w' = pairs w" "r = Panic \<or> (\<exists>e. r = Ret (Inl e))" using w1 by simp_all
    then show ?thesis by (rule nothing)
  next
    case (Inr h)
    obtain a w2 where add: "nl_link_add_veth N w1 h n1 n2 = (a, w2)" by (rule prod.exhaust)
    show ?thesis
    proof (cases a)
      case Err: (Inl e)
      with add_error add w1 have "pairs w2 = pairs w" by simp
      moreover have "r = Ret (Inl e)" "w' = w2" using assms conn Inr add Err by (simp_all add: build_veth_pair_def)
      ultimately have "pairs w' = pairs w" "r = Panic \<or> (\<exists>e. r = Ret (Inl e))" by simp_all
      then show ?thesis by (rule nothing)
    next
      case Ok: (Inr u)
      with add_ok [of w1 h n1 n2 w2] add w1 obtain i1 i2 where new: "((n1, i1), (n2, i2)) \<notin> pairs w"
        and w2: "pairs w2 = insert ((n1, i1), (n2, i2)) (pairs w)" by auto
      obtain g1 w3 where g1: "get_link_index N w2 h n1 = (g1, w3)" by (rule prod.exhaust)
      obtain g2 w4 where g2: "get_link_index N w3 h n2 = (g2, w4)" by (rule prod.exhaust)
      have keep: "pairs w3 = pairs w2" "pairs w4 = pairs w2"
        using leaves_link_index [OF refl, of w2 h n1] leaves_link_index [OF refl, of w3 h n2] by (simp_all add: g1 g2)
      have got: "rbind g unwrap = Panic \<or> (\<exists>j. g = Ret (Inr j))" if "get_link_index N v h n = (g, v')" for v n g v'
        using that by (auto simp: get_link_index_def unwrap_option_def unwrap_def split: prod.splits sum.splits option.splits)
      have idx: "j = i1" if "g1 = Ret (Inr j)" for j
        using g1 that get_index [of n1 i1 "(n2, i2)" w2 h j] w2
        by (auto simp: get_link_index_def unwrap_option_def split: prod.splits sum.splits option.splits)
      have w': "pairs w' = insert ((n1, i1), (n2, i2)) (pairs w)"
        and r: "r = Panic \<or> (\<exists>p. r = Ret (Inr p) \<and> ve_index (vp_dev1 p) = i1)"
        using assms conn Inr add Ok g1 g2 keep w2 idx got [OF g1] got [OF g2]
        by (auto simp: build_veth_pair_def unwrap_def)
      from r obtain p where "r = Panic \<or> (r = Ret (Inr p) \<and> ve_index (vp_dev1 p) = i1)" by blast
      with new w' show ?thesis by (rule made)
    qed
  qed
qed

text \<open>Deleting the pair: it is gone, or nothing has changed.\<close>

lemma drop_pair:
  assumes "pairs w = insert ((n1, ve_index (vp_dev1 p)), q) P" and "((n1, ve_index (vp_dev1 p)), q) \<notin> P"
  shows "pairs (VethPair_drop N w p) = (case VethPair_drop_result N w p of Inl e \<Rightarrow> pairs w | Inr _ \<Rightarrow> P)"
proof -
  obtain d w' where del: "nl_link_del N w (ve_handle (vp_dev1 p)) (ve_index (vp_dev1 p)) = (d, w')" by (rule prod.exhaust)
  show ?thesis
  proof (cases d)
    case (Inl e)
    with del_error del show ?thesis by (simp add: VethPair_drop_def VethPair_drop_result_def)
  next
    case (Inr u)
    with del have "pairs w' = pairs w - {((n1, ve_index (vp_dev1 p)), q)}" using assms(1) by (intro del_ok) auto
    with del Inr assms show ?thesis by (simp add: VethPair_drop_def VethPair_drop_result_def)
  qed
qed

lemma run_removes:
  assumes f: "\<And>d1 d2 w. pairs (snd (f d1 d2 w)) = pairs w"
    and run: "run_with_veth_pair N f w c1 c2 = (r, w')"
  shows "case veth_deletion N f w c1 c2 of
      None \<Rightarrow> r = Panic \<and> (pairs w' = pairs w \<or> left_behind c1 c2 (pairs w) (pairs w'))
    | Some (Inr _) \<Rightarrow> (\<exists>v. r = Ret v) \<and> pairs w' = pairs w
    | Some (Inl e) \<Rightarrow> (\<exists>v. r = Ret v) \<and> left_behind c1 c2 (pairs w) (pairs w')"
proof -
  obtain b w1 where b: "build_veth_pair N w (vd_if_name c1) (vd_if_name c2) = (b, w1)" by (rule prod.exhaust)
  then show ?thesis
  proof (cases rule: build_cases)
    case nothing
    with run b show ?thesis by (auto simp: run_with_veth_pair_def veth_deletion_def)
  next
    case (made i1 i2 p)
    let ?q = "(vd_if_name c2, i2)"
    have left: "left_behind c1 c2 (pairs w) (pairs w1)" using made(1,2) by (auto simp: left_behind_def)
    from made(3) consider "b = Panic" | "b = Ret (Inr p)" "ve_index (vp_dev1 p) = i1" by blast
    then show ?thesis
    proof cases
      case 1
      with run b left show ?thesis by (auto simp: run_with_veth_pair_def veth_deletion_def)
    next
      case 2
      obtain r2 w2 where on: "run_on_pair N f w1 p c1 c2 = (r2, w2)" by (rule prod.exhaust)
      have w2: "pairs w2 = pairs w1"
        using leaves_run_on_pair [of "pairs w1" f w1 p c1 c2] f by (simp add: on leaves_def)
      have "pairs (VethPair_drop N w2 p) = (case VethPair_drop_result N w2 p of Inl e \<Rightarrow> pairs w2 | Inr _ \<Rightarrow> pairs w)"
        using made(1,2) w2 2(2) by (intro drop_pair [where q = ?q]) simp_all
      moreover have "w' = VethPair_drop N w2 p" using run b 2(1) on by (simp add: run_with_veth_pair_def)
      moreover have "r = Ret r2" "veth_deletion N f w c1 c2 = Some (VethPair_drop_result N w2 p)"
        using run b 2(1) on by (auto simp: run_with_veth_pair_def veth_deletion_def)
      ultimately show ?thesis using left w2 by (simp split: sum.split)
    qed
  qed
qed

end

section \<open>Properties\<close>

text \<open>
  C29: the devices do not outlive the run. Once the pair of devices is made the run returns, with a
  value or with an error from any of its requests or from the example itself, and asks the
  kernel to delete the pair, once: if that is granted the pair is gone, if it is refused the pair
  is there and nothing else. Without a pair to delete the run panics; then nothing was made, or
  the indices of the devices could not be found and the pair stays. Assumed is the contract of
  the requests and that the example makes no such devices itself.
\<close>

theorem run_with_veth_pair_cleans_up:
  assumes "veth_net N pairs" and "\<And>d1 d2 w. pairs (snd (f d1 d2 w)) = pairs w"
    and "run_with_veth_pair N f w c1 c2 = (r, w')"
  shows "case veth_deletion N f w c1 c2 of
      None \<Rightarrow> r = Panic \<and> (pairs w' = pairs w \<or> left_behind c1 c2 (pairs w) (pairs w'))
    | Some (Inr _) \<Rightarrow> (\<exists>v. r = Ret v) \<and> pairs w' = pairs w
    | Some (Inl e) \<Rightarrow> (\<exists>v. r = Ret v) \<and> left_behind c1 c2 (pairs w) (pairs w')"
  using assms by (rule veth_net.run_removes)

text \<open>A network with room for one pair, whose devices have the indices 1 and 2.\<close>

type_synonym ref_net = "(u8 list \<times> u8 list) option"

definition ref_pairs :: "ref_net \<Rightarrow> ((u8 list \<times> u32) \<times> (u8 list \<times> u32)) set" where
  "ref_pairs w = (case w of None \<Rightarrow> {} | Some (n1, n2) \<Rightarrow> {((n1, 1), (n2, 2))})"

definition ref_netlink :: "ref_net rtnetlink" where
  "ref_netlink = \<lparr>nl_new_connection = (\<lambda>w. (Inr 0, w)),
     nl_link_add_veth = (\<lambda>w h n1 n2. if w = None \<and> n1 \<noteq> n2 then (Inr (), Some (n1, n2)) else (Inl ''exists'', w)),
     nl_link_get = (\<lambda>w h n. (Inr (case w of None \<Rightarrow> None | Some (n1, n2) \<Rightarrow>
       if n = n1 then Some 1 else if n = n2 then Some 2 else None), w)),
     nl_link_set_up = (\<lambda>w h i. (if w = None then Inl ''no device'' else Inr (), w)),
     nl_link_set_down = (\<lambda>w h i. (if w = None then Inl ''no device'' else Inr (), w)),
     nl_link_set_address = (\<lambda>w h i a. (if w = None then Inl ''no device'' else Inr (), w)),
     nl_address_add = (\<lambda>w h i ip k. (if w = None then Inl ''no device'' else Inr (), w)),
     nl_link_del = (\<lambda>w h i. if w \<noteq> None \<and> i \<in> {1, 2} then (Inr (), None) else (Inl ''no device'', w))\<rparr>"

interpretation ref_net: veth_net ref_netlink ref_pairs
  by unfold_locales (auto simp: ref_netlink_def ref_pairs_def split: option.splits if_splits)

definition ref_dev :: "u8 \<Rightarrow> VethDevConfig" where
  "ref_dev b = \<lparr>vd_if_name = [b], vd_addr = [b], vd_ip_addr = \<lparr>ip_addr_octets = [b], ip_prefix_len = 24\<rparr>\<rparr>"

text \<open>An example that fails: the pair is deleted nevertheless.\<close>

definition failing_task :: "VethDevConfig \<times> PacketGenerator \<Rightarrow> VethDevConfig \<times> PacketGenerator \<Rightarrow> ref_net
    \<Rightarrow> (string + unit) \<times> ref_net" where
  "failing_task d1 d2 w = (Inl ''failed'', w)"

lemma failing_run:
  "fst (run_with_veth_pair ref_netlink failing_task None (ref_dev 1) (ref_dev 2)) = Ret (Inl ''failed'')"
  "veth_deletion ref_netlink failing_task None (ref_dev 1) (ref_dev 2) = Some (Inr ())"
  by code_simp+

theorem run_with_veth_pair_cleans_up_witness:
  "\<exists>w'. run_with_veth_pair ref_netlink failing_task None (ref_dev 1) (ref_dev 2) = (Ret (Inl ''failed''), w')
    \<and> ref_pairs w' = {}"
proof -
  obtain w' where run: "run_with_veth_pair ref_netlink failing_task None (ref_dev 1) (ref_dev 2)
      = (Ret (Inl ''failed''), w')"
    using failing_run(1) by (auto simp: prod_eq_iff)
  from run_with_veth_pair_cleans_up [OF ref_net.veth_net_axioms _ run] have "ref_pairs w' = ref_pairs None"
    by (simp add: failing_task_def failing_run(2))
  with run show ?thesis by (simp add: ref_pairs_def)
qed

end
