(* ===== verification/Xsk_Main.thy ===== *)
theory Xsk_Main
  imports Xsk_Hello_Release Xsk_Veth Xsk_Example
begin

text \<open>
  \<^verbatim>\<open>main\<close> of the examples. All three are the same program: catch ctrl+c, run the example on a
  pair of virtual devices in a thread of its own, wait for it to finish or for ctrl+c, and in
  either case join the thread before returning, so that the devices are cleaned up. The example
  itself is a transition system, which need not come to an end.
\<close>

section \<open>The run on the devices, in parts\<close>

text \<open>What \<^verbatim>\<open>run_with_veth_pair\<close> does with the pair before it runs the example.\<close>

definition bring_up :: "'w rtnetlink \<Rightarrow> 'w \<Rightarrow> VethPair \<Rightarrow> VethDevConfig \<Rightarrow> VethDevConfig \<Rightarrow> (string + unit) \<times> 'w" where
  "bring_up N w p dev1_config dev2_config =
    try_then (VethPair_set_status N w p Up) (\<lambda>w1.
    try_then (VethDev_set_addr N w1 (vp_dev1 p) (vd_addr dev1_config)) (\<lambda>w2.
    try_then (VethDev_set_addr N w2 (vp_dev2 p) (vd_addr dev2_config)) (\<lambda>w3.
    try_then (VethDev_set_ip_addr N w3 (vp_dev1 p) (vd_ip_addr dev1_config)) (\<lambda>w4.
    VethDev_set_ip_addr N w4 (vp_dev2 p) (vd_ip_addr dev2_config)))))"

definition dev_pair :: "VethDevConfig \<Rightarrow> VethDevConfig \<Rightarrow> (VethDevConfig \<times> PacketGenerator) \<times> (VethDevConfig \<times> PacketGenerator)" where
  "dev_pair dev1_config dev2_config = (let dev1_pkt_gen = PacketGenerator_new dev1_config dev2_config in
     ((dev1_config, dev1_pkt_gen), (dev2_config, PacketGenerator_into_swapped dev1_pkt_gen)))"

lemma try_then_assoc: "try_then (try_then m f) g = try_then m (\<lambda>w. try_then (f w) g)"
  by (auto simp: try_then_def split: prod.split sum.split)

lemma run_on_pair_parts:
  "run_on_pair N f w p c1 c2 = try_then (bring_up N w p c1 c2) (\<lambda>w5.
     let (res, w6) = f (fst (dev_pair c1 c2)) (snd (dev_pair c1 c2)) w5
     in try_then (VethPair_set_status N w6 p Down) (\<lambda>w7. (res, w7)))"
  by (simp add: run_on_pair_def bring_up_def try_then_assoc dev_pair_def Let_def)

section \<open>The program\<close>

text \<open>The crates \<^verbatim>\<open>ctrlc\<close> and \<^verbatim>\<open>tokio\<close>: installing a handler, making a runtime.\<close>

record 'w platform =
  set_handler :: "'w \<Rightarrow> (string + unit) \<times> 'w"
  new_runtime :: "'w \<Rightarrow> (string + unit) \<times> 'w"

definition ctrl_channel :: "'w platform \<Rightarrow> 'w \<Rightarrow> (string + unit) \<times> 'w" where
  "ctrl_channel PL w = set_handler PL w"

text \<open>
  The blocking task that runs the example: where it starts, its steps over the world, and the
  result of joining it, when it has one.
\<close>

record ('w, 't, 'v) blocking_task =
  tk_start :: "VethDevConfig \<times> PacketGenerator \<Rightarrow> VethDevConfig \<times> PacketGenerator \<Rightarrow> 't"
  tk_step :: "'t \<times> 'w \<Rightarrow> 't \<times> 'w \<Rightarrow> bool"
  tk_result :: "'t \<Rightarrow> (string + 'v) option"

text \<open>
  The thread of the example: before it has made the devices, with the task running on them, with
  a result it has yet to announce on the channel \<^verbatim>\<open>complete_tx\<close>, with a result announced, or
  ended. The outcome of an ended thread is its result, or that it panicked.
\<close>

datatype ('r, 't) example_thread =
  ExStart | ExTask VethPair 't | ExResult 'r | ExAnnounced 'r | ExEnded "'r rust"

text \<open>The main thread: waiting for one of the two channels, joining, or at its end.\<close>

datatype main_pc = MainSelect | MainJoin | MainReturned | MainPanicked

text \<open>
  \<open>mn_deletion\<close> is the answer to the request that deletes the devices, once it was made.
  \<open>mn_complete\<close> and \<open>mn_ctrl\<close> say that receiving from the channel would not block: there is a
  message, or, for the first, the sender is gone. \<open>mn_printed\<close> says that the signal was reported.
\<close>

record ('w, 'r, 't) main_state =
  mn_world :: 'w
  mn_example :: "('r, 't) example_thread"
  mn_deletion :: "(string + unit) option"
  mn_complete :: bool
  mn_ctrl :: bool
  mn_pc :: main_pc
  mn_printed :: bool

definition main_start :: "'w platform \<Rightarrow> 'w \<Rightarrow> ('w, 'r, 't) main_state rust" where
  "main_start PL w = (let (ctrl_c_events, w1) = ctrl_channel PL w in
     rbind (unwrap ctrl_c_events) (\<lambda>_. let (runtime, w2) = new_runtime PL w1 in
     rbind (unwrap runtime) (\<lambda>_.
       Ret \<lparr>mn_world = w2, mn_example = ExStart, mn_deletion = None, mn_complete = False, mn_ctrl = False,
            mn_pc = MainSelect, mn_printed = False\<rparr>)))"

text \<open>
  The steps the program makes itself. Making and configuring the devices is one step, and so is
  deleting them, which follows every end of the task and every refused request.
\<close>

inductive main_step :: "'w rtnetlink \<Rightarrow> ('w, 't, 'v) blocking_task \<Rightarrow> VethDevConfig \<Rightarrow> VethDevConfig
    \<Rightarrow> ('w, string + 'v, 't) main_state \<Rightarrow> ('w, string + 'v, 't) main_state \<Rightarrow> bool"
  for N T dev1_config dev2_config where
  no_pair: "mn_example s = ExStart \<Longrightarrow>
    build_veth_pair N (mn_world s) (vd_if_name dev1_config) (vd_if_name dev2_config) = (r, w) \<Longrightarrow>
    r = Panic \<or> r = Ret (Inl e) \<Longrightarrow>
    main_step N T dev1_config dev2_config s (s\<lparr>mn_world := w, mn_example := ExEnded Panic, mn_complete := True\<rparr>)"
| pair_not_up: "mn_example s = ExStart \<Longrightarrow>
    build_veth_pair N (mn_world s) (vd_if_name dev1_config) (vd_if_name dev2_config) = (Ret (Inr p), w1) \<Longrightarrow>
    bring_up N w1 p dev1_config dev2_config = (Inl e, w2) \<Longrightarrow>
    main_step N T dev1_config dev2_config s (s\<lparr>mn_world := VethPair_drop N w2 p, mn_example := ExResult (Inl e),
      mn_deletion := Some (VethPair_drop_result N w2 p)\<rparr>)"
| task_starts: "mn_example s = ExStart \<Longrightarrow>
    build_veth_pair N (mn_world s) (vd_if_name dev1_config) (vd_if_name dev2_config) = (Ret (Inr p), w1) \<Longrightarrow>
    bring_up N w1 p dev1_config dev2_config = (Inr (), w2) \<Longrightarrow>
    dev_pair dev1_config dev2_config = (dev1, dev2) \<Longrightarrow>
    main_step N T dev1_config dev2_config s (s\<lparr>mn_world := w2, mn_example := ExTask p (tk_start T dev1 dev2)\<rparr>)"
| task_turn: "mn_example s = ExTask p t \<Longrightarrow> tk_step T (t, mn_world s) (t', w) \<Longrightarrow>
    main_step N T dev1_config dev2_config s (s\<lparr>mn_world := w, mn_example := ExTask p t'\<rparr>)"
| task_ends: "mn_example s = ExTask p t \<Longrightarrow> tk_result T t = Some res \<Longrightarrow>
    VethPair_set_status N (mn_world s) p Down = (d, w) \<Longrightarrow>
    main_step N T dev1_config dev2_config s (s\<lparr>mn_world := VethPair_drop N w p,
      mn_example := ExResult (case d of Inl e \<Rightarrow> Inl e | Inr _ \<Rightarrow> res),
      mn_deletion := Some (VethPair_drop_result N w p)\<rparr>)"
| announce: "mn_example s = ExResult res \<Longrightarrow>
    main_step N T dev1_config dev2_config s (s\<lparr>mn_example := ExAnnounced res, mn_complete := True\<rparr>)"
| example_ends: "mn_example s = ExAnnounced res \<Longrightarrow>
    main_step N T dev1_config dev2_config s (s\<lparr>mn_example := ExEnded (Ret res), mn_complete := True\<rparr>)"
| select_complete: "mn_pc s = MainSelect \<Longrightarrow> mn_complete s \<Longrightarrow>
    main_step N T dev1_config dev2_config s (s\<lparr>mn_pc := MainJoin\<rparr>)"
| select_ctrl_c: "mn_pc s = MainSelect \<Longrightarrow> mn_ctrl s \<Longrightarrow>
    main_step N T dev1_config dev2_config s (s\<lparr>mn_pc := MainJoin, mn_ctrl := False, mn_printed := True\<rparr>)"
| join: "mn_pc s = MainJoin \<Longrightarrow> mn_example s = ExEnded out \<Longrightarrow>
    main_step N T dev1_config dev2_config s
      (s\<lparr>mn_pc := (case out of Ret (Inr _) \<Rightarrow> MainReturned | _ \<Rightarrow> MainPanicked)\<rparr>)"

text \<open>
  A signal is not a step of the program: it may come, or not, between any two. The channel of the
  handler holds one message; the handler waits when that is full.
\<close>

definition ctrl_c :: "('w, 'r, 't) main_state \<Rightarrow> ('w, 'r, 't) main_state \<Rightarrow> bool" where
  "ctrl_c s s' \<longleftrightarrow> \<not> mn_ctrl s \<and> s' = s\<lparr>mn_ctrl := True\<rparr>"

definition main_run :: "'w rtnetlink \<Rightarrow> ('w, 't, 'v) blocking_task \<Rightarrow> VethDevConfig \<Rightarrow> VethDevConfig
    \<Rightarrow> ('w, string + 'v, 't) main_state \<Rightarrow> ('w, string + 'v, 't) main_state \<Rightarrow> bool" where
  "main_run N T dev1_config dev2_config s s' \<longleftrightarrow> main_step N T dev1_config dev2_config s s' \<or> ctrl_c s s'"

section \<open>The three examples\<close>

definition dev1_config :: VethDevConfig where
  "dev1_config = \<lparr>vd_if_name = [0x78, 0x73, 0x6b, 0x5f, 0x74, 0x65, 0x73, 0x74, 0x5f, 0x64, 0x65, 0x76, 0x31],
     vd_addr = [0xf6, 0xe0, 0xf6, 0xc9, 0x60, 0x0a],
     vd_ip_addr = \<lparr>ip_addr_octets = [192, 168, 69, 1], ip_prefix_len = 24\<rparr>\<rparr>"

definition dev2_config :: VethDevConfig where
  "dev2_config = \<lparr>vd_if_name = [0x78, 0x73, 0x6b, 0x5f, 0x74, 0x65, 0x73, 0x74, 0x5f, 0x64, 0x65, 0x76, 0x32],
     vd_addr = [0x4a, 0xf1, 0x30, 0xeb, 0x0d, 0x31],
     vd_ip_addr = \<lparr>ip_addr_octets = [192, 168, 69, 1], ip_prefix_len = 24\<rparr>\<rparr>"

text \<open>
  \<^verbatim>\<open>hello_xdp\<close> and \<^verbatim>\<open>shared_umem\<close> have no loop that waits, so each is one step of its task. A panic is
  an error of the task; \<open>unwound\<close> is what its unwinding leaves, which is not modelled. Undefined
  behaviour has no step: nothing is said of what follows it. The network requests see the world
  inside the store.
\<close>

datatype hello_task = HelloRuns VethDevConfig VethDevConfig | HelloDone | HelloPanicked

fun task_step :: "('s \<Rightarrow> 's) \<Rightarrow> (VethDevConfig \<Rightarrow> VethDevConfig \<Rightarrow> 's \<Rightarrow> 's rust)
    \<Rightarrow> hello_task \<times> 's \<Rightarrow> hello_task \<times> 's \<Rightarrow> bool" where
  "task_step unwound run (HelloRuns dev1 dev2, st) x = (case run dev1 dev2 st of
     Ret st' \<Rightarrow> x = (HelloDone, st') | Panic \<Rightarrow> x = (HelloPanicked, unwound st) | UB \<Rightarrow> False)"
| "task_step unwound run _ x = False"

definition task_of :: "('s \<Rightarrow> 's) \<Rightarrow> (VethDevConfig \<Rightarrow> VethDevConfig \<Rightarrow> 's \<Rightarrow> 's rust)
    \<Rightarrow> ('s, hello_task, unit) blocking_task" where
  "task_of unwound run = \<lparr>tk_start = (\<lambda>dev1 dev2. HelloRuns (fst dev1) (fst dev2)), tk_step = task_step unwound run,
     tk_result = (\<lambda>t. case t of HelloRuns _ _ \<Rightarrow> None | HelloDone \<Rightarrow> Some (Inr ())
       | HelloPanicked \<Rightarrow> Some (Inl ''task panicked''))\<rparr>"

definition in_store :: "('w \<Rightarrow> 'a \<times> 'w) \<Rightarrow> 'w traced socket_store \<Rightarrow> 'a \<times> 'w traced socket_store" where
  "in_store op st = (let (r, w) = op (fst (us_world st)) in (r, st\<lparr>us_world := (w, calls_made st)\<rparr>))"

definition store_net :: "'w rtnetlink \<Rightarrow> 'w traced socket_store rtnetlink" where
  "store_net N = \<lparr>nl_new_connection = in_store (nl_new_connection N),
     nl_link_add_veth = (\<lambda>st h n1 n2. in_store (\<lambda>w. nl_link_add_veth N w h n1 n2) st),
     nl_link_get = (\<lambda>st h n. in_store (\<lambda>w. nl_link_get N w h n) st),
     nl_link_set_up = (\<lambda>st h i. in_store (\<lambda>w. nl_link_set_up N w h i) st),
     nl_link_set_down = (\<lambda>st h i. in_store (\<lambda>w. nl_link_set_down N w h i) st),
     nl_link_set_address = (\<lambda>st h i a. in_store (\<lambda>w. nl_link_set_address N w h i a) st),
     nl_address_add = (\<lambda>st h i ip k. in_store (\<lambda>w. nl_address_add N w h i ip k) st),
     nl_link_del = (\<lambda>st h i. in_store (\<lambda>w. nl_link_del N w h i) st)\<rparr>"

definition store_platform :: "'w platform \<Rightarrow> 'w traced socket_store platform" where
  "store_platform PL = \<lparr>set_handler = in_store (set_handler PL), new_runtime = in_store (new_runtime PL)\<rparr>"

definition hello_main_step :: "bool \<Rightarrow> 'w libc \<Rightarrow> 'w libxdp \<Rightarrow> 'w rtnetlink \<Rightarrow> ('w traced \<Rightarrow> u8 list) \<Rightarrow> u8 list
    \<Rightarrow> ('w traced socket_store \<Rightarrow> 'w traced socket_store)
    \<Rightarrow> ('w traced socket_store, string + unit, hello_task) main_state
    \<Rightarrow> ('w traced socket_store, string + unit, hello_task) main_state \<Rightarrow> bool" where
  "hello_main_step oc L X N rx_mem tx_mem unwound = main_run (store_net N)
     (task_of unwound (\<lambda>dev1 dev2 st. hello_xdp oc (traced_libc L) (traced_libxdp X) rx_mem tx_mem st dev1 dev2))
     dev1_config dev2_config"

definition shared_main_step :: "bool \<Rightarrow> 'w libc \<Rightarrow> 'w libxdp \<Rightarrow> 'w rtnetlink \<Rightarrow> ('w traced \<Rightarrow> u8 list) \<Rightarrow> u8 list
    \<Rightarrow> ('w traced socket_store \<Rightarrow> 'w traced socket_store)
    \<Rightarrow> ('w traced socket_store, string + unit, hello_task) main_state
    \<Rightarrow> ('w traced socket_store, string + unit, hello_task) main_state \<Rightarrow> bool" where
  "shared_main_step oc L X N rx_mem tx_mem unwound = main_run (store_net N)
     (task_of unwound (\<lambda>dev1 dev2 st. shared_umem oc (traced_libc L) (traced_libxdp X) rx_mem tx_mem st dev1 dev2))
     dev1_config dev2_config"

text \<open>
  \<^verbatim>\<open>dev1_to_dev2\<close> reads its options first; its task \<open>T config\<close> runs the example with them, whose
  loops wait for the kernel.
\<close>

definition dev1_to_dev2_main_start :: "bool \<Rightarrow> 'w platform \<Rightarrow> Opt \<Rightarrow> 'w \<Rightarrow> (Config \<times> ('w, 'r, 't) main_state) rust" where
  "dev1_to_dev2_main_start oc PL opt w =
    rbind (Config_from oc opt) (\<lambda>config. rbind (main_start PL w) (\<lambda>s. Ret (config, s)))"

definition dev1_to_dev2_main_step :: "'w rtnetlink \<Rightarrow> (Config \<Rightarrow> ('w, 't, unit) blocking_task) \<Rightarrow> Config
    \<Rightarrow> ('w, string + unit, 't) main_state \<Rightarrow> ('w, string + unit, 't) main_state \<Rightarrow> bool" where
  "dev1_to_dev2_main_step N T config = main_run N (T config) dev1_config dev2_config"

section \<open>What holds in every state\<close>

text \<open>
  Announcing and ending go with the channel, the end of the main thread with that of the example;
  a running task has got where it is by its own steps, and a value is the task's.
\<close>

definition task_reaches :: "('w, 't, 'v) blocking_task \<Rightarrow> VethDevConfig \<Rightarrow> VethDevConfig \<Rightarrow> 't \<Rightarrow> 'w \<Rightarrow> bool" where
  "task_reaches T c1 c2 t w \<longleftrightarrow>
     (\<exists>w0. (tk_step T)\<^sup>*\<^sup>* (tk_start T (fst (dev_pair c1 c2)) (snd (dev_pair c1 c2)), w0) (t, w))"

definition task_value :: "('w, 't, 'v) blocking_task \<Rightarrow> VethDevConfig \<Rightarrow> VethDevConfig \<Rightarrow> string + 'v \<Rightarrow> bool" where
  "task_value T c1 c2 res \<longleftrightarrow> (\<forall>v. res = Inr v \<longrightarrow> (\<exists>t w. task_reaches T c1 c2 t w \<and> tk_result T t = Some (Inr v)))"

definition main_ok :: "('w, 't, 'v) blocking_task \<Rightarrow> VethDevConfig \<Rightarrow> VethDevConfig \<Rightarrow> ('w, string + 'v, 't) main_state \<Rightarrow> bool" where
  "main_ok T c1 c2 s \<longleftrightarrow> (case mn_example s of
       ExStart \<Rightarrow> \<not> mn_complete s
     | ExTask p t \<Rightarrow> \<not> mn_complete s \<and> task_reaches T c1 c2 t (mn_world s)
     | ExResult res \<Rightarrow> \<not> mn_complete s \<and> task_value T c1 c2 res
     | ExAnnounced res \<Rightarrow> mn_complete s \<and> task_value T c1 c2 res
     | ExEnded out \<Rightarrow> mn_complete s \<and> out \<noteq> UB \<and> (\<forall>res. out = Ret res \<longrightarrow> task_value T c1 c2 res))
   \<and> (mn_pc s = MainReturned \<longrightarrow> (\<exists>v. mn_example s = ExEnded (Ret (Inr v))))
   \<and> (mn_pc s = MainPanicked \<longrightarrow> (\<exists>out. mn_example s = ExEnded out \<and> (\<forall>v. out \<noteq> Ret (Inr v))))"

lemma task_reaches_step: "task_reaches T c1 c2 t w \<Longrightarrow> tk_step T (t, w) (t', w') \<Longrightarrow> task_reaches T c1 c2 t' w'"
  by (meson rtranclp.rtrancl_into_rtrancl task_reaches_def)

lemma task_reaches_start: "dev_pair c1 c2 = (d1, d2) \<Longrightarrow> task_reaches T c1 c2 (tk_start T d1 d2) w"
  by (auto simp: task_reaches_def)

lemma main_step_ok:
  assumes "main_step N T c1 c2 s s'" and "main_ok T c1 c2 s"
  shows "main_ok T c1 c2 s'"
  using assms
proof (induction rule: main_step.induct)
  case (task_ends s p t res d w)
  then show ?case by (cases d) (auto simp: main_ok_def task_value_def)
next
  case (join s out)
  then show ?case by (auto simp: main_ok_def split: rust.split sum.split)
qed (auto simp: main_ok_def task_value_def task_reaches_step task_reaches_start split: example_thread.splits)

lemma main_run_ok: "main_run N T c1 c2 s s' \<Longrightarrow> main_ok T c1 c2 s \<Longrightarrow> main_ok T c1 c2 s'"
  by (auto simp: main_run_def ctrl_c_def main_step_ok) (simp add: main_ok_def split: example_thread.splits)

lemma main_start_state:
  assumes "main_start PL w = Ret s"
  shows "mn_example s = ExStart \<and> mn_deletion s = None \<and> \<not> mn_complete s \<and> \<not> mn_ctrl s \<and> mn_pc s = MainSelect"
  using assms by (auto simp: main_start_def rbind_Ret_iff split: prod.splits)

lemma main_start_ok: "main_start PL w = Ret s \<Longrightarrow> main_ok T c1 c2 s"
  by (drule main_start_state) (simp add: main_ok_def)

lemma main_runs_ok:
  assumes "(main_run N T c1 c2)\<^sup>*\<^sup>* s0 s" and "main_ok T c1 c2 s0"
  shows "main_ok T c1 c2 s"
  using assms by (induction rule: rtranclp_induct) (auto intro: main_run_ok)

section \<open>The devices\<close>

definition task_keeps :: "('w \<Rightarrow> veth_pairs) \<Rightarrow> ('w, 't, 'v) blocking_task \<Rightarrow> bool" where
  "task_keeps pairs T \<longleftrightarrow> (\<forall>t w t' w'. tk_step T (t, w) (t', w') \<longrightarrow> pairs w' = pairs w)"

context veth_net
begin

text \<open>What exists after the request to delete, by its answer.\<close>

definition cleaned :: "VethDevConfig \<Rightarrow> VethDevConfig \<Rightarrow> veth_pairs \<Rightarrow> string + unit \<Rightarrow> 'w \<Rightarrow> bool" where
  "cleaned c1 c2 P ans w \<longleftrightarrow> (case ans of Inr _ \<Rightarrow> pairs w = P | Inl e \<Rightarrow> left_behind c1 c2 P (pairs w))"

definition made :: "VethDevConfig \<Rightarrow> VethDevConfig \<Rightarrow> veth_pairs \<Rightarrow> VethPair \<Rightarrow> 'w \<Rightarrow> bool" where
  "made c1 c2 P p w \<longleftrightarrow> (\<exists>q. ((vd_if_name c1, ve_index (vp_dev1 p)), q) \<notin> P \<and> fst q = vd_if_name c2
     \<and> pairs w = insert ((vd_if_name c1, ve_index (vp_dev1 p)), q) P)"

definition devices_ok :: "VethDevConfig \<Rightarrow> VethDevConfig \<Rightarrow> veth_pairs \<Rightarrow> ('w, 'r, 't) main_state \<Rightarrow> bool" where
  "devices_ok c1 c2 P s \<longleftrightarrow> (case mn_example s of
       ExStart \<Rightarrow> mn_deletion s = None \<and> pairs (mn_world s) = P
     | ExTask p t \<Rightarrow> mn_deletion s = None \<and> made c1 c2 P p (mn_world s)
     | ExEnded Panic \<Rightarrow> mn_deletion s = None \<and> (pairs (mn_world s) = P \<or> left_behind c1 c2 P (pairs (mn_world s)))
     | _ \<Rightarrow> (\<exists>ans. mn_deletion s = Some ans \<and> cleaned c1 c2 P ans (mn_world s)))"

lemma devices_ok_same:
  assumes "devices_ok c1 c2 P s" and "mn_example s' = mn_example s" "mn_deletion s' = mn_deletion s" "mn_world s' = mn_world s"
  shows "devices_ok c1 c2 P s'"
  using assms(1) unfolding devices_ok_def assms(2-4) .

lemma made_left: "made c1 c2 P p w \<Longrightarrow> left_behind c1 c2 P (pairs w)"
  by (auto simp: made_def left_behind_def)

lemma made_dropped: "made c1 c2 P p w \<Longrightarrow> cleaned c1 c2 P (VethPair_drop_result N w p) (VethPair_drop N w p)"
  using made_left [of c1 c2 P p w] drop_pair [of w "vd_if_name c1" p _ P]
  by (auto simp: made_def cleaned_def split: sum.split)

lemma made_built:
  assumes "build_veth_pair N w (vd_if_name c1) (vd_if_name c2) = (Ret (Inr p), w')"
  shows "made c1 c2 (pairs w) p w'"
  using assms by (cases rule: build_cases) (auto simp: made_def)

lemma nothing_built:
  assumes "build_veth_pair N w (vd_if_name c1) (vd_if_name c2) = (r, w')" and "r = Panic \<or> r = Ret (Inl e)"
  shows "pairs w' = pairs w \<or> left_behind c1 c2 (pairs w) (pairs w')"
  using assms(1)
proof (cases rule: build_cases)
  case (made i1 i2 p)
  then show ?thesis by (auto simp: left_behind_def)
qed simp

lemma made_same: "made c1 c2 P p w \<Longrightarrow> pairs w' = pairs w \<Longrightarrow> made c1 c2 P p w'"
  by (simp add: made_def)

lemma bring_up_same: "bring_up N w p c1 c2 = (r, w') \<Longrightarrow> pairs w' = pairs w"
proof -
  assume "bring_up N w p c1 c2 = (r, w')"
  moreover have "leaves (pairs w) (bring_up N w p c1 c2)" by (auto simp: bring_up_def)
  ultimately show ?thesis by simp
qed

lemma set_status_same: "VethPair_set_status N w p st = (r, w') \<Longrightarrow> pairs w' = pairs w"
  using leaves_set_status [OF refl, of w p st] by simp

lemma main_step_devices:
  assumes "main_step N T c1 c2 s s'" and "devices_ok c1 c2 P s" and "task_keeps pairs T"
  shows "devices_ok c1 c2 P s'"
  using assms
proof (induction rule: main_step.induct)
  case (no_pair s r w e)
  with nothing_built [OF no_pair(2,3)] show ?case by (simp add: devices_ok_def)
next
  case (pair_not_up s p w1 e w2)
  with made_same [OF made_built bring_up_same] show ?case
    by (auto simp: devices_ok_def intro: made_dropped)
next
  case (task_starts s p w1 w2 dev1 dev2)
  with made_same [OF made_built bring_up_same] show ?case by (auto simp: devices_ok_def)
next
  case (task_turn s p t t' w)
  then have "made c1 c2 P p w" by (auto simp: devices_ok_def task_keeps_def intro: made_same)
  with task_turn show ?case by (simp add: devices_ok_def)
next
  case (task_ends s p t res d w)
  then have "made c1 c2 P p (mn_world s)" by (simp add: devices_ok_def)
  with set_status_same [OF task_ends.hyps(3)] have "made c1 c2 P p w" by (simp add: made_same)
  then show ?case by (simp add: devices_ok_def made_dropped)
next
  case (announce s res)
  then show ?case by (simp add: devices_ok_def)
next
  case (example_ends s res)
  then show ?case by (simp add: devices_ok_def)
qed (erule devices_ok_same, simp_all)+

lemma main_runs_devices:
  assumes "(main_run N T c1 c2)\<^sup>*\<^sup>* s0 s" and "devices_ok c1 c2 P s0" and "task_keeps pairs T"
  shows "devices_ok c1 c2 P s"
  using assms
proof (induction rule: rtranclp_induct)
  case (step s s')
  then show ?case
    by (auto simp: main_run_def intro: main_step_devices) (erule devices_ok_same, simp_all add: ctrl_c_def)
qed

end

section \<open>Coming to an end\<close>

text \<open>
  What is left to do beside the turns of the task; a signal takes one too, as its message has to be
  read before the next.
\<close>

definition main_left :: "('t \<times> 'w \<Rightarrow> nat) \<Rightarrow> nat \<Rightarrow> ('w, 'r, 't) main_state \<Rightarrow> nat" where
  "main_left rank k s = (case mn_example s of ExStart \<Rightarrow> k + 4 | ExTask p t \<Rightarrow> rank (t, mn_world s) + 3
       | ExResult _ \<Rightarrow> 2 | ExAnnounced _ \<Rightarrow> 1 | ExEnded _ \<Rightarrow> 0)
     + (case mn_pc s of MainSelect \<Rightarrow> 4 | MainJoin \<Rightarrow> 2 | _ \<Rightarrow> 0) + (if mn_ctrl s then 0 else 1)"

definition task_bounded :: "('t \<times> 'w \<Rightarrow> nat) \<Rightarrow> nat \<Rightarrow> ('w, 't, 'v) blocking_task \<Rightarrow> bool" where
  "task_bounded rank k T \<longleftrightarrow> (\<forall>x y. tk_step T x y \<longrightarrow> rank y < rank x)
     \<and> (\<forall>d1 d2 w. rank (tk_start T d1 d2, w) \<le> k)"

lemma main_step_left:
  assumes "main_step N T c1 c2 s s'"
    and "task_bounded rank k T"
  shows "main_left rank k s' < main_left rank k s"
  using assms
proof (induction rule: main_step.induct)
  case (task_starts s p w1 w2 dev1 dev2)
  from task_starts.prems have "rank (tk_start T dev1 dev2, w2) \<le> k" unfolding task_bounded_def by blast
  with task_starts.hyps show ?case by (simp add: main_left_def less_Suc_eq_le split: main_pc.split)
next
  case (task_turn s p t t' w)
  from task_turn.prems task_turn.hyps(2) have "rank (t', w) < rank (t, mn_world s)" unfolding task_bounded_def by blast
  with task_turn.hyps show ?case by (simp add: main_left_def split: main_pc.split)
next
  case (join s out)
  then show ?case by (cases out rule: rust.exhaust) (auto simp: main_left_def split: sum.split)
qed (simp_all add: main_left_def split: main_pc.split example_thread.split)

lemma main_run_left:
  assumes "main_run N T c1 c2 s s'"
    and "task_bounded rank k T"
  shows "main_left rank k s' < main_left rank k s"
proof (cases "ctrl_c s s'")
  case True
  then show ?thesis by (simp add: ctrl_c_def main_left_def split: example_thread.split main_pc.split)
next
  case False
  with assms(1) have "main_step N T c1 c2 s s'" by (simp add: main_run_def)
  then show ?thesis using assms(2) by (rule main_step_left)
qed

lemma main_runs_left:
  assumes "(main_run N T c1 c2 ^^ n) s s'"
    and "task_bounded rank k T"
  shows "main_left rank k s' + n \<le> main_left rank k s"
  using assms(1)
proof (induction n arbitrary: s')
  case (Suc n)
  from Suc.prems obtain b where b: "(main_run N T c1 c2 ^^ n) s b" "main_run N T c1 c2 b s'" by auto
  from Suc.IH [OF b(1)] main_run_left [OF b(2) assms(2)] show ?case by linarith
qed simp

lemma build_not_UB: "build_veth_pair N w n1 n2 \<noteq> (UB, w')"
  by (auto simp: build_veth_pair_def get_link_index_def unwrap_def unwrap_option_def Let_def
    split: prod.splits sum.splits option.splits)

text \<open>Without a signal the program goes on by itself, unless its task is stuck.\<close>

lemma main_not_stuck:
  assumes ok: "main_ok T c1 c2 s" and fin: "mn_pc s \<noteq> MainReturned" "mn_pc s \<noteq> MainPanicked"
    and live: "\<And>p t. mn_example s = ExTask p t \<Longrightarrow> tk_result T t \<noteq> None \<or> (\<exists>y. tk_step T (t, mn_world s) y)"
  shows "\<exists>s'. main_step N T c1 c2 s s'"
proof (cases "mn_example s")
  case ExStart
  obtain r w where b: "build_veth_pair N (mn_world s) (vd_if_name c1) (vd_if_name c2) = (r, w)" by (rule prod.exhaust)
  obtain d1 d2 where d: "dev_pair c1 c2 = (d1, d2)" by (rule prod.exhaust)
  show ?thesis
  proof (cases r)
    case (Ret x)
    show ?thesis
    proof (cases x)
      case (Inl e)
      with no_pair [OF ExStart b, of e] Ret show ?thesis by blast
    next
      case (Inr p)
      obtain u w2 where up: "bring_up N w p c1 c2 = (u, w2)" by (rule prod.exhaust)
      note b' = b [unfolded Ret Inr]
      show ?thesis
      proof (cases u)
        case (Inl e)
        with pair_not_up [OF ExStart b'] up show ?thesis by blast
      next
        case (Inr v)
        with task_starts [OF ExStart b' _ d] up show ?thesis by auto
      qed
    qed
  next
    case Panic
    with no_pair [OF ExStart b] show ?thesis by blast
  next
    case UB
    with b build_not_UB show ?thesis by metis
  qed
next
  case (ExTask p t)
  obtain d w where down: "VethPair_set_status N (mn_world s) p Down = (d, w)" by (rule prod.exhaust)
  from live [OF ExTask] consider res where "tk_result T t = Some res" | t' w' where "tk_step T (t, mn_world s) (t', w')"
    by auto
  then show ?thesis
  proof cases
    case 1
    with task_ends [OF ExTask _ down] show ?thesis by blast
  next
    case 2
    with task_turn [OF ExTask] show ?thesis by blast
  qed
next
  case (ExEnded out)
  with ok have "mn_complete s" by (simp add: main_ok_def)
  with ExEnded fin show ?thesis by (cases "mn_pc s") (blast intro: select_complete join)+
qed (blast intro: announce example_ends)+

text \<open>
  When the example is a function that always returns, the steps come to what \<open>run_with_veth_pair\<close>
  computes in one go.
\<close>

definition once_task :: "(VethDevConfig \<times> PacketGenerator \<Rightarrow> VethDevConfig \<times> PacketGenerator \<Rightarrow> 'w \<Rightarrow> (string + 'v) \<times> 'w)
    \<Rightarrow> ('w, ((VethDevConfig \<times> PacketGenerator) \<times> (VethDevConfig \<times> PacketGenerator)) + (string + 'v), 'v) blocking_task" where
  "once_task f = \<lparr>tk_start = (\<lambda>d1 d2. Inl (d1, d2)),
     tk_step = (\<lambda>(t, w) (t', w'). case t of Inl (d1, d2) \<Rightarrow> (case f d1 d2 w of (r, w1) \<Rightarrow> t' = Inr r \<and> w' = w1) | Inr _ \<Rightarrow> False),
     tk_result = (\<lambda>t. case t of Inl _ \<Rightarrow> None | Inr r \<Rightarrow> Some r)\<rparr>"

definition once_ok where
  "once_ok N f c1 c2 w0 s \<longleftrightarrow> (case mn_example s of
       ExStart \<Rightarrow> mn_world s = w0
     | ExTask p t \<Rightarrow> (\<exists>w1 w2. build_veth_pair N w0 (vd_if_name c1) (vd_if_name c2) = (Ret (Inr p), w1)
         \<and> bring_up N w1 p c1 c2 = (Inr (), w2)
         \<and> (case t of Inl d \<Rightarrow> d = dev_pair c1 c2 \<and> mn_world s = w2
            | Inr r \<Rightarrow> f (fst (dev_pair c1 c2)) (snd (dev_pair c1 c2)) w2 = (r, mn_world s)))
     | ExResult res \<Rightarrow> run_with_veth_pair N f w0 c1 c2 = (Ret res, mn_world s)
     | ExAnnounced res \<Rightarrow> run_with_veth_pair N f w0 c1 c2 = (Ret res, mn_world s)
     | ExEnded out \<Rightarrow> run_with_veth_pair N f w0 c1 c2 = (out, mn_world s))"

lemma once_ok_same:
  assumes "once_ok N f c1 c2 w0 s" and "mn_example s' = mn_example s" "mn_world s' = mn_world s"
  shows "once_ok N f c1 c2 w0 s'"
  using assms(1) unfolding once_ok_def assms(2-3) .

lemma once_step_ok:
  assumes "main_step N (once_task f) c1 c2 s s'" and "once_ok N f c1 c2 w0 s"
  shows "once_ok N f c1 c2 w0 s'"
  using assms
proof (induction rule: main_step.induct)
  case (no_pair s r w e)
  then show ?case by (auto simp: once_ok_def run_with_veth_pair_def)
next
  case (pair_not_up s p w1 e w2)
  then show ?case by (auto simp: once_ok_def run_with_veth_pair_def run_on_pair_parts try_then_def)
next
  case (task_starts s p w1 w2 dev1 dev2)
  then show ?case by (auto simp: once_ok_def once_task_def)
next
  case (task_turn s p t t' w)
  then show ?case by (auto simp: once_ok_def once_task_def dev_pair_def split: sum.splits prod.splits)
next
  case (task_ends s p t res d w)
  then obtain w1 w2 where r: "build_veth_pair N w0 (vd_if_name c1) (vd_if_name c2) = (Ret (Inr p), w1)"
    "bring_up N w1 p c1 c2 = (Inr (), w2)"
    "f (fst (dev_pair c1 c2)) (snd (dev_pair c1 c2)) w2 = (res, mn_world s)"
    by (auto simp: once_ok_def once_task_def split: sum.splits)
  have "run_on_pair N f w1 p c1 c2 = (case d of Inl e \<Rightarrow> Inl e | Inr _ \<Rightarrow> res, w)"
    using r(2,3) task_ends.hyps(3) by (cases d) (simp_all add: run_on_pair_parts try_then_def)
  with r(1) show ?case by (simp add: once_ok_def run_with_veth_pair_def)
next
  case (announce s res)
  then show ?case by (simp add: once_ok_def)
next
  case (example_ends s res)
  then show ?case by (simp add: once_ok_def)
qed (erule once_ok_same, simp_all)+

lemma example_ends_as_run:
  assumes "main_start PL w = Ret s0" and "(main_run N (once_task f) c1 c2)\<^sup>*\<^sup>* s0 s" and "mn_example s = ExEnded out"
  shows "run_with_veth_pair N f (mn_world s0) c1 c2 = (out, mn_world s)"
proof -
  have "once_ok N f c1 c2 (mn_world s0) s" using assms(2)
  proof (induction rule: rtranclp_induct)
    case base
    with main_start_state [OF assms(1)] show ?case by (simp add: once_ok_def)
  next
    case (step s s')
    then show ?case
      by (auto simp: main_run_def intro: once_step_ok) (erule once_ok_same, simp_all add: ctrl_c_def)
  qed
  with assms(3) show ?thesis by (simp add: once_ok_def)
qed

section \<open>The store of the example\<close>

text \<open>Requests that change only what \<open>K\<close> allows.\<close>

definition net_keeps :: "('w \<Rightarrow> 'w \<Rightarrow> bool) \<Rightarrow> 'w rtnetlink \<Rightarrow> bool" where
  "net_keeps K N \<longleftrightarrow> reflp K \<and> transp K
    \<and> (\<forall>w. K w (snd (nl_new_connection N w))) \<and> (\<forall>w h n1 n2. K w (snd (nl_link_add_veth N w h n1 n2)))
    \<and> (\<forall>w h n. K w (snd (nl_link_get N w h n))) \<and> (\<forall>w h i. K w (snd (nl_link_set_up N w h i)))
    \<and> (\<forall>w h i. K w (snd (nl_link_set_down N w h i))) \<and> (\<forall>w h i a. K w (snd (nl_link_set_address N w h i a)))
    \<and> (\<forall>w h i ip k. K w (snd (nl_address_add N w h i ip k))) \<and> (\<forall>w h i. K w (snd (nl_link_del N w h i)))"

lemma keeps_trans: "net_keeps K N \<Longrightarrow> K w1 w2 \<Longrightarrow> K w2 w3 \<Longrightarrow> K w1 w3"
  unfolding net_keeps_def by (elim conjE) (rule transpD)

lemma keeps_refl: "net_keeps K N \<Longrightarrow> K w w"
  by (simp add: net_keeps_def reflp_def)

lemma keepsD:
  assumes "net_keeps K N"
  shows "K w (snd (nl_link_get N w h n))" "K w (snd (nl_link_set_up N w h i))" "K w (snd (nl_link_set_down N w h i))"
    "K w (snd (nl_link_set_address N w h i a))" "K w (snd (nl_address_add N w h i ip k))" "K w (snd (nl_link_del N w h i))"
    "K w (snd (nl_new_connection N w))" "K w (snd (nl_link_add_veth N w h n1 n2))"
  using assms by (simp_all add: net_keeps_def)

lemma keeps_requests:
  assumes "net_keeps K N"
  shows "K w (snd (VethDev_set_status N w d s))" "K w (snd (VethDev_set_addr N w d a))"
    "K w (snd (VethDev_set_ip_addr N w d ip))" "K w (VethPair_drop N w p)" "K w (snd (get_link_index N w h n))"
  by (simp_all add: keepsD [OF assms] VethDev_set_status_def VethDev_set_addr_def VethDev_set_ip_addr_def
    VethPair_drop_def get_link_index_def case_prod_beta Let_def split: LinkStatus.split)

lemma keeps_set_status:
  assumes k: "net_keeps K N" and run: "VethPair_set_status N w p s = (r, w')"
  shows "K w w'"
proof -
  obtain r1 w1 where 1: "VethDev_set_status N w (vp_dev1 p) s = (r1, w1)" by (rule prod.exhaust)
  obtain r2 w2 where 2: "VethDev_set_status N w1 (vp_dev2 p) s = (r2, w2)" by (rule prod.exhaust)
  have "K w w1" "K w1 w2" using keeps_requests(1) [OF k] 1 2 by (metis snd_conv)+
  moreover have "w' \<in> {w1, w2}"
    using run 1 2 by (auto simp: VethPair_set_status_def try_then_def split: sum.splits)
  ultimately show ?thesis using keeps_trans [OF k] by blast
qed

lemma keeps_build:
  assumes k: "net_keeps K N" and run: "build_veth_pair N w n1 n2 = (r, w')"
  shows "K w w'"
proof -
  obtain c w1 where 1: "nl_new_connection N w = (c, w1)" by (rule prod.exhaust)
  obtain a w2 where 2: "nl_link_add_veth N w1 (projr c) n1 n2 = (a, w2)" by (rule prod.exhaust)
  obtain g1 w3 where 3: "get_link_index N w2 (projr c) n1 = (g1, w3)" by (rule prod.exhaust)
  obtain g2 w4 where 4: "get_link_index N w3 (projr c) n2 = (g2, w4)" by (rule prod.exhaust)
  have "K w w1" using keepsD(7) [OF k] 1 by (metis snd_conv)
  moreover have "K w1 w2" using keepsD(8) [OF k] 2 by (metis snd_conv)
  moreover have "K w2 w3" "K w3 w4" using keeps_requests(5) [OF k] 3 4 by (metis snd_conv)+
  moreover have "w' \<in> {w1, w2, w3, w4}"
    using run 1 2 3 4 by (auto simp: build_veth_pair_def split: sum.splits rust.splits)
  ultimately show ?thesis using keeps_trans [OF k] by blast
qed

lemma keeps_bring_up:
  assumes k: "net_keeps K N" and run: "bring_up N w p c1 c2 = (r, w')"
  shows "K w w'"
proof -
  obtain r1 w1 where 1: "VethPair_set_status N w p Up = (r1, w1)" by (rule prod.exhaust)
  obtain r2 w2 where 2: "VethDev_set_addr N w1 (vp_dev1 p) (vd_addr c1) = (r2, w2)" by (rule prod.exhaust)
  obtain r3 w3 where 3: "VethDev_set_addr N w2 (vp_dev2 p) (vd_addr c2) = (r3, w3)" by (rule prod.exhaust)
  obtain r4 w4 where 4: "VethDev_set_ip_addr N w3 (vp_dev1 p) (vd_ip_addr c1) = (r4, w4)" by (rule prod.exhaust)
  obtain r5 w5 where 5: "VethDev_set_ip_addr N w4 (vp_dev2 p) (vd_ip_addr c2) = (r5, w5)" by (rule prod.exhaust)
  note req = keeps_requests [OF k]
  have "K w w1" using keeps_set_status [OF k 1] .
  moreover have "K w1 w2" "K w2 w3" using req(2) 2 3 by (metis snd_conv)+
  moreover have "K w3 w4" "K w4 w5" using req(3) 4 5 by (metis snd_conv)+
  moreover have "w' \<in> {w1, w2, w3, w4, w5}"
    using run 1 2 3 4 5 by (auto simp: bring_up_def try_then_def split: sum.splits)
  ultimately show ?thesis using keeps_trans [OF k] by blast
qed

text \<open>In a store the requests change what is outside, not what the store holds or has called.\<close>

definition same_store :: "'w traced socket_store \<Rightarrow> 'w traced socket_store \<Rightarrow> bool" where
  "same_store st st' \<longleftrightarrow> (\<exists>w. st' = st\<lparr>us_world := (w, calls_made st)\<rparr>)"

lemma same_store_eqs:
  "same_store st st' \<Longrightarrow> calls_made st' = calls_made st \<and> us_maps st' = us_maps st \<and> us_umems st' = us_umems st
    \<and> ss_sockets st' = ss_sockets st"
  by (auto simp: same_store_def)

lemma same_store_start: "same_store (fst (program_start w)) st \<Longrightarrow> \<exists>w'. st = fst (program_start w')"
  by (auto simp: same_store_def program_start_def)

lemma in_store_same: "same_store st (snd (in_store op st))"
  by (auto simp: in_store_def same_store_def split: prod.split)

lemma store_net_keeps: "net_keeps same_store (store_net (N :: 'a rtnetlink))"
proof -
  have "st = st\<lparr>us_world := (fst (us_world st), calls_made st)\<rparr>" for st :: "'a traced socket_store" by simp
  then have "reflp (same_store :: 'a traced socket_store \<Rightarrow> _)" unfolding same_store_def by (blast intro: reflpI)
  moreover have "transp (same_store :: 'a traced socket_store \<Rightarrow> _)" by (rule transpI) (auto simp: same_store_def)
  ultimately show ?thesis by (simp add: net_keeps_def store_net_def in_store_same)
qed

text \<open>The example ran on a store that differs from the first one outside only, and so does the last from what it left.\<close>

definition ran :: "(VethDevConfig \<Rightarrow> VethDevConfig \<Rightarrow> 'w traced socket_store \<Rightarrow> 'w traced socket_store rust)
    \<Rightarrow> VethDevConfig \<Rightarrow> VethDevConfig \<Rightarrow> 'w traced socket_store \<Rightarrow> 'w traced socket_store \<Rightarrow> bool" where
  "ran run c1 c2 st0 st \<longleftrightarrow> (\<exists>st5 st6. same_store st0 st5 \<and> run c1 c2 st5 = Ret st6 \<and> same_store st6 st)"

definition ran_ok where
  "ran_ok run c1 c2 st0 s \<longleftrightarrow> (case mn_example s of
       ExStart \<Rightarrow> same_store st0 (mn_world s)
     | ExTask p t \<Rightarrow> (t = HelloDone \<longrightarrow> ran run c1 c2 st0 (mn_world s))
         \<and> (\<forall>d1 d2. t = HelloRuns d1 d2 \<longrightarrow> d1 = c1 \<and> d2 = c2 \<and> same_store st0 (mn_world s))
     | ExResult res \<Rightarrow> res = Inr () \<longrightarrow> ran run c1 c2 st0 (mn_world s)
     | ExAnnounced res \<Rightarrow> res = Inr () \<longrightarrow> ran run c1 c2 st0 (mn_world s)
     | ExEnded out \<Rightarrow> out = Ret (Inr ()) \<longrightarrow> ran run c1 c2 st0 (mn_world s))"

lemma ran_ok_same:
  assumes "ran_ok run c1 c2 st0 s" and "mn_example s' = mn_example s" "mn_world s' = mn_world s"
  shows "ran_ok run c1 c2 st0 s'"
  using assms(1) unfolding ran_ok_def assms(2-3) .

lemma ran_same: "ran run c1 c2 st0 st \<Longrightarrow> same_store st st' \<Longrightarrow> ran run c1 c2 st0 st'"
  unfolding ran_def by (meson keeps_trans [OF store_net_keeps])

lemma ran_step_ok:
  assumes "main_step (store_net N) (task_of unwound run) c1 c2 s s'" and "ran_ok run c1 c2 st0 s"
  shows "ran_ok run c1 c2 st0 s'"
  using assms
proof (induction rule: main_step.induct)
  case (no_pair s r w e)
  then show ?case by (simp add: ran_ok_def)
next
  case (pair_not_up s p w1 e w2)
  then show ?case by (simp add: ran_ok_def)
next
  case (task_starts s p w1 w2 dev1 dev2)
  have "same_store (mn_world s) w2"
    using keeps_trans [OF store_net_keeps keeps_build [OF store_net_keeps task_starts.hyps(2)]
      keeps_bring_up [OF store_net_keeps task_starts.hyps(3)]] .
  with task_starts keeps_trans [OF store_net_keeps] show ?case
    by (auto simp: ran_ok_def task_of_def dev_pair_def Let_def)
next
  case (task_turn s p t t' w)
  then show ?case
    by (cases t) (auto simp: ran_ok_def task_of_def ran_def keeps_refl [OF store_net_keeps] split: rust.splits)
next
  case (task_ends s p t res d w)
  have "same_store (mn_world s) (VethPair_drop (store_net N) w p)"
    using keeps_trans [OF store_net_keeps keeps_set_status [OF store_net_keeps task_ends.hyps(3)]
      keeps_requests(4) [OF store_net_keeps]] .
  with task_ends show ?case
    by (cases t; cases d) (auto simp: ran_ok_def task_of_def intro: ran_same)
next
  case (announce s res)
  then show ?case by (simp add: ran_ok_def)
next
  case (example_ends s res)
  then show ?case by (simp add: ran_ok_def)
qed (erule ran_ok_same, simp_all)+

lemma ran_runs_ok:
  assumes "(main_run (store_net N) (task_of unwound run) c1 c2)\<^sup>*\<^sup>* s0 s" and "ran_ok run c1 c2 st0 s0"
  shows "ran_ok run c1 c2 st0 s"
  using assms
proof (induction rule: rtranclp_induct)
  case (step s s')
  then show ?case
    by (auto simp: main_run_def intro: ran_step_ok) (erule ran_ok_same, simp_all add: ctrl_c_def)
qed

section \<open>Properties\<close>

text \<open>
  C19: \<^verbatim>\<open>main\<close> waits for the clean-up. However the signals, the example's thread and the main thread
  interleave, when \<^verbatim>\<open>main\<close> has returned or panicked the example's thread has ended. \<^verbatim>\<open>main\<close> returned
  exactly when it ended with a value, which is one the task came to by its own steps. If the
  kernel was asked to delete the pair of devices, the pair is gone when it granted that and
  there, with nothing else, when it refused; only a thread that panicked while it made the pair
  has not asked, and then nothing was made, or the pair stays. Assumed is the contract of the
  requests and that the task makes no devices.
\<close>

theorem main_waits_for_clean_up:
  assumes "veth_net N pairs" and "task_keeps pairs T"
    and start: "main_start PL w = Ret s0" and run: "(main_run N T c1 c2)\<^sup>*\<^sup>* s0 s"
    and fin: "mn_pc s = MainReturned \<or> mn_pc s = MainPanicked"
  shows "\<exists>out. mn_example s = ExEnded out \<and> (mn_pc s = MainReturned \<longleftrightarrow> (\<exists>v. out = Ret (Inr v)))
    \<and> (\<forall>v. out = Ret (Inr v) \<longrightarrow> (\<exists>t w. task_reaches T c1 c2 t w \<and> tk_result T t = Some (Inr v)))
    \<and> (case mn_deletion s of
        Some (Inr _) \<Rightarrow> out \<noteq> Panic \<and> pairs (mn_world s) = pairs (mn_world s0)
      | Some (Inl e) \<Rightarrow> out \<noteq> Panic \<and> left_behind c1 c2 (pairs (mn_world s0)) (pairs (mn_world s))
      | None \<Rightarrow> out = Panic \<and> (pairs (mn_world s) = pairs (mn_world s0)
          \<or> left_behind c1 c2 (pairs (mn_world s0)) (pairs (mn_world s))))"
proof -
  have ok: "main_ok T c1 c2 s" using main_runs_ok [OF run main_start_ok [OF start]] .
  with fin obtain out where ended: "mn_example s = ExEnded out" by (auto simp: main_ok_def)
  have "veth_net.devices_ok pairs c1 c2 (pairs (mn_world s0)) s0"
    using main_start_state [OF start] by (simp add: veth_net.devices_ok_def [OF assms(1)])
  from veth_net.main_runs_devices [OF assms(1) run this assms(2)]
  have "case mn_deletion s of
        Some (Inr _) \<Rightarrow> out \<noteq> Panic \<and> pairs (mn_world s) = pairs (mn_world s0)
      | Some (Inl e) \<Rightarrow> out \<noteq> Panic \<and> left_behind c1 c2 (pairs (mn_world s0)) (pairs (mn_world s))
      | None \<Rightarrow> out = Panic \<and> (pairs (mn_world s) = pairs (mn_world s0)
          \<or> left_behind c1 c2 (pairs (mn_world s0)) (pairs (mn_world s)))"
    by (cases out rule: rust.exhaust; cases "mn_deletion s"; cases "the (mn_deletion s)")
      (auto simp: veth_net.devices_ok_def [OF assms(1)] veth_net.cleaned_def [OF assms(1)] ended)
  moreover have "mn_pc s = MainReturned \<longleftrightarrow> (\<exists>v. out = Ret (Inr v))" using ok ended fin by (auto simp: main_ok_def)
  moreover have "\<forall>v. out = Ret (Inr v) \<longrightarrow> (\<exists>t w. task_reaches T c1 c2 t w \<and> tk_result T t = Some (Inr v))"
    using ok ended by (simp add: main_ok_def task_value_def)
  ultimately show ?thesis using ended by blast
qed

text \<open>
  C20: \<^verbatim>\<open>main\<close> ends with its example. Let the task come to a result in at most \<open>k\<close> steps, counted by a
  rank that every step lowers, and never be stuck before. Then the program takes at most \<open>k + 9\<close>
  steps, signals included, and until \<^verbatim>\<open>main\<close> has returned or panicked it can always take a step of
  its own: it needs no signal to go on, neither after an example that panics without announcing
  itself nor after one that ended before it was waited for.
\<close>

theorem main_ends:
  assumes start: "main_start PL w = Ret s0" and run: "(main_run N T c1 c2 ^^ n) s0 s"
    and bound: "task_bounded rank k T"
    and live: "\<And>t w. task_reaches T c1 c2 t w \<Longrightarrow> tk_result T t = None \<Longrightarrow> \<exists>y. tk_step T (t, w) y"
  shows "n \<le> k + 9 \<and> (mn_pc s = MainReturned \<or> mn_pc s = MainPanicked \<or> (\<exists>s'. main_step N T c1 c2 s s'))"
proof -
  have ok: "main_ok T c1 c2 s"
    using main_runs_ok [OF relpowp_imp_rtranclp [OF run] main_start_ok [OF start]] .
  have "main_left rank k s0 = k + 9" using main_start_state [OF start] by (simp add: main_left_def)
  with main_runs_left [OF run bound] have "n \<le> k + 9" by simp
  moreover have "tk_result T t \<noteq> None \<or> (\<exists>y. tk_step T (t, mn_world s) y)" if "mn_example s = ExTask p t" for p t
    using live [of t "mn_world s"] ok that by (auto simp: main_ok_def)
  then have "mn_pc s = MainReturned \<or> mn_pc s = MainPanicked \<or> (\<exists>s'. main_step N T c1 c2 s s')"
    using main_not_stuck [OF ok] by blast
  ultimately show ?thesis by blast
qed

text \<open>
  C40: ctrl+c does not end an example that hangs. Let the task never come to a result. Once it is
  running, whatever steps and signals follow, it still runs, \<^verbatim>\<open>main\<close> has neither returned nor
  panicked, and the pair of devices is still there: the signal is reported, and then \<^verbatim>\<open>main\<close> waits
  for the thread like before.
\<close>

theorem main_outlasted_by_example:
  assumes "veth_net N pairs" and "task_keeps pairs T"
    and start: "main_start PL w = Ret s0" and run: "(main_run N T c1 c2)\<^sup>*\<^sup>* s0 s"
    and task: "mn_example s = ExTask p t" and more: "(main_run N T c1 c2)\<^sup>*\<^sup>* s s'"
    and never: "\<And>t w. task_reaches T c1 c2 t w \<Longrightarrow> tk_result T t = None"
  shows "(\<exists>t'. mn_example s' = ExTask p t') \<and> mn_pc s' \<noteq> MainReturned \<and> mn_pc s' \<noteq> MainPanicked
    \<and> left_behind c1 c2 (pairs (mn_world s0)) (pairs (mn_world s'))"
proof -
  have ok: "main_ok T c1 c2 s" using main_runs_ok [OF run main_start_ok [OF start]] .
  have inv: "main_ok T c1 c2 s' \<and> (\<exists>t'. mn_example s' = ExTask p t')" using more
  proof (induction rule: rtranclp_induct)
    case base
    with ok task show ?case by simp
  next
    case (step x y)
    then obtain t' where t': "mn_example x = ExTask p t'" "task_reaches T c1 c2 t' (mn_world x)"
      by (auto simp: main_ok_def)
    from step.hyps(2) have "\<exists>t'. mn_example y = ExTask p t'"
      using t'(1) never [OF t'(2)]
      by (auto simp: main_run_def ctrl_c_def elim: main_step.cases)
    with step main_run_ok show ?case by blast
  qed
  then obtain t' where t': "mn_example s' = ExTask p t'" by blast
  have "veth_net.devices_ok pairs c1 c2 (pairs (mn_world s0)) s0"
    using main_start_state [OF start] by (simp add: veth_net.devices_ok_def [OF assms(1)])
  from veth_net.main_runs_devices [OF assms(1) rtranclp_trans [OF run more] this assms(2)]
  have "veth_net.made pairs c1 c2 (pairs (mn_world s0)) p (mn_world s')"
    by (simp add: veth_net.devices_ok_def [OF assms(1)] t')
  from veth_net.made_left [OF assms(1) this] inv t' show ?thesis by (auto simp: main_ok_def)
qed

lemma store_start_same: "main_start (store_platform PL) st = Ret s \<Longrightarrow> same_store st (mn_world s)"
  by (auto simp: main_start_def ctrl_channel_def store_platform_def in_store_def same_store_def rbind_Ret_iff
    split: prod.splits)

text \<open>
  C18: the examples \<^verbatim>\<open>hello_xdp\<close> and \<^verbatim>\<open>shared_umem\<close>, from the first line of \<^verbatim>\<open>main\<close> to its last, give
  back everything. When \<^verbatim>\<open>main\<close> has returned, after any requests to the network and any signals,
  every socket, UMEM and memory map that the example opened inside the run has been closed, each
  once and in order, and no reference-counted cell is left in the store. Assumed of the
  allocators only that they do not hand out what is in use.
\<close>

theorem example_mains_release_all:
  assumes start: "main_start (store_platform PL) (fst (program_start w)) = Ret s0"
    and steps: "(hello_main_step oc L X N rx_mem tx_mem unwound)\<^sup>*\<^sup>* s0 s
      \<or> (shared_main_step oc L X N rx_mem tx_mem unwound)\<^sup>*\<^sup>* s0 s"
    and ret: "mn_pc s = MainReturned" and fresh: "fresh_trace no_resources (calls_made (mn_world s))"
  shows "opens no_resources (calls_made (mn_world s)) = no_resources
    \<and> ordered_trace no_resources (calls_made (mn_world s)) \<and> cells (us_maps (mn_world s)) = Map.empty
    \<and> cells (us_umems (mn_world s)) = Map.empty \<and> cells (ss_sockets (mn_world s)) = Map.empty"
proof -
  let ?hello = "\<lambda>dev1 dev2 st. hello_xdp oc (traced_libc L) (traced_libxdp X) rx_mem tx_mem st dev1 dev2"
  let ?shared = "\<lambda>dev1 dev2 st. shared_umem oc (traced_libc L) (traced_libxdp X) rx_mem tx_mem st dev1 dev2"
  from steps obtain run where run: "run = ?hello \<or> run = ?shared"
    and main: "(main_run (store_net N) (task_of unwound run) dev1_config dev2_config)\<^sup>*\<^sup>* s0 s"
    unfolding hello_main_step_def shared_main_step_def using that [of ?hello] that [of ?shared] by blast
  have "ran_ok run dev1_config dev2_config (mn_world s0) s0"
    using main_start_state [OF start] keeps_refl [OF store_net_keeps] by (simp add: ran_ok_def)
  from ran_runs_ok [OF main this] main_runs_ok [OF main main_start_ok [OF start]] ret
  have "ran run dev1_config dev2_config (mn_world s0) (mn_world s)" by (auto simp: ran_ok_def main_ok_def)
  then obtain st5 st6 where st5: "same_store (mn_world s0) st5" and ret5: "run dev1_config dev2_config st5 = Ret st6"
    and st6: "same_store st6 (mn_world s)" unfolding ran_def by blast
  obtain v where s0: "mn_world s0 = fst (program_start v)"
    using same_store_start [OF store_start_same [OF start]] by blast
  obtain v5 where "st5 = fst (program_start v5)" using same_store_start [OF st5 [unfolded s0]] by (elim exE)
  with run ret5 hello_programs_release_all [of oc L X rx_mem tx_mem v5 dev1_config dev2_config st6] fresh same_store_eqs [OF st6]
  show ?thesis by auto
qed

section \<open>Over the reference network\<close>

definition ref_platform :: "'w platform" where
  "ref_platform = \<lparr>set_handler = (\<lambda>w. (Inr (), w)), new_runtime = (\<lambda>w. (Inr (), w))\<rparr>"

definition first_state :: "'w \<Rightarrow> ('w, 'r, 't) main_state" where
  "first_state w = \<lparr>mn_world = w, mn_example = ExStart, mn_deletion = None, mn_complete = False, mn_ctrl = False,
     mn_pc = MainSelect, mn_printed = False\<rparr>"

lemma first_state_world: "mn_world (first_state w) = w"
  by (simp add: first_state_def)

lemma ref_main_started: "main_start ref_platform w = Ret (first_state w)"
  by (simp add: main_start_def ctrl_channel_def ref_platform_def first_state_def unwrap_def)

definition ref_veth_pair :: VethPair where
  "ref_veth_pair = \<lparr>vp_dev1 = \<lparr>ve_handle = 0, ve_index = 1, ve_if_name = vd_if_name dev1_config\<rparr>,
     vp_dev2 = \<lparr>ve_handle = 0, ve_index = 2, ve_if_name = vd_if_name dev2_config\<rparr>\<rparr>"

definition ref_up :: ref_net where
  "ref_up = Some (vd_if_name dev1_config, vd_if_name dev2_config)"

lemma ref_pair_made:
  "build_veth_pair ref_netlink None (vd_if_name dev1_config) (vd_if_name dev2_config) = (Ret (Inr ref_veth_pair), ref_up)"
  "bring_up ref_netlink ref_up ref_veth_pair dev1_config dev2_config = (Inr (), ref_up)"
  "VethPair_set_status ref_netlink ref_up ref_veth_pair Down = (Inr (), ref_up)"
  "VethPair_drop ref_netlink ref_up ref_veth_pair = None"
  "VethPair_drop_result ref_netlink ref_up ref_veth_pair = Inr ()"
proof -
  show "build_veth_pair ref_netlink None (vd_if_name dev1_config) (vd_if_name dev2_config) = (Ret (Inr ref_veth_pair), ref_up)"
    by (simp add: build_veth_pair_def get_link_index_def ref_netlink_def ref_veth_pair_def ref_up_def unwrap_def
      unwrap_option_def dev1_config_def dev2_config_def)
qed (simp_all add: bring_up_def try_then_def VethPair_set_status_def VethDev_set_status_def VethDev_set_addr_def
  VethDev_set_ip_addr_def VethPair_drop_def VethPair_drop_result_def ref_netlink_def ref_veth_pair_def ref_up_def)

text \<open>A task that returns at once. A signal comes first: the main thread takes it, then waits.\<close>

definition ref_task where
  "ref_task = once_task (\<lambda>d1 d2 (w :: ref_net). (Inr (), w))"

definition ref_main_end :: "(ref_net, string + unit,
    ((VethDevConfig \<times> PacketGenerator) \<times> (VethDevConfig \<times> PacketGenerator)) + (string + unit)) main_state" where
  "ref_main_end = (first_state None)\<lparr>mn_example := ExEnded (Ret (Inr ())), mn_deletion := Some (Inr ()),
     mn_complete := True, mn_pc := MainReturned, mn_printed := True\<rparr>"

lemma ref_main_run: "(main_run ref_netlink ref_task dev1_config dev2_config ^^ 8) (first_state None) ref_main_end"
proof -
  let ?step = "main_run ref_netlink ref_task dev1_config dev2_config"
  obtain d1 d2 where d: "dev_pair dev1_config dev2_config = (d1, d2)" by (rule prod.exhaust)
  let ?s0 = "first_state None"
  let ?s1 = "?s0\<lparr>mn_ctrl := True\<rparr>"
  let ?s2 = "?s1\<lparr>mn_pc := MainJoin, mn_ctrl := False, mn_printed := True\<rparr>"
  let ?s3 = "?s2\<lparr>mn_world := ref_up, mn_example := ExTask ref_veth_pair (tk_start ref_task d1 d2)\<rparr>"
  let ?s4 = "?s3\<lparr>mn_world := ref_up, mn_example := ExTask ref_veth_pair (Inr (Inr ()))\<rparr>"
  let ?s5 = "?s4\<lparr>mn_world := None, mn_example := ExResult (Inr ()), mn_deletion := Some (Inr ())\<rparr>"
  let ?s6 = "?s5\<lparr>mn_example := ExAnnounced (Inr ()), mn_complete := True\<rparr>"
  let ?s7 = "?s6\<lparr>mn_example := ExEnded (Ret (Inr ())), mn_complete := True\<rparr>"
  have t1: "?step ?s0 ?s1" by (simp add: main_run_def ctrl_c_def first_state_def)
  have t2: "?step ?s1 ?s2" unfolding main_run_def by (rule disjI1, rule select_ctrl_c) (simp_all add: first_state_def)
  have t3: "?step ?s2 ?s3" unfolding main_run_def
    using task_starts [of ?s2 ref_netlink dev1_config dev2_config ref_veth_pair ref_up ref_up d1 d2 ref_task, OF _ _ _ d]
    by (simp add: first_state_def ref_pair_made)
  have t4: "?step ?s3 ?s4" unfolding main_run_def
    using task_turn [of ?s3 ref_veth_pair "Inl (d1, d2)" ref_task "Inr (Inr ())" ref_up ref_netlink dev1_config dev2_config]
    by (simp add: ref_task_def once_task_def)
  have t5: "?step ?s4 ?s5" unfolding main_run_def
    using task_ends [of ?s4 ref_veth_pair "Inr (Inr ())" ref_task "Inr ()" ref_netlink "Inr ()" ref_up]
    by (simp add: ref_task_def once_task_def ref_pair_made)
  have t6: "?step ?s5 ?s6" unfolding main_run_def by (rule disjI1, rule announce) simp
  have t7: "?step ?s6 ?s7" unfolding main_run_def by (rule disjI1, rule example_ends) simp
  have t8: "?step ?s7 ref_main_end" unfolding main_run_def
    using join [of ?s7 "Ret (Inr ())" ref_netlink ref_task dev1_config dev2_config]
    by (simp add: ref_main_end_def first_state_def)
  note step = relpowp_Suc_I2 [where P = ?step]
  have "(?step ^^ Suc (Suc (Suc (Suc (Suc (Suc (Suc (Suc 0)))))))) ?s0 ref_main_end"
    by (rule step [OF t1 step [OF t2 step [OF t3 step [OF t4 step [OF t5 step [OF t6 step [OF t7 step [OF t8 relpowp_0_I]]]]]]]])
  then show ?thesis by (simp only: numeral_eq_Suc pred_numeral_simps BitM.simps One_nat_def)
qed

lemma ref_task_keeps: "task_keeps ref_pairs ref_task"
  by (auto simp: task_keeps_def ref_task_def once_task_def split: sum.splits)

theorem main_waits_for_clean_up_witness:
  "mn_pc ref_main_end = MainReturned \<and> mn_deletion ref_main_end = Some (Inr ()) \<and> ref_pairs (mn_world ref_main_end) = {}"
proof -
  have pc: "mn_pc ref_main_end = MainReturned" "mn_deletion ref_main_end = Some (Inr ())"
    by (simp_all add: ref_main_end_def first_state_def)
  from main_waits_for_clean_up [OF ref_net.veth_net_axioms ref_task_keeps ref_main_started
      relpowp_imp_rtranclp [OF ref_main_run] disjI1 [OF pc(1)]]
  have "ref_pairs (mn_world ref_main_end) = ref_pairs None"
    unfolding pc(2) option.case sum.case first_state_world by (elim exE conjE)
  with pc show ?thesis by (simp add: ref_pairs_def)
qed

theorem main_ends_witness:
  "(main_run ref_netlink ref_task dev1_config dev2_config ^^ 8) (first_state None) ref_main_end \<and> (8::nat) \<le> 1 + 9"
proof -
  have bound: "task_bounded (\<lambda>(t, w). case t of Inl _ \<Rightarrow> 1 | Inr _ \<Rightarrow> 0) 1 ref_task"
    by (auto simp: task_bounded_def ref_task_def once_task_def split: sum.splits)
  have live: "\<exists>y. tk_step ref_task (t, w) y" if "tk_result ref_task t = None" for t w
    using that by (auto simp: ref_task_def once_task_def split: sum.splits)
  from main_ends [OF ref_main_started ref_main_run bound live] ref_main_run show ?thesis by simp
qed

text \<open>A task that goes round for ever, and the signal after it started.\<close>

definition spin_task :: "(ref_net, unit, unit) blocking_task" where
  "spin_task = \<lparr>tk_start = (\<lambda>d1 d2. ()), tk_step = (\<lambda>x y. y = x), tk_result = (\<lambda>t. None)\<rparr>"

definition spinning :: "(ref_net, string + unit, unit) main_state" where
  "spinning = (first_state None)\<lparr>mn_world := ref_up, mn_example := ExTask ref_veth_pair ()\<rparr>"

definition interrupted :: "(ref_net, string + unit, unit) main_state" where
  "interrupted = spinning\<lparr>mn_pc := MainJoin, mn_printed := True\<rparr>"

theorem main_outlasted_by_example_witness:
  "(main_run ref_netlink spin_task dev1_config dev2_config)\<^sup>*\<^sup>* (first_state None) interrupted
    \<and> mn_printed interrupted
    \<and> {s'. (main_run ref_netlink spin_task dev1_config dev2_config)\<^sup>*\<^sup>* interrupted s'}
        \<subseteq> {s'. mn_pc s' \<noteq> MainReturned \<and> mn_pc s' \<noteq> MainPanicked
            \<and> left_behind dev1_config dev2_config {} (ref_pairs (mn_world s'))}"
proof (intro conjI subsetI CollectI)
  let ?step = "main_run ref_netlink spin_task dev1_config dev2_config"
  obtain d1 d2 where d: "dev_pair dev1_config dev2_config = (d1, d2)" by (rule prod.exhaust)
  have t1: "?step (first_state None) spinning" unfolding main_run_def
    using task_starts [of "first_state None" ref_netlink dev1_config dev2_config ref_veth_pair ref_up ref_up d1 d2 spin_task, OF _ _ _ d]
    by (simp add: first_state_def ref_pair_made spinning_def spin_task_def)
  have t2: "?step spinning (spinning\<lparr>mn_ctrl := True\<rparr>)"
    by (simp add: main_run_def ctrl_c_def spinning_def first_state_def)
  have t3: "?step (spinning\<lparr>mn_ctrl := True\<rparr>) interrupted" unfolding main_run_def
    using select_ctrl_c [of "spinning\<lparr>mn_ctrl := True\<rparr>" ref_netlink spin_task dev1_config dev2_config]
    by (simp add: interrupted_def spinning_def first_state_def)
  show run: "?step\<^sup>*\<^sup>* (first_state None) interrupted"
    using t1 t2 t3 by (meson converse_rtranclp_into_rtranclp r_into_rtranclp)
  show "mn_printed interrupted" by (simp add: interrupted_def)
  have keeps: "task_keeps ref_pairs spin_task" by (simp add: task_keeps_def spin_task_def)
  have never: "tk_result spin_task t = None" for t by (simp add: spin_task_def)
  have task: "mn_example interrupted = ExTask ref_veth_pair ()" by (simp add: interrupted_def spinning_def)
  have w0: "ref_pairs (mn_world (first_state None)) = {}" by (simp add: first_state_def ref_pairs_def)
  fix s' assume "s' \<in> {s'. ?step\<^sup>*\<^sup>* interrupted s'}"
  then have more: "?step\<^sup>*\<^sup>* interrupted s'" by simp
  note out = main_outlasted_by_example [OF ref_net.veth_net_axioms keeps ref_main_started run task more never]
  then show "mn_pc s' \<noteq> MainReturned" "mn_pc s' \<noteq> MainPanicked" by blast+
  from out show "left_behind dev1_config dev2_config {} (ref_pairs (mn_world s'))" by (simp add: w0)
qed

text \<open>\<^verbatim>\<open>shared_umem\<close> on a network that grants every request.\<close>

definition yes_net :: "'w rtnetlink" where
  "yes_net = \<lparr>nl_new_connection = (\<lambda>w. (Inr 0, w)), nl_link_add_veth = (\<lambda>w h n1 n2. (Inr (), w)),
     nl_link_get = (\<lambda>w h n. (Inr (Some 1), w)), nl_link_set_up = (\<lambda>w h i. (Inr (), w)),
     nl_link_set_down = (\<lambda>w h i. (Inr (), w)), nl_link_set_address = (\<lambda>w h i a. (Inr (), w)),
     nl_address_add = (\<lambda>w h i ip k. (Inr (), w)), nl_link_del = (\<lambda>w h i. (Inr (), w))\<rparr>"

lemma yes_net_pair:
  assumes "us_world st = (w, calls_made st)"
  shows "\<exists>p. build_veth_pair (store_net yes_net) st n1 n2 = (Ret (Inr p), st)"
    "bring_up (store_net yes_net) st p c1 c2 = (Inr (), st)"
    "VethPair_set_status (store_net yes_net) st p Down = (Inr (), st)" "VethPair_drop (store_net yes_net) st p = st"
  using assms by (simp_all add: build_veth_pair_def get_link_index_def bring_up_def try_then_def
    VethPair_set_status_def VethDev_set_status_def VethDev_set_addr_def VethDev_set_ip_addr_def VethPair_drop_def
    store_net_def yes_net_def in_store_def unwrap_def unwrap_option_def)

theorem example_mains_release_all_witness:
  "\<exists>s0 s. main_start (store_platform ref_platform) (fst (program_start 0)) = Ret s0
    \<and> (shared_main_step False ref_libc hello_lib yes_net (\<lambda>_. hello_received) (replicate 131072 0) id)\<^sup>*\<^sup>* s0 s
    \<and> mn_pc s = MainReturned \<and> opens no_resources (calls_made (mn_world s)) = no_resources"
proof -
  have i: "Interface_from_str (vd_if_name dev1_config) = Inr (Interface (vd_if_name dev1_config))"
    "Interface_from_str (vd_if_name dev2_config) = Inr (Interface (vd_if_name dev2_config))" by code_simp+
  obtain st where shared: "shared_umem False hello_L hello_X (\<lambda>_. hello_received) (replicate 131072 0)
      (fst (program_start 0)) dev1_config dev2_config = Ret st" "fresh_trace no_resources (calls_made st)"
    using shared_umem_returns [OF i] by blast
  let ?st0 = "fst (program_start (0::nat))"
  let ?run = "\<lambda>dev1 dev2 st. shared_umem False hello_L hello_X (\<lambda>_. hello_received) (replicate 131072 0) st dev1 dev2"
  let ?T = "task_of id ?run" and ?N = "store_net yes_net"
  let ?step = "shared_main_step False ref_libc hello_lib yes_net (\<lambda>_. hello_received) (replicate 131072 0) id"
  have world: "us_world ?st0 = (0, calls_made ?st0)" "us_world st = (fst (us_world st), calls_made st)"
    by (simp_all add: program_start_def)
  obtain p where p: "build_veth_pair ?N ?st0 (vd_if_name dev1_config) (vd_if_name dev2_config) = (Ret (Inr p), ?st0)"
    using yes_net_pair(1) [OF world(1)] by blast
  note up = yes_net_pair(2) [OF world(1), of p dev1_config dev2_config]
  note down = yes_net_pair(3,4) [OF world(2), of p]
  obtain d1 d2 where d: "dev_pair dev1_config dev2_config = (d1, d2)" "fst d1 = dev1_config" "fst d2 = dev2_config"
    by (simp add: dev_pair_def Let_def)
  let ?s0 = "first_state ?st0 :: (nat traced socket_store, string + unit, hello_task) main_state"
  have start: "main_start (store_platform ref_platform) ?st0 = Ret ?s0"
    by (simp add: main_start_def ctrl_channel_def store_platform_def ref_platform_def in_store_def unwrap_def
      program_start_def first_state_def)
  let ?s1 = "?s0\<lparr>mn_world := ?st0, mn_example := ExTask p (tk_start ?T d1 d2)\<rparr>"
  let ?s2 = "?s1\<lparr>mn_world := st, mn_example := ExTask p HelloDone\<rparr>"
  let ?s3 = "?s2\<lparr>mn_world := VethPair_drop ?N st p, mn_example := ExResult (Inr ()),
    mn_deletion := Some (VethPair_drop_result ?N st p)\<rparr>"
  let ?s4 = "?s3\<lparr>mn_example := ExAnnounced (Inr ()), mn_complete := True\<rparr>"
  let ?s5 = "?s4\<lparr>mn_example := ExEnded (Ret (Inr ())), mn_complete := True\<rparr>"
  let ?s6 = "?s5\<lparr>mn_pc := MainJoin\<rparr>"
  let ?s7 = "?s6\<lparr>mn_pc := MainReturned\<rparr>"
  note defs = shared_main_step_def main_run_def
  have t1: "?step ?s0 ?s1" unfolding defs
    using task_starts [of ?s0 ?N dev1_config dev2_config p ?st0 ?st0 d1 d2 ?T, OF _ _ _ d(1)]
    by (simp add: first_state_def p up)
  have t2: "?step ?s1 ?s2" unfolding defs
    by (rule disjI1, rule task_turn [where t = "HelloRuns dev1_config dev2_config"])
      (simp_all add: task_of_def d(2,3) shared(1))
  have t3: "?step ?s2 ?s3" unfolding defs
    using task_ends [of ?s2 p HelloDone ?T "Inr ()" ?N "Inr ()" st] by (simp add: task_of_def down)
  have t4: "?step ?s3 ?s4" unfolding defs by (rule disjI1, rule announce) simp
  have t5: "?step ?s4 ?s5" unfolding defs by (rule disjI1, rule example_ends) simp
  have t6: "?step ?s5 ?s6" unfolding defs by (rule disjI1, rule select_complete) (simp_all add: first_state_def)
  have t7: "?step ?s6 ?s7" unfolding defs using join [of ?s6 "Ret (Inr ())"] by simp
  note step = converse_rtranclp_into_rtranclp [where r = ?step]
  have steps: "?step\<^sup>*\<^sup>* ?s0 ?s7"
    by (rule step [OF t1 step [OF t2 step [OF t3 step [OF t4 step [OF t5 step [OF t6 step [OF t7 rtranclp.rtrancl_refl]]]]]]])
  have ret: "mn_pc ?s7 = MainReturned" "fresh_trace no_resources (calls_made (mn_world ?s7))"
    using shared(2) by (simp_all add: down)
  from example_mains_release_all [OF start disjI2 [OF steps] ret] have "opens no_resources (calls_made (mn_world ?s7)) = no_resources"
    by (rule conjunct1)
  with start steps ret(1) show ?thesis by (intro exI conjI)
qed

end
