(* ===== verification/Xsk_Unit_Tests.thy ===== *)
theory Xsk_Unit_Tests
  imports Xsk_Example
begin

text \<open>
  The unit tests of the crate (the modules \<^verbatim>\<open>tests\<close> of \<^verbatim>\<open>src/src/\<close>), written out over the model
  and shown to pass in both build profiles. A test is a computation that returns nothing; a
  failing assertion is a panic, as in the source.
\<close>

section \<open>Assertions\<close>

definition assert :: "bool \<Rightarrow> unit rust" where
  "assert b = (if b then Ret () else Panic)"

definition is_ok :: "'e + 'a \<Rightarrow> bool" where
  "is_ok r = (case r of Inl _ \<Rightarrow> False | Inr _ \<Rightarrow> True)"

definition is_err :: "'e + 'a \<Rightarrow> bool" where
  "is_err r = (case r of Inl _ \<Rightarrow> True | Inr _ \<Rightarrow> False)"

text \<open>One assertion after the other.\<close>

fun asserts :: "bool list \<Rightarrow> unit rust" where
  "asserts [] = Ret ()"
| "asserts (b # bs) = rbind (assert b) (\<lambda>_. asserts bs)"

definition bytes :: "string \<Rightarrow> u8 list" where
  "bytes s = map of_char s"

section \<open>Sizes and configurations\<close>

definition check_powers_of_two :: "unit rust" where
  "check_powers_of_two = asserts [is_pow_of_two 0 = False, is_pow_of_two 1 = True, is_pow_of_two 2 = True,
     is_pow_of_two 13 = False]"

definition queue_size_should_accept_only_non_zero_powers_of_two :: "unit rust" where
  "queue_size_should_accept_only_non_zero_powers_of_two = asserts [is_err (QueueSize_new 0),
     is_ok (QueueSize_new 1), is_ok (QueueSize_new 2), is_err (QueueSize_new 3), is_ok (QueueSize_new 4)]"

definition frame_size_should_reject_values_below_2048 :: "bool \<Rightarrow> unit rust" where
  "frame_size_should_reject_values_below_2048 oc =
    rbind (sub_oc oc XDP_UMEM_MIN_CHUNK_SIZE 1) (\<lambda>below.
    rbind (add_oc oc XDP_UMEM_MIN_CHUNK_SIZE 1) (\<lambda>above.
      asserts [is_err (FrameSize_new 0), is_err (FrameSize_new below),
        is_ok (FrameSize_new XDP_UMEM_MIN_CHUNK_SIZE), is_ok (FrameSize_new above)]))"

text \<open>The builder with the given headroom and the smallest frame size.\<close>

definition smallest_frames :: "bool \<Rightarrow> 'w libxdp \<Rightarrow> u32 \<Rightarrow> (ConfigBuildError + UmemConfig) rust" where
  "smallest_frames oc X headroom =
    rbind (unwrap (FrameSize_try_from XDP_UMEM_MIN_CHUNK_SIZE)) (\<lambda>fs.
      UmemConfigBuilder_build oc X (UmemConfigBuilder_frame_size
        (UmemConfigBuilder_frame_headroom (UmemConfigBuilder_new X) headroom) fs))"

definition frame_size_must_be_greater_than_total_headroom :: "bool \<Rightarrow> 'w libxdp \<Rightarrow> unit rust" where
  "frame_size_must_be_greater_than_total_headroom oc X =
    rbind (sub_oc oc XDP_UMEM_MIN_CHUNK_SIZE (XDP_PACKET_HEADROOM X)) (\<lambda>fits.
    rbind (smallest_frames oc X fits) (\<lambda>r1.
    rbind (assert (is_ok r1)) (\<lambda>_.
    rbind (sub_oc oc (XDP_PACKET_HEADROOM X) 1) (\<lambda>less.
    rbind (sub_oc oc XDP_UMEM_MIN_CHUNK_SIZE less) (\<lambda>too_large.
    rbind (smallest_frames oc X too_large) (\<lambda>r2. assert (is_err r2)))))))"

definition frame_mtu_has_expected_value :: "bool \<Rightarrow> 'w libxdp \<Rightarrow> unit rust" where
  "frame_mtu_has_expected_value oc X =
    rbind (smallest_frames oc X 1024) (\<lambda>r.
    rbind (unwrap r) (\<lambda>config.
    rbind (UmemConfig_mtu oc X config) (\<lambda>mtu.
    rbind (add_oc oc 1024 (XDP_PACKET_HEADROOM X)) (\<lambda>headroom.
    rbind (sub_oc oc XDP_UMEM_MIN_CHUNK_SIZE headroom) (\<lambda>expected. assert (mtu = expected))))))"

definition config_frame_size_equals_layout_frame_size :: "bool \<Rightarrow> 'w libxdp \<Rightarrow> unit rust" where
  "config_frame_size_equals_layout_frame_size oc X =
    rbind (smallest_frames oc X 512) (\<lambda>r.
    rbind (unwrap r) (\<lambda>config.
    rbind (FrameLayout_from oc X config) (\<lambda>layout.
    rbind (FrameLayout_frame_size oc layout) (\<lambda>fs.
      assert (ucast (FrameSize_get (frame_size config)) = fs)))))"

section \<open>The cursor\<close>

text \<open>A cursor lives as long as its block; the position and the buffer keep what it wrote.\<close>

definition cursor_block :: "bool \<Rightarrow> usize \<Rightarrow> u8 list \<Rightarrow> string \<Rightarrow> (usize \<times> u8 list) rust" where
  "cursor_block oc pos buf s =
    rbind (Cursor_write_all oc (Cursor_new pos buf) (bytes s)) (\<lambda>(r, c).
    rbind (unwrap r) (\<lambda>_. Ret (cur_pos c, cur_buf c)))"

definition write_works :: "bool \<Rightarrow> unit rust" where
  "write_works oc =
    rbind (cursor_block oc 0 (replicate 32 0) ''hello'') (\<lambda>(pos, buf).
    rbind (assert (pos = 5)) (\<lambda>_.
    rbind (prefix_slice buf pos) (\<lambda>s.
    rbind (assert (s = bytes ''hello'')) (\<lambda>_.
    rbind (cursor_block oc pos buf '', world'') (\<lambda>(pos, buf).
    rbind (assert (pos = 12)) (\<lambda>_.
    rbind (prefix_slice buf pos) (\<lambda>s. assert (s = bytes ''hello, world''))))))))"

definition zero_out_works :: "bool \<Rightarrow> unit rust" where
  "zero_out_works oc =
    rbind (cursor_block oc 0 (replicate 32 0) ''hello'') (\<lambda>(pos, buf).
    rbind (assert (pos = 5)) (\<lambda>_.
    rbind (prefix_slice buf pos) (\<lambda>s.
    rbind (assert (s = bytes ''hello'')) (\<lambda>_.
      let c = Cursor_zero_out (Cursor_new pos buf) in
      asserts [cur_pos c = 0, cur_buf c = replicate 32 0]))))"

definition set_pos_cannot_exceed_buf_len :: "unit rust" where
  "set_pos_cannot_exceed_buf_len =
    (let c0 = Cursor_new 0 (replicate 32 0); c1 = Cursor_set_pos c0 1; c2 = Cursor_set_pos c1 32;
         c3 = Cursor_set_pos c2 33
     in asserts [Cursor_pos c1 = 1, Cursor_pos c2 = 32, Cursor_pos c3 = 32])"

section \<open>Frames\<close>

text \<open>
  The unit tests are built with a map that uses the heap (at the address \<open>heap\<close> here): zeroed
  bytes, and no failure.
\<close>

definition Mmap_mock_new :: "ptr \<Rightarrow> usize \<Rightarrow> bool \<Rightarrow> io_error + Mmap \<times> u8 list" where
  "Mmap_mock_new heap n use_huge_pages = Inr (\<lparr>mm_addr = heap, mm_len = n\<rparr>, replicate (unat n) 0)"

definition UmemRegion_mock_new :: "bool \<Rightarrow> ptr \<Rightarrow> u32 \<Rightarrow> FrameLayout \<Rightarrow> bool
    \<Rightarrow> (io_error + UmemRegion \<times> u8 list) rust" where
  "UmemRegion_mock_new oc heap frame_count layout use_huge_pages =
    rbind (FrameLayout_frame_size oc layout) (\<lambda>fs.
    rbind (mul_oc oc (ucast frame_count) fs) (\<lambda>len.
      case Mmap_mock_new heap len use_huge_pages of
        Inl e \<Rightarrow> Ret (Inl e)
      | Inr (m, mem) \<Rightarrow> Ret (Inr (\<lparr>rg_layout = layout, rg_addr = Mmap_addr m, rg_len = len, rg_mmap = 0\<rparr>, mem))))"

text \<open>\<^verbatim>\<open>i * frame_size + layout.frame_headroom\<close>\<close>

definition nth_data :: "bool \<Rightarrow> FrameLayout \<Rightarrow> usize \<Rightarrow> usize \<Rightarrow> usize rust" where
  "nth_data oc layout i fs =
    rbind (mul_oc oc i fs) (\<lambda>a. add_oc oc a (fl_frame_headroom layout))"

definition write_data :: "bool \<Rightarrow> UmemRegion \<Rightarrow> u8 list \<Rightarrow> FrameDesc \<Rightarrow> string \<Rightarrow> (u8 list \<times> FrameDesc) rust" where
  "write_data oc r mem desc s =
    rbind (UmemRegion_data_mut r mem desc) (\<lambda>d.
    rbind (Cursor_write_all oc (DataMut_cursor d) (bytes s)) (\<lambda>(res, c).
    rbind (unwrap res) (\<lambda>_. Ret (data_mut_back mem desc (DataMut_cursor_back d c)))))"

definition writes_persist_layout :: FrameLayout where
  "writes_persist_layout = \<lparr>fl_xdp_headroom = 0, fl_frame_headroom = 512, fl_mtu = 2048\<rparr>"

definition writes_persist :: "bool \<Rightarrow> ptr \<Rightarrow> unit rust" where
  "writes_persist oc heap = (let layout = writes_persist_layout in
    rbind (FrameLayout_frame_size oc layout) (\<lambda>fs.
    rbind (UmemRegion_mock_new oc heap 16 layout False) (\<lambda>res.
    rbind (unwrap res) (\<lambda>(umem_region, mem).
    rbind (nth_data oc layout 0 fs) (\<lambda>a0.
    rbind (nth_data oc layout 1 fs) (\<lambda>a1.
    rbind (write_data oc umem_region mem (FrameDesc_new a0) ''hello'') (\<lambda>(mem, desc_0).
      let xdp_desc = FrameDesc_write_xdp_desc desc_0 \<lparr>xd_addr = 0, xd_len = 0, xd_options = 0\<rparr> in
    rbind (asserts [xd_addr xdp_desc = a0, xd_len xdp_desc = 5, xd_options xdp_desc = 0]) (\<lambda>_.
    rbind (write_data oc umem_region mem (FrameDesc_new a1) ''world!'') (\<lambda>(mem, desc_1).
      let xdp_desc = FrameDesc_write_xdp_desc desc_1 xdp_desc in
    rbind (asserts [xd_addr xdp_desc = a1, xd_len xdp_desc = 6, xd_options xdp_desc = 0]) (\<lambda>_.
    rbind (ptr_add umem_region a0) (\<lambda>p0.
    rbind (from_raw_parts mem p0 5) (\<lambda>s0.
    rbind (assert (s0 = bytes ''hello'')) (\<lambda>_.
    rbind (ptr_add umem_region a1) (\<lambda>p1.
    rbind (from_raw_parts mem p1 6) (\<lambda>s1. assert (s1 = bytes ''world!''))))))))))))))))"

text \<open>Every byte times \<open>i + 1\<close>.\<close>

fun scaled :: "bool \<Rightarrow> u8 \<Rightarrow> u8 list \<Rightarrow> u8 list rust" where
  "scaled oc i [] = Ret []"
| "scaled oc i (el # els) =
    rbind (add_oc oc i 1) (\<lambda>k. rbind (mul_oc oc el k) (\<lambda>x.
    rbind (scaled oc i els) (\<lambda>xs. Ret (x # xs))))"

fun expected_layout :: "bool \<Rightarrow> u8 list \<Rightarrow> u8 list \<Rightarrow> u8 list rust" where
  "expected_layout oc base_layout [] = Ret []"
| "expected_layout oc base_layout (i # is) =
    rbind (scaled oc i base_layout) (\<lambda>xs. rbind (expected_layout oc base_layout is) (\<lambda>ys. Ret (xs @ ys)))"

fun write_frames :: "bool \<Rightarrow> UmemRegion \<Rightarrow> FrameLayout \<Rightarrow> u8 list \<Rightarrow> u8 list \<Rightarrow> u8 list \<Rightarrow> usize list
    \<Rightarrow> u8 list rust" where
  "write_frames oc r layout hs ds mem [] = Ret mem"
| "write_frames oc r layout hs ds mem (i # is) =
    rbind (FrameLayout_frame_size oc layout) (\<lambda>fs.
    rbind (mul_oc oc i fs) (\<lambda>a.
    rbind (add_oc oc a (fl_xdp_headroom layout)) (\<lambda>b.
    rbind (add_oc oc b (fl_frame_headroom layout)) (\<lambda>addr. let desc = FrameDesc_new addr in
    rbind (UmemRegion_frame_mut oc r mem desc) (\<lambda>(headroom, dt).
    rbind (scaled oc (ucast i) hs) (\<lambda>hs'.
    rbind (Cursor_write_all oc (HeadroomMut_cursor headroom) hs') (\<lambda>(res, c).
    rbind (unwrap res) (\<lambda>_.
    rbind (scaled oc (ucast i) ds) (\<lambda>ds'.
    rbind (Cursor_write_all oc (DataMut_cursor dt) ds') (\<lambda>(res', c').
    rbind (unwrap res') (\<lambda>_.
      let (mem', desc') = frame_mut_back r mem desc (HeadroomMut_cursor_back headroom c) (DataMut_cursor_back dt c')
      in write_frames oc r layout hs ds mem' is)))))))))))"

definition contiguous_layout :: FrameLayout where
  "contiguous_layout = \<lparr>fl_xdp_headroom = 4, fl_frame_headroom = 8, fl_mtu = 12\<rparr>"

definition writes_are_contiguous :: "bool \<Rightarrow> ptr \<Rightarrow> unit rust" where
  "writes_are_contiguous oc heap =
    (let layout = contiguous_layout;
         xdp_headroom_segment = replicate 4 0; frame_headroom_segment = replicate 8 1;
         data_segment = replicate 12 2 in
    rbind (UmemRegion_mock_new oc heap 4 layout False) (\<lambda>res.
    rbind (unwrap res) (\<lambda>(umem_region, mem).
    rbind (expected_layout oc (xdp_headroom_segment @ frame_headroom_segment @ data_segment) [0, 1, 2, 3])
      (\<lambda>expected.
    rbind (write_frames oc umem_region layout frame_headroom_segment data_segment mem [0, 1, 2, 3]) (\<lambda>mem.
    rbind (from_raw_parts mem 0 (UmemRegion_len umem_region)) (\<lambda>mmap_region.
      assert (mmap_region = expected)))))))"

section \<open>They pass\<close>


lemma Cursor_write_all_at:
  assumes "length buf < 2 ^ 32" and "unat p + length data \<le> length buf"
  shows "Cursor_write_all oc (Cursor_new p buf) data
    = Ret (Inr (), \<lparr>cur_pos = p + of_nat (length data), cur_buf = overwrite buf (unat p) data\<rparr>)"
  using assms Cursor_write_all_eq [of "Cursor_new p buf" data oc]
  by (simp add: Cursor_new_def wf_Cursor_def wf_slice_def Cursor_space_def Cursor_after_def)

lemma length_bytes [simp]: "length (bytes s) = length s"
  by (simp add: bytes_def)

lemma cursor_block_eq:
  assumes "length buf < 2 ^ 32" and "unat p + length s \<le> length buf"
  shows "cursor_block oc p buf s = Ret (p + of_nat (length s), overwrite buf (unat p) (bytes s))"
  using assms by (simp add: cursor_block_def Cursor_write_all_at unwrap_def)

lemma size_tests_pass:
  "check_powers_of_two = Ret ()" "queue_size_should_accept_only_non_zero_powers_of_two = Ret ()"
  by code_simp+

lemma profile_tests_pass:
  "frame_size_should_reject_values_below_2048 oc = Ret ()"
  by (cases oc) (simp_all add: frame_size_should_reject_values_below_2048_def XDP_UMEM_MIN_CHUNK_SIZE_def
    sub_oc_def add_oc_def assert_def is_ok_def is_err_def FrameSize_new_def)

lemma cursor_tests_pass:
  "write_works oc = Ret ()" "zero_out_works oc = Ret ()" "set_pos_cannot_exceed_buf_len = Ret ()"
  by (simp_all add: write_works_def zero_out_works_def set_pos_cannot_exceed_buf_len_def cursor_block_eq assert_def
    prefix_slice_def overwrite_def bytes_def Cursor_zero_out_def Cursor_set_pos_def Cursor_new_def Cursor_pos_def
    min_usize_def slice_len_def Let_def)

lemma smallest_frames_eq:
  assumes "XDP_PACKET_HEADROOM X = 256" and "h < 2 ^ 31"
  shows "smallest_frames oc X h = Ret (if 2048 < 256 + h then Inl \<lparr>err_frame_size = 2048, err_total_headroom = 256 + h\<rparr>
    else Inr ((UmemConfig_default X)\<lparr>frame_size := FrameSize 2048, frame_headroom := h\<rparr>))"
proof -
  have "add_oc oc 256 h = Ret (256 + h)"
    using assms(2) by (simp add: add_oc_in_range word_less_nat_alt)
  then show ?thesis
    by (simp add: smallest_frames_def FrameSize_try_from_def FrameSize_new_def assms(1)
      XDP_UMEM_MIN_CHUNK_SIZE_def UmemConfigBuilder_build_def UmemConfigBuilder_frame_size_def
      UmemConfigBuilder_frame_headroom_def UmemConfigBuilder_new_def unwrap_def)
qed

lemma config_tests_pass:
  assumes "XDP_PACKET_HEADROOM X = 256"
  shows "frame_size_must_be_greater_than_total_headroom oc X = Ret ()" "frame_mtu_has_expected_value oc X = Ret ()"
    "config_frame_size_equals_layout_frame_size oc X = Ret ()"
  by (simp_all add: frame_size_must_be_greater_than_total_headroom_def frame_mtu_has_expected_value_def
    config_frame_size_equals_layout_frame_size_def smallest_frames_eq [OF assms] assms
    XDP_UMEM_MIN_CHUNK_SIZE_def UmemConfig_mtu_def UmemConfig_xdp_headroom_def
    FrameLayout_from_def FrameLayout_frame_size_def add_oc_def sub_oc_def assert_def is_ok_def is_err_def unwrap_def)

lemma write_frames_Cons:
  assumes r: "wf_region r n" "rg_layout r = l" "length mem = unat (rg_len r)"
    and i: "unat i < n" "n \<le> 2 ^ 32" and len: "length hs = unat (fl_frame_headroom l)" "length ds = unat (fl_mtu l)"
    and scaled: "scaled oc (ucast i) hs = Ret hs'" "scaled oc (ucast i) ds = Ret ds'"
      "length hs' = length hs" "length ds' = length ds"
  shows "write_frames oc r l hs ds mem (i # is)
    = write_frames oc r l hs ds (overwrite (overwrite mem (headroom_off l (unat i)) hs') (data_off l (unat i)) ds') is"
proof -
  have wf: "wf_layout l" using r by (simp add: wf_region_def)
  then have small: "unat (fl_frame_headroom l) < 2 ^ 32" "unat (fl_mtu l) < 2 ^ 32"
    by (simp_all add: wf_layout_def frame_bytes_def)
  obtain fs where fs: "FrameLayout_frame_size oc l = Ret fs" "mul_oc oc i fs = Ret (i * fs)"
    "add_oc oc (i * fs) (fl_xdp_headroom l) = Ret (i * fs + fl_xdp_headroom l)"
    "add_oc oc (i * fs + fl_xdp_headroom l) (fl_frame_headroom l) = Ret (i * fs + fl_xdp_headroom l + fl_frame_headroom l)"
    and addr: "unat (i * fs + fl_xdp_headroom l + fl_frame_headroom l) = data_off l (unat i)"
    using frame_addr_computed [OF wf, of "unat i" oc] i by auto
  let ?d = "FrameDesc_new (i * fs + fl_xdp_headroom l + fl_frame_headroom l)"
  have d: "desc_of r n ?d (unat i)"
    using i addr r(2) by (simp add: desc_of_def FrameDesc_new_def SegmentLengths_default_def)
  let ?h = "seg mem (headroom_off l (unat i)) (unat (fl_frame_headroom l))" and ?b = "seg mem (data_off l (unat i)) (unat (fl_mtu l))"
  note p = desc_pointers(5,6) [OF r(1) d]
  then have lens: "length ?h = unat (fl_frame_headroom l)" "length ?b = unat (fl_mtu l)"
    using r(2,3) by (simp_all add: length_seg_in del: length_seg)
  have "Cursor_write_all oc (Cursor_new 0 ?h) hs' = Ret (Inr (), \<lparr>cur_pos = of_nat (length hs'), cur_buf = hs'\<rparr>)"
    "Cursor_write_all oc (Cursor_new 0 ?b) ds' = Ret (Inr (), \<lparr>cur_pos = of_nat (length ds'), cur_buf = ds'\<rparr>)"
    using Cursor_write_all_at [of ?h 0 hs' oc] Cursor_write_all_at [of ?b 0 ds' oc] lens small len scaled(3,4)
    by (simp_all add: overwrite_def)
  then show ?thesis
    using UmemRegion_frame_mut_view [OF r(1) d r(3), of oc] frame_mut_back_eq [OF r(1) d] r(2)
    by (simp add: fs scaled unwrap_def HeadroomMut_cursor_def DataMut_cursor_def HeadroomMut_cursor_back_def
      DataMut_cursor_back_def FrameDesc_new_def SegmentLengths_default_def)
qed

text \<open>Storing back a segment of which a prefix was written.\<close>

lemma overwrite_seg_prefix:
  assumes "off + n \<le> length xs" and "length ys \<le> n"
  shows "overwrite xs off (overwrite (seg xs off n) 0 ys) = overwrite xs off ys"
  using assms
  by (intro nth_equalityI) (auto simp: nth_overwrite nth_seg)

lemma new_desc [simp]:
  "sl_data (fd_lengths (FrameDesc_new a)) = 0"
  "tx_entry (FrameDesc_new a) = \<lparr>xd_addr = a, xd_len = 0, xd_options = 0\<rparr>"
  by (simp_all add: FrameDesc_new_def SegmentLengths_default_def tx_entry_def)

lemma write_data_eq:
  assumes r: "wf_region r n" "desc_of r n d i" "length mem = unat (rg_len r)" and old: "sl_data (fd_lengths d) = 0"
    and fits: "length s \<le> unat (fl_mtu (rg_layout r))"
  shows "\<exists>d'. write_data oc r mem d s = Ret (overwrite mem (data_off (rg_layout r) i) (bytes s), d')
    \<and> tx_entry d' = (tx_entry d)\<lparr>xd_len := ucast (of_nat (length s) :: usize)\<rparr>"
proof -
  let ?b = "seg mem (data_off (rg_layout r) i) (unat (fl_mtu (rg_layout r)))"
  note p = desc_pointers [OF r(1,2)]
  have b: "length ?b = unat (fl_mtu (rg_layout r))" "unat (fl_mtu (rg_layout r)) < 2 ^ 32"
    using p(6) r by (simp_all add: length_seg_in wf_region_def wf_layout_def frame_bytes_def del: length_seg)
  have "UmemRegion_data_mut r mem d = Ret (DataMut_new 0 ?b)"
    using p r(3) by (simp add: UmemRegion_data_mut_def from_raw_parts_def old)
  moreover have "Cursor_write_all oc (Cursor_new 0 ?b) (bytes s)
      = Ret (Inr (), \<lparr>cur_pos = of_nat (length s), cur_buf = overwrite ?b 0 (bytes s)\<rparr>)"
    using Cursor_write_all_at [of ?b 0 "bytes s" oc] b fits by simp
  ultimately show ?thesis
    using p(4,6) r(3) fits overwrite_seg_prefix [of "data_off (rg_layout r) i" "unat (fl_mtu (rg_layout r))" mem "bytes s"]
    by (simp add: write_data_def unwrap_def DataMut_new_def DataMut_cursor_def DataMut_cursor_back_def data_mut_back_def tx_entry_def)
qed

lemma writes_persist_pass: "writes_persist oc heap = Ret ()"
proof -
  let ?r = "\<lparr>rg_layout = writes_persist_layout, rg_addr = heap, rg_len = 40960, rg_mmap = 0\<rparr>"
  let ?mem = "replicate 40960 0 :: u8 list"
  let ?mem1 = "overwrite ?mem 512 (bytes ''hello'')"
  let ?mem2 = "overwrite ?mem1 3072 (bytes ''world!'')"
  have l: "data_off writes_persist_layout 0 = 512" "data_off writes_persist_layout (Suc 0) = 3072"
    by (simp_all add: data_off_def writes_persist_layout_def frame_bytes_def)
  have mtu: "unat (fl_mtu writes_persist_layout) = 2048" by (simp add: writes_persist_layout_def)
  have r: "wf_region ?r 16" "desc_of ?r 16 (FrameDesc_new 512) 0" "desc_of ?r 16 (FrameDesc_new 3072) 1"
    by (simp_all add: wf_region_def wf_layout_def frame_bytes_def writes_persist_layout_def desc_of_def data_off_def
      FrameDesc_new_def SegmentLengths_default_def)
  have m: "length ?mem = unat (rg_len ?r)" "length ?mem1 = unat (rg_len ?r)" by simp_all
  obtain d0 where d0: "write_data oc ?r ?mem (FrameDesc_new 512) ''hello'' = Ret (?mem1, d0)"
    "tx_entry d0 = \<lparr>xd_addr = 512, xd_len = 5, xd_options = 0\<rparr>"
    using write_data_eq [OF r(1,2) m(1), of "''hello''" oc]
    by (auto simp: l mtu)
  obtain d1 where d1: "write_data oc ?r ?mem1 (FrameDesc_new 3072) ''world!'' = Ret (?mem2, d1)"
    "tx_entry d1 = \<lparr>xd_addr = 3072, xd_len = 6, xd_options = 0\<rparr>"
    using write_data_eq [OF r(1,3) m(2), of "''world!''" oc]
    by (auto simp: l mtu)
  have "seg ?mem2 512 5 = bytes ''hello''" "seg ?mem2 3072 6 = bytes ''world!''"
    by (simp_all add: seg_overwrite_disjoint seg_overwrite_same)
  then have reads: "from_raw_parts ?mem2 512 5 = Ret (bytes ''hello'')" "from_raw_parts ?mem2 3072 6 = Ret (bytes ''world!'')"
    by (simp_all add: from_raw_parts_def)
  have new: "UmemRegion_mock_new oc heap 16 writes_persist_layout False = Ret (Inr (?r, ?mem))"
    by (simp add: UmemRegion_mock_new_def Mmap_mock_new_def Mmap_addr_def FrameLayout_frame_size_def
      writes_persist_layout_def add_oc_def mul_oc_def)
  have fs: "FrameLayout_frame_size oc writes_persist_layout = Ret 2560"
    by (simp add: FrameLayout_frame_size_def writes_persist_layout_def add_oc_def)
  have a: "nth_data oc writes_persist_layout 0 2560 = Ret 512" "nth_data oc writes_persist_layout 1 2560 = Ret 3072"
    by (simp_all add: nth_data_def writes_persist_layout_def add_oc_def mul_oc_def)
  show ?thesis
    by (simp add: writes_persist_def Let_def fs new a d0 d1 write_xdp_desc_eq reads unwrap_def assert_def ptr_add_def)
qed

lemma scaled_ones:
  assumes "unat i < 4" and "c < 4"
  shows "scaled oc i (replicate n c) = Ret (replicate n (c * (i + 1)))"
proof -
  have "add_oc oc i 1 = Ret (i + 1)" using assms(1) by (simp add: add_oc_in_range)
  moreover have "unat (i + 1) \<le> 4" using assms(1) unat_add_in_range [of i 1] by simp
  moreover have "unat c < 4" using assms(2) by (simp add: word_less_nat_alt)
  ultimately have "mul_oc oc c (i + 1) = Ret (c * (i + 1))"
    using mult_le_mono [of "unat c" 3 "unat (i + 1)" 4] by (simp add: mul_oc_def)
  with \<open>add_oc oc i 1 = _\<close> show ?thesis by (induction n) simp_all
qed

lemma scaled_append:
  "scaled oc i xs = Ret xs' \<Longrightarrow> scaled oc i ys = Ret ys' \<Longrightarrow> scaled oc i (xs @ ys) = Ret (xs' @ ys')"
  by (induction xs arbitrary: xs') (auto simp: rbind_Ret_iff)

lemma writes_are_contiguous_pass: "writes_are_contiguous oc heap = Ret ()"
proof -
  let ?l = contiguous_layout
  let ?r = "\<lparr>rg_layout = ?l, rg_addr = heap, rg_len = 96, rg_mmap = 0\<rparr>"
  define put where "put mem i = overwrite (overwrite mem (headroom_off ?l (unat i)) (replicate 8 (1 * (ucast i + 1))))
    (data_off ?l (unat i)) (replicate 12 (2 * (ucast i + 1) :: u8))" for mem and i :: usize
  have r: "wf_region ?r 4" "rg_layout ?r = ?l"
    by (simp_all add: wf_region_def wf_layout_def frame_bytes_def contiguous_layout_def)
  have new: "UmemRegion_mock_new oc heap 4 ?l False = Ret (Inr (?r, replicate 96 0))"
    by (simp add: UmemRegion_mock_new_def Mmap_mock_new_def Mmap_addr_def FrameLayout_frame_size_def
      contiguous_layout_def add_oc_def mul_oc_def)
  have off: "headroom_off ?l k = 24 * k + 4" "data_off ?l k = 24 * k + 12" for k
    by (simp_all add: headroom_off_def data_off_def frame_bytes_def contiguous_layout_def)
  have scaled: "scaled oc (ucast i) (replicate m c) = Ret (replicate m (c * (ucast i + 1)))"
    if "unat i < 4" "c < 4" for i :: usize and m c
  proof (rule scaled_ones [OF _ that(2)])
    show "unat (ucast i :: u8) < 4" using that(1) by (simp add: unsigned_ucast_eq take_bit_nat_eq_self)
  qed
  have step: "write_frames oc ?r ?l (replicate 8 1) (replicate 12 2) mem (i # is)
      = write_frames oc ?r ?l (replicate 8 1) (replicate 12 2) (put mem i) is"
    if "length mem = 96" "unat i < 4" for mem i "is"
    unfolding put_def using that r
    by (intro write_frames_Cons [where n = 4] scaled) (simp_all add: contiguous_layout_def)
  have len: "length (put mem i) = 96" if "length mem = 96" "unat i < 4" for mem i
    using that by (simp add: put_def off)
  let ?m1 = "put (replicate 96 0) 0"
  let ?m3 = "put (put ?m1 1) 2"
  have lens: "length (replicate 96 0 :: u8 list) = 96" "length ?m1 = 96" "length (put ?m1 1) = 96" "length ?m3 = 96"
    by (simp_all add: len)
  have written: "write_frames oc ?r ?l (replicate 8 1) (replicate 12 2) (replicate 96 0) [0, 1, 2, 3] = Ret (put ?m3 3)"
    by (simp add: step lens del: write_frames.simps(2))
  have "put ?m3 3 = concat (map (\<lambda>i. replicate 4 0 @ replicate 8 i @ replicate 12 (2 * i)) [1, 2, 3, 4])"
    by (simp add: put_def off overwrite_def)
  moreover have "expected_layout oc (replicate 4 0 @ replicate 8 1 @ replicate 12 2) [0, 1, 2, 3]
      = Ret (concat (map (\<lambda>i. replicate 4 0 @ replicate 8 i @ replicate 12 (2 * i)) [1, 2, 3, 4]))"
    by (simp add: scaled_append scaled_ones)
  ultimately show ?thesis
    using written lens len [of ?m3 3]
    by (simp add: writes_are_contiguous_def new Let_def unwrap_def assert_def from_raw_parts_def
      UmemRegion_len_def seg_def del: expected_layout.simps write_frames.simps)
qed

section \<open>All tests\<close>

text \<open>The tests of the crate, in the order of its files.\<close>

definition unit_tests :: "bool \<Rightarrow> 'w libxdp \<Rightarrow> ptr \<Rightarrow> unit rust list" where
  "unit_tests oc X heap = [queue_size_should_accept_only_non_zero_powers_of_two,
     frame_size_should_reject_values_below_2048 oc, frame_size_must_be_greater_than_total_headroom oc X,
     frame_mtu_has_expected_value oc X, write_works oc, zero_out_works oc, set_pos_cannot_exceed_buf_len,
     writes_persist oc heap, writes_are_contiguous oc heap, config_frame_size_equals_layout_frame_size oc X,
     check_powers_of_two]"

text \<open>
  The model passes the unit tests of the crate, in both build profiles and wherever the heap
  puts the memory of the region. The one constant of libxdp they depend on, the size of the
  headroom that the kernel reserves, has its real value.
\<close>

lemma unit_tests_pass:
  assumes "XDP_PACKET_HEADROOM X = 256"
  shows "unit_tests oc X heap = replicate 11 (Ret ())"
  by (simp add: unit_tests_def size_tests_pass profile_tests_pass cursor_tests_pass config_tests_pass [OF assms]
    writes_persist_pass writes_are_contiguous_pass numeral_eq_Suc)

end
