(* ===== verification/Spec2Isabelle.thy ===== *)
theory Spec2Isabelle
  imports Xsk_Lifetimes Xsk_Receiver_Progress Xsk_Sender_Progress Xsk_Run_Example Xsk_Example_Setup Xsk_Main
    Xsk_Unit_Tests
begin

text \<open>
  A verification of the Rust crate \<^verbatim>\<open>xsk-rs\<close> (sources under \<^verbatim>\<open>src/src/\<close>) and of its example
  programs (under \<^verbatim>\<open>src/examples/\<close>). The crate is a safe-ish interface to AF_XDP sockets over libxdp. A program creates a UMEM (a mapped region of
  frames), binds a socket to a network queue and then moves frame descriptors through four
  rings shared with the kernel: it hands frames over for receiving (fill queue), takes
  received frames (receive queue), submits frames for sending (transmit queue) and takes sent
  frames back (completion queue).

  \<^bold>\<open>Parts of the crate and theories.\<close>
  \<^item> \<^verbatim>\<open>util.rs\<close>: \<open>Xsk_Util\<close>. The bit trick behind queue sizes recognises the powers of two.
  \<^item> \<^verbatim>\<open>config/\<close>: \<open>Xsk_Config\<close>. Sizes, builders, flags, interface names. When the builder
    accepts a configuration, in the two build profiles; names survive the way to C.
  \<^item> \<^verbatim>\<open>ring.rs\<close>: \<open>Xsk_Ring\<close>. The wrappers, and the contracts of the rings (below).
  \<^item> \<^verbatim>\<open>umem/frame/\<close>: \<open>Xsk_Cursor\<close> (the writing cursor) and \<open>Xsk_Frame\<close> (descriptors and
    segment views). What writes store, and where; the two mutable views are instances of one
    interface, the locale \<open>segment\<close>.
  \<^item> \<^verbatim>\<open>umem/mem/\<close>: \<open>Xsk_Mem\<close>. The map, the region and the pointer arithmetic. Accesses
    through the descriptors of a region are defined, stay in their frame and do not disturb
    other frames.
  \<^item> \<^verbatim>\<open>umem/mod.rs\<close>: \<open>Xsk_Umem\<close>. Creating, cloning and dropping a UMEM. The descriptors it
    returns; no resource is lost on a failure.
  \<^item> \<^verbatim>\<open>umem/fill_queue.rs\<close>, \<^verbatim>\<open>umem/comp_queue.rs\<close>, \<^verbatim>\<open>socket/tx_queue.rs\<close>,
    \<^verbatim>\<open>socket/rx_queue.rs\<close>: \<open>Xsk_Fill_Queue\<close>, \<open>Xsk_Comp_Queue\<close>, \<open>Xsk_Tx_Queue\<close>,
    \<open>Xsk_Rx_Queue\<close>, over the shared \<open>Xsk_Queue\<close>. Producing is all or nothing, consuming
    yields a prefix, sequences of calls lose and repeat nothing, the one-frame variants agree
    with the general ones, and what happens when a ring index overflows.
  \<^item> \<^verbatim>\<open>socket/fd.rs\<close>: \<open>Xsk_Fd\<close>. Polling and statistics.
  \<^item> \<^verbatim>\<open>socket/mod.rs\<close>: \<open>Xsk_Socket_Handle\<close> (types, clone, drop) and \<open>Xsk_Socket\<close>
    (creation). Every failing creation gives back what it took; a successful one holds the
    references of what it returns.

  \<^item> The life of all handles together: \<open>Xsk_Resources\<close> (what the reference counts own, and the
    order in which foreign objects are released) and \<open>Xsk_Lifetimes\<close> (a program that creates,
    clones and drops handles in any order, as a step relation). In every reachable state the
    handles are valid and a socket is deleted before its UMEM and a UMEM before its memory,
    each once; dropping the remaining handles releases everything.

  \<^bold>\<open>The examples.\<close>
  \<^item> \<^verbatim>\<open>examples/dev1_to_dev2.rs\<close>: \<open>Xsk_Example\<close> (options, configuration, the sockets, writing
    packets, the pieces the loops share), \<open>Xsk_Example_Setup\<close> (what the set-up gives the loops),
    \<open>Xsk_Receiver\<close> and \<open>Xsk_Sender\<close> (the two threads), \<open>Xsk_Sender_Progress\<close> and
    \<open>Xsk_Receiver_Progress\<close> (when the threads come to an end), \<open>Xsk_Two_Threads\<close> (the threads
    interleaved, with the go-ahead between them and the flag \<^verbatim>\<open>SENDER_DONE\<close>),
    \<open>Xsk_Multithreaded\<close> (the whole multithreaded mode: panics, the channel whose other end is
    gone, joining, the report), \<open>Xsk_Single_Thread\<close> (the loop that does both) and
    \<open>Xsk_Run_Example\<close> (the choice of the mode, and its report). The set-up supplies a frame for
    every entry of the fill and completion queues; a packet lands in its frame and in no other;
    the receiving thread neither loses nor repeats a frame; the counters of the sending thread
    match the frames the kernel has, and it finishes when the kernel goes on and its batch is
    not empty; the receiving thread finishes once the flag is set and waits for it otherwise;
    the accounts of both threads still hold when the threads run side by side, and in the whole
    program while none panics; a panic of the sending thread strands the receiving one; the
    single-threaded loop gives back the wrong frames.
  \<^item> \<^verbatim>\<open>examples/hello_xdp.rs\<close>, \<^verbatim>\<open>examples/shared_umem.rs\<close>: \<open>Xsk_Hello\<close>, the exchange of one packet.
    Over a link that delivers frames, the packet is found on the other side. \<open>Xsk_Hello_Release\<close>:
    when one of the programs returns, everything it opened has been released, in order.
  \<^item> \<^verbatim>\<open>main\<close> of the three examples, and \<^verbatim>\<open>ctrl_channel\<close> of \<^verbatim>\<open>examples/setup/util.rs\<close>: \<open>Xsk_Main\<close>, a step
    relation of the main thread and the example's thread, with the signals beside it as steps that
    are not the program's. The example on the devices is a transition system of its own (\<open>blocking_task\<close>),
    which need not end. \<^verbatim>\<open>main\<close> ends with its example, without needing a signal, and not before it;
    when it has ended, the kernel was asked to delete the devices, unless they could not be made;
    an example that hangs keeps \<^verbatim>\<open>main\<close> and the devices for ever, ctrl+c or not; \<^verbatim>\<open>hello_xdp\<close> and
    \<^verbatim>\<open>shared_umem\<close> have released everything when their \<^verbatim>\<open>main\<close> returns. For an example that is a function,
    the steps come to what \<open>run_with_veth_pair\<close> of \<open>Xsk_Veth\<close> computes (\<open>example_ends_as_run\<close>).
  \<^item> \<^verbatim>\<open>examples/setup/\<close>: \<open>Xsk_Veth\<close> (the virtual devices; they do not outlive the run) and the
    packet generator in \<open>Xsk_Example\<close>.

  \<^bold>\<open>The unit tests\<close> of the crate are transcribed in \<open>Xsk_Unit_Tests\<close>; the model passes them.

  \<open>Xsk_Prelude\<close> has the machine integers, the outcomes of running Rust code (a value, a
  panic, undefined behaviour), checked arithmetic and segments of lists; \<open>Xsk_Foreign\<close> the
  structures and parameters of the foreign code; \<open>Xsk_Arc\<close> reference counting; \<open>Xsk_Trace\<close>
  the recording of foreign acquisitions and releases.

  \<^bold>\<open>How state and operations correspond.\<close> A Rust type is a record or datatype of the same
  name and a method \<open>T::f\<close> is the function \<open>T_f\<close>, which takes the receiver and returns it
  updated. A mutable borrow of part of a value is the part and a function \<open>..._back\<close> that
  stores it back. A fallible operation returns a sum with the error on the left. Integer
  arithmetic that is checked in debug builds takes the flag \<open>oc\<close> (overflow checks); where a
  theorem does not fix it, it holds in both profiles. The memory of a UMEM is a list of bytes
  that is passed along; access outside it is \<open>UB\<close>. Reference-counted cells live in arenas
  inside an explicit store, and dropping a value follows the drop order of the language.

  \<^bold>\<open>Foreign code.\<close> libc, libxdp and the kernel are the parameter records \<open>libc\<close> and
  \<open>libxdp\<close> over an arbitrary world. What the queues rely on is stated as two contracts, the
  locales \<open>prod_ring\<close> and \<open>cons_ring\<close> of \<open>Xsk_Ring\<close>; the queue theorems hold for every
  libxdp that keeps them. Each queue is shown to keep the contract of a producing or consuming
  queue (locales \<open>batch_producer\<close>, \<open>batch_consumer\<close> of \<open>Xsk_Queue\<close>), from which the results
  on sequences of calls follow once for both. \<open>Xsk_Reference\<close> gives one concrete interface,
  with the masked, free-running indices of the real rings, shows that it keeps the contracts
  and is what the witnesses compute with.

  What the threads of the examples rely on in addition is the locale \<open>frame_path\<close> of
  \<open>Xsk_Frame_Path\<close>: the two rings of a direction share no memory, and a system call moves frames
  from the one to the other and neither makes nor loses one. The locales \<open>receive_path\<close> and
  \<open>send_path\<close> extend it by the system calls of the two threads. \<open>Xsk_Ref_Kernel\<close> gives the
  reference interface a kernel that moves entries between the rings and shows that both
  directions are such paths. The locale \<open>send_progress\<close> adds that the kernel completes a frame, and
  lets the socket be written, after a bounded number of calls; \<open>receive_progress\<close> that the fill
  ring takes as many addresses as it has slots and that polling does not fail; the reference kernel does both. For two threads at once, \<open>Xsk_Beside\<close> adds the contract \<open>ring_ops\<close>:
  the operations on the rings of one path keep what is said of the other. With it a statement
  about the other path joins the invariant of a path (locale \<open>beside_path\<close>), and the results on
  each thread alone carry over to both (locale \<open>side_by_side\<close> of \<open>Xsk_Two_Threads\<close>). The crates
  \<^verbatim>\<open>rtnetlink\<close>, \<^verbatim>\<open>etherparse\<close> and \<^verbatim>\<open>rand\<close> of the examples are parameters too (\<open>rtnetlink\<close> with
  the contract \<open>veth_net\<close>, \<open>packet_lib\<close>), and so are the installing of a signal handler and the making of a runtime (\<open>platform\<close>).

  \<^bold>\<open>Loops and termination.\<close> Every definition is total: loops over slices are structural
  recursion, \<open>write_all\<close> has a measure, and no fuel is used. The loops of the examples wait for
  the kernel and need not end; they are functions that make one step, over a state that says
  where the program is, and their properties hold after any number of steps (\<open>steps\<close>). For the
  sending thread a measure bounds that number: with a kernel that needs at most \<open>patience\<close> calls to
  complete a frame, \<open>(2 * patience + 4) * num_packets_to_send + patience + 2\<close> turns are enough.
  The receiving thread needs at most \<open>2 * num_packets_to_send + 1\<close> turns after the flag, and \<^verbatim>\<open>main\<close>
  nine steps, signals included, beside those of the example.

  \<^bold>\<open>Not modelled.\<close> Logging, \<^verbatim>\<open>Debug\<close> output, the mutexes (never contended by the crate's own
  code), the integration tests and the benchmark (they need network devices); of the examples
  the parsing of the command line (the options are an argument), the asynchronous runtime (a
  request is a call), the times and rates of the report, which are floating-point numbers, and
  what the unwinding of a panic releases (the world after a panic is left open). The loops of
  \<^verbatim>\<open>dev1_to_dev2\<close> are not put into the task of its \<^verbatim>\<open>main\<close>, which is an argument there. In the exchange of
  \<open>Xsk_Hello\<close> the memory written and the memory read are separate arguments, also for \<^verbatim>\<open>shared_umem\<close>,
  where they are one map. The concurrent
  activity of the kernel is represented by the world that each operation receives: a theorem
  about one call holds for whatever world the kernel has left, and between the steps of the two
  threads it may do anything that a system call may. A step of a thread is one turn
  of its loop; that turns interleave as wholes is justified by the two paths having separate
  rings (\<open>ring_ops\<close>), and the libxdp calls of one turn touch its own rings only. In
  \<open>Xsk_Two_Threads\<close> a sending thread whose partner panicked before the go-ahead stays where it
  is; in \<open>Xsk_Multithreaded\<close> it returns, as in the program.

  \<^bold>\<open>Plan.\<close> What could follow: the unwinding of a panic in the examples, with the releases it
  causes, and the single-threaded loop over the reference kernel.
\<close>

end
